(* ===== verification/Prelude.thy ===== *)
theory Prelude
  imports Main "HOL-Library.Word"
begin

unbundle bit_operations_syntax

text \<open>
  Shared vocabulary of the development: Go's byte, integer and error values, the
  \<open>(value, error)\<close> convention as a sum type, byte readers and network connections, and the
  generic list lemmas the component theories use.

  \<^item> A Go \<open>string\<close> is a sequence of bytes, and an Isabelle \<open>char\<close> is exactly one byte, so Go
    strings are \<open>string\<close>; raw network bytes are \<open>8 word\<close>, converted explicitly where the
    source converts between \<open>[]byte\<close> and \<open>string\<close>.
  \<^item> Go's \<open>int\<close> is 64 bits wide on the deployed platform. Values taken from the network or
    from arithmetic that can leave the range stay \<open>64 word\<close> (\<open>sint\<close> reads them as Go's
    comparisons do); configuration numbers are \<open>int\<close>.
  \<^item> An error is a value of \<open>go_error\<close>. \<open>Wrap\<close> is \<open>fmt.Errorf("prefix: %w", err)\<close>: the
    wrapped error stays visible to \<open>errors.Is\<close>.
\<close>

named_theorems result_simps \<open>case analysis of results\<close>
named_theorems io_simps \<open>byte readers and connections\<close>
named_theorems str_simps \<open>Go string functions\<close>

type_synonym byte = "8 word"
type_synonym int64 = "64 word"
type_synonym uint64 = "64 word"
type_synonym uint32 = "32 word"
type_synonym int32 = "32 word"

subsection \<open>Errors and results\<close>

datatype go_error =
    Errorf string
  | Wrap string go_error
  | ErrNotExist string
  | EOF
  | UnexpectedEOF
  | ErrGenerationConflict

text \<open>\<open>error_text\<close> is Go's \<open>err.Error()\<close>.\<close>

primrec error_text :: "go_error \<Rightarrow> string" where
  "error_text (Errorf s) = s"
| "error_text (Wrap s e) = s @ '': '' @ error_text e"
| "error_text (ErrNotExist s) = s"
| "error_text EOF = ''EOF''"
| "error_text UnexpectedEOF = ''unexpected EOF''"
| "error_text ErrGenerationConflict = ''backup generation conflict''"

text \<open>\<open>is_not_exist\<close> is \<open>errors.Is(err, os.ErrNotExist)\<close>.\<close>

primrec is_not_exist :: "go_error \<Rightarrow> bool" where
  "is_not_exist (Errorf s) = False"
| "is_not_exist (Wrap s e) = is_not_exist e"
| "is_not_exist (ErrNotExist s) = True"
| "is_not_exist EOF = False"
| "is_not_exist UnexpectedEOF = False"
| "is_not_exist ErrGenerationConflict = False"

type_synonym 'a result = "go_error + 'a"

definition and_then :: "'a result \<Rightarrow> ('a \<Rightarrow> 'b result) \<Rightarrow> 'b result" where
  "and_then r f = (case r of Inl e \<Rightarrow> Inl e | Inr x \<Rightarrow> f x)"

lemma and_then_Inl [simp, result_simps]: "and_then (Inl e) f = Inl e"
  by (simp add: and_then_def)

lemma and_then_Inr [simp, result_simps]: "and_then (Inr x) f = f x"
  by (simp add: and_then_def)

lemma and_then_eq_Inr [result_simps]:
  "and_then r f = Inr y \<longleftrightarrow> (\<exists>x. r = Inr x \<and> f x = Inr y)"
  by (cases r) auto

lemma and_then_eq_Inl [result_simps]:
  "and_then r f = Inl e \<longleftrightarrow> r = Inl e \<or> (\<exists>x. r = Inr x \<and> f x = Inl e)"
  by (cases r) auto

lemma sum_not_Inl: "(\<forall>e. r \<noteq> Inl e) \<longleftrightarrow> (\<exists>x. r = Inr x)"
  by (cases r) auto

subsection \<open>Byte readers\<close>

text \<open>
  A reader is the list of bytes that will still arrive before the stream ends.
  \<open>read_full\<close> is \<open>io.ReadFull\<close>: nothing read at the end is \<open>EOF\<close>, a short read is
  \<open>ErrUnexpectedEOF\<close>.
\<close>

definition read_full :: "nat \<Rightarrow> 'b list \<Rightarrow> ('b list \<times> 'b list) result" where
  "read_full n r =
     (if n \<le> length r then Inr (take n r, drop n r)
      else if r = [] then Inl EOF else Inl UnexpectedEOF)"

lemma read_full_append [simp, io_simps]: "read_full (length xs) (xs @ r) = Inr (xs, r)"
  by (simp add: read_full_def)

lemma read_full_append' [io_simps]: "n = length xs \<Longrightarrow> read_full n (xs @ r) = Inr (xs, r)"
  by simp

lemma read_full_InrD:
  "read_full n r = Inr (xs, r') \<Longrightarrow> r = xs @ r' \<and> length xs = n"
  by (auto simp: read_full_def split: if_splits)

subsection \<open>Connections\<close>

text \<open>
  A network connection: the bytes the peer will send, the bytes written so far and the number of
  \<open>Write\<close> calls that still succeed before the peer is gone.
\<close>

record conn =
  conn_in :: "byte list"
  conn_out :: "byte list"
  conn_writes :: nat

definition conn_write :: "conn \<Rightarrow> byte list \<Rightarrow> conn result" where
  "conn_write c bs =
     (case conn_writes c of
        0 \<Rightarrow> Inl (Errorf ''write: broken pipe'')
      | Suc k \<Rightarrow> Inr (c\<lparr>conn_out := conn_out c @ bs, conn_writes := k\<rparr>))"

lemma conn_write_InrD:
  "conn_write c bs = Inr c' \<Longrightarrow>
     conn_out c' = conn_out c @ bs \<and> conn_in c' = conn_in c \<and> conn_writes c = Suc (conn_writes c')"
  by (auto simp: conn_write_def split: nat.splits)

lemma conn_write_ok:
  "0 < conn_writes c \<Longrightarrow>
     conn_write c bs = Inr (c\<lparr>conn_out := conn_out c @ bs, conn_writes := conn_writes c - 1\<rparr>)"
  by (cases "conn_writes c") (auto simp: conn_write_def)

subsection \<open>Bytes and characters\<close>

definition byte_of_char :: "char \<Rightarrow> byte" where
  "byte_of_char c = word_of_nat (of_char c)"

definition char_of_byte :: "byte \<Rightarrow> char" where
  "char_of_byte b = char_of (unat b)"

lemma char_of_byte_of_char [simp]: "char_of_byte (byte_of_char c) = c"
proof -
  have "unat (byte_of_char c) = of_char c"
    by (simp add: byte_of_char_def unat_of_nat)
  then show ?thesis by (simp add: char_of_byte_def)
qed

lemma byte_of_char_of_byte [simp]: "byte_of_char (char_of_byte b) = b"
proof -
  have "unat b < 256" using unsigned_less [of b, where ?'a = nat] by simp
  then have "of_char (char_of (unat b)) = unat b" by simp
  then show ?thesis by (simp only: byte_of_char_def char_of_byte_def) simp
qed

text \<open>Go's conversions \<open>[]byte(s)\<close> and \<open>string(b)\<close>.\<close>

definition bytes_of :: "string \<Rightarrow> byte list" where
  "bytes_of s = map byte_of_char s"

definition string_of :: "byte list \<Rightarrow> string" where
  "string_of b = map char_of_byte b"

lemma string_of_bytes_of [simp]: "string_of (bytes_of s) = s"
  by (simp add: string_of_def bytes_of_def comp_def)

lemma bytes_of_string_of [simp]: "bytes_of (string_of b) = b"
  by (simp add: string_of_def bytes_of_def comp_def)

lemma length_bytes_of [simp]: "length (bytes_of s) = length s"
  by (simp add: bytes_of_def)

lemma length_string_of [simp]: "length (string_of b) = length b"
  by (simp add: string_of_def)

lemma bytes_of_eq_iff [simp]: "bytes_of s = bytes_of t \<longleftrightarrow> s = t"
  by (metis string_of_bytes_of)

lemma bytes_of_append [simp]: "bytes_of (s @ t) = bytes_of s @ bytes_of t"
  by (simp add: bytes_of_def)

lemma bytes_of_Nil [simp]: "bytes_of [] = []"
  by (simp add: bytes_of_def)

end
