(* ===== verification/Go_Strings.thy ===== *)
theory Go_Strings
  imports Prelude "HOL-Library.Char_ord" "HOL-Library.List_Lexorder"
begin

text \<open>
  The functions of Go's \<open>strings\<close>, \<open>strconv\<close>, \<open>sort\<close>, \<open>fmt\<close> and \<open>path/filepath\<close> packages
  that the program calls, on byte strings.

  \<open>strings.ToLower\<close>, \<open>strings.TrimSpace\<close> and \<open>strconv.Quote\<close> take their ASCII path whenever
  every byte is below 128; only for other strings do they consult Go's Unicode tables. The ASCII
  path is written out; the table-driven functions are the fields of the record \<open>unicode\<close>, an
  argument of every definition that can reach them.
\<close>

record unicode =
  uni_lower :: "string \<Rightarrow> string"
  uni_trim :: "string \<Rightarrow> string"
  uni_quote :: "string \<Rightarrow> string"

text \<open>A concrete choice, for examples on ASCII text.\<close>

definition sample_unicode :: unicode where
  "sample_unicode = \<lparr>uni_lower = (\<lambda>s. s), uni_trim = (\<lambda>s. s), uni_quote = (\<lambda>s. s)\<rparr>"

definition code_of :: "char \<Rightarrow> nat" where
  "code_of c = of_char c"

definition is_ascii :: "string \<Rightarrow> bool" where
  "is_ascii s = list_all (\<lambda>c. code_of c < 128) s"

lemma is_ascii_append [simp]: "is_ascii (s @ t) \<longleftrightarrow> is_ascii s \<and> is_ascii t"
  by (simp add: is_ascii_def)

lemma is_ascii_Cons [simp]: "is_ascii (c # s) \<longleftrightarrow> code_of c < 128 \<and> is_ascii s"
  by (simp add: is_ascii_def)

lemma is_ascii_Nil [simp]: "is_ascii []"
  by (simp add: is_ascii_def)

lemma is_ascii_subset: "set t \<subseteq> set s \<Longrightarrow> is_ascii s \<Longrightarrow> is_ascii t"
  by (auto simp: is_ascii_def list_all_iff)

subsection \<open>Case and white space\<close>

definition lower_char :: "char \<Rightarrow> char" where
  "lower_char c = (if 65 \<le> code_of c \<and> code_of c \<le> 90 then char_of (code_of c + 32) else c)"

definition ToLower :: "unicode \<Rightarrow> string \<Rightarrow> string" where
  "ToLower u s = (if is_ascii s then map lower_char s else uni_lower u s)"

definition is_space :: "char \<Rightarrow> bool" where
  "is_space c = (code_of c \<in> {9, 10, 11, 12, 13, 32})"

text \<open>\<open>trim_by p\<close> removes the bytes satisfying \<open>p\<close> at both ends.\<close>

definition trim_right_by :: "(char \<Rightarrow> bool) \<Rightarrow> string \<Rightarrow> string" where
  "trim_right_by p s = rev (dropWhile p (rev s))"

definition trim_by :: "(char \<Rightarrow> bool) \<Rightarrow> string \<Rightarrow> string" where
  "trim_by p s = trim_right_by p (dropWhile p s)"

definition TrimSpace :: "unicode \<Rightarrow> string \<Rightarrow> string" where
  "TrimSpace u s = (if is_ascii s then trim_by is_space s else uni_trim u s)"

text \<open>\<open>strings.Trim(s, cutset)\<close> for an ASCII cutset, and \<open>strings.TrimRight\<close>.\<close>

definition Trim :: "string \<Rightarrow> string \<Rightarrow> string" where
  "Trim s cutset = trim_by (\<lambda>c. c \<in> set cutset) s"

definition TrimRight :: "string \<Rightarrow> string \<Rightarrow> string" where
  "TrimRight s cutset = trim_right_by (\<lambda>c. c \<in> set cutset) s"

lemma set_trim_right_by: "set (trim_right_by p s) \<subseteq> set s"
  by (auto simp: trim_right_by_def dest: set_dropWhileD)

lemma set_trim_by: "set (trim_by p s) \<subseteq> set s"
  using set_trim_right_by [of p "dropWhile p s"] by (auto simp: trim_by_def dest: set_dropWhileD)

lemma trim_right_by_last: "trim_right_by p s \<noteq> [] \<Longrightarrow> \<not> p (last (trim_right_by p s))"
  by (simp add: trim_right_by_def last_rev hd_dropWhile)

lemma trim_right_by_id: "s = [] \<or> \<not> p (last s) \<Longrightarrow> trim_right_by p s = s"
  by (cases s rule: rev_cases) (auto simp: trim_right_by_def)

lemma trim_by_id: "s = [] \<or> \<not> p (hd s) \<and> \<not> p (last s) \<Longrightarrow> trim_by p s = s"
  by (cases s) (auto simp: trim_by_def trim_right_by_id)

lemma lower_char_eq_iff_not_upper: "lower_char c = c \<longleftrightarrow> \<not> (65 \<le> code_of c \<and> code_of c \<le> 90)"
proof -
  have "char_of (code_of c + 32) \<noteq> c" if "code_of c \<le> 90"
  proof
    assume "char_of (code_of c + 32) = c"
    then have "code_of (char_of (code_of c + 32)) = code_of c" by simp
    with that show False by (simp add: code_of_def)
  qed
  then show ?thesis by (auto simp: lower_char_def)
qed

lemma code_of_lower_char:
  "code_of (lower_char c) = (if 65 \<le> code_of c \<and> code_of c \<le> 90 then code_of c + 32 else code_of c)"
  by (auto simp: lower_char_def code_of_def)

lemma lower_char_idem [simp]: "lower_char (lower_char c) = lower_char c"
  by (auto simp: lower_char_eq_iff_not_upper code_of_lower_char)

lemma is_ascii_map_lower [simp]: "is_ascii (map lower_char s) \<longleftrightarrow> is_ascii s"
  by (auto simp: is_ascii_def list_all_iff code_of_lower_char)

subsection \<open>Prefixes, suffixes and substrings\<close>

definition HasPrefix :: "string \<Rightarrow> string \<Rightarrow> bool" where
  "HasPrefix s p = (length p \<le> length s \<and> take (length p) s = p)"

definition HasSuffix :: "string \<Rightarrow> string \<Rightarrow> bool" where
  "HasSuffix s p = (length p \<le> length s \<and> drop (length s - length p) s = p)"

definition TrimPrefix :: "string \<Rightarrow> string \<Rightarrow> string" where
  "TrimPrefix s p = (if HasPrefix s p then drop (length p) s else s)"

definition TrimSuffix :: "string \<Rightarrow> string \<Rightarrow> string" where
  "TrimSuffix s p = (if HasSuffix s p then take (length s - length p) s else s)"

lemma HasPrefix_iff: "HasPrefix s p \<longleftrightarrow> (\<exists>t. s = p @ t)"
  by (auto simp: HasPrefix_def intro: exI [of _ "drop (length p) s"])
     (metis append_take_drop_id)

lemma HasSuffix_iff: "HasSuffix s p \<longleftrightarrow> (\<exists>t. s = t @ p)"
  by (auto simp: HasSuffix_def) (metis append_take_drop_id)

lemma HasPrefix_append [simp]: "HasPrefix (p @ t) p"
  by (auto simp: HasPrefix_iff)

lemma HasSuffix_append [simp]: "HasSuffix (t @ p) p"
  by (auto simp: HasSuffix_iff)

lemma TrimSuffix_append [simp, str_simps]: "TrimSuffix (t @ p) p = t"
  by (simp add: TrimSuffix_def)

lemma TrimPrefix_append [simp, str_simps]: "TrimPrefix (p @ t) p = t"
  by (simp add: TrimPrefix_def)

lemma TrimSuffix_no: "\<not> HasSuffix s p \<Longrightarrow> TrimSuffix s p = s"
  by (simp add: TrimSuffix_def)

lemma set_TrimSuffix: "set (TrimSuffix s p) \<subseteq> set s"
  by (auto simp: TrimSuffix_def dest: in_set_takeD)

fun Contains :: "string \<Rightarrow> string \<Rightarrow> bool" where
  "Contains [] p = (p = [])"
| "Contains (c # s) p = (HasPrefix (c # s) p \<or> Contains s p)"

lemma Contains_iff: "Contains s p \<longleftrightarrow> (\<exists>a b. s = a @ p @ b)"
proof (induction s)
  case (Cons c s)
  show ?case
  proof
    assume "Contains (c # s) p"
    then consider b where "c # s = p @ b" | a b where "s = a @ p @ b"
      using Cons by (auto simp: HasPrefix_iff)
    then show "\<exists>a b. c # s = a @ p @ b"
    proof cases
      case (1 b)
      then have "c # s = [] @ p @ b" by simp
      then show ?thesis by blast
    next
      case (2 a b)
      then have "c # s = (c # a) @ p @ b" by simp
      then show ?thesis by blast
    qed
  next
    assume "\<exists>a b. c # s = a @ p @ b"
    then obtain a b where ab: "c # s = a @ p @ b" by blast
    show "Contains (c # s) p"
    proof (cases a)
      case Nil
      with ab have "HasPrefix (c # s) p" by simp
      then show ?thesis by simp
    next
      case a: (Cons x a')
      with ab have "s = a' @ p @ b" by simp
      then have "Contains s p" using Cons.IH by blast
      then show ?thesis by simp
    qed
  qed
qed auto

lemma Contains_char: "Contains s [c] \<longleftrightarrow> c \<in> set s"
  by (auto simp: Contains_iff dest: split_list)

text \<open>\<open>strings.LastIndex(s, ":")\<close>, with \<open>None\<close> for -1.\<close>

fun last_index :: "char \<Rightarrow> string \<Rightarrow> nat option" where
  "last_index c [] = None"
| "last_index c (x # xs) =
     (case last_index c xs of
        Some i \<Rightarrow> Some (Suc i)
      | None \<Rightarrow> if x = c then Some 0 else None)"

lemma last_index_None: "last_index c s = None \<longleftrightarrow> c \<notin> set s"
  by (induction s) (auto split: option.splits)

lemma last_index_append:
  "c \<notin> set t \<Longrightarrow> last_index c (s @ c # t) = Some (length s)"
proof (induction s)
  case Nil
  then have "last_index c t = None" by (simp add: last_index_None)
  then show ?case by simp
qed simp

subsection \<open>Splitting and joining\<close>

fun split_on :: "char \<Rightarrow> string \<Rightarrow> string list" where
  "split_on c [] = [[]]"
| "split_on c (x # xs) =
     (if x = c then [] # split_on c xs
      else (case split_on c xs of w # ws \<Rightarrow> (x # w) # ws | [] \<Rightarrow> [[x]]))"

fun Join :: "string list \<Rightarrow> string \<Rightarrow> string" where
  "Join [] sep = []"
| "Join [x] sep = x"
| "Join (x # y # ys) sep = x @ sep @ Join (y # ys) sep"

lemma split_on_not_Nil [simp]: "split_on c s \<noteq> []"
  by (induction s) (auto split: list.splits)

lemma Join_Cons: "Join (x # xs) sep = (if xs = [] then x else x @ sep @ Join xs sep)"
  by (cases xs) auto

lemma Join_split_on: "Join (split_on c s) [c] = s"
proof (induction s)
  case (Cons x s)
  obtain w ws where sp: "split_on c s = w # ws" by (cases "split_on c s") auto
  with Cons show ?case by (auto simp: Join_Cons split: if_splits)
qed simp

lemma split_on_no_sep: "w \<in> set (split_on c s) \<Longrightarrow> c \<notin> set w"
proof (induction s arbitrary: w)
  case (Cons x s)
  obtain v vs where sp: "split_on c s = v # vs" by (cases "split_on c s") auto
  with Cons show ?case by (auto split: if_splits)
qed simp

lemma split_on_append: "split_on c (s @ c # t) = split_on c s @ split_on c t"
proof (induction s)
  case (Cons x s)
  obtain v vs where sp: "split_on c s = v # vs" by (cases "split_on c s") auto
  with Cons show ?case by auto
qed simp

lemma split_on_single: "c \<notin> set s \<Longrightarrow> split_on c s = [s]"
  by (induction s) auto

lemma split_on_Join:
  "xs \<noteq> [] \<Longrightarrow> \<forall>x\<in>set xs. c \<notin> set x \<Longrightarrow> split_on c (Join xs [c]) = xs"
proof (induction xs)
  case (Cons x xs)
  then show ?case by (cases xs) (auto simp: Join_Cons split_on_single split_on_append)
qed simp

text \<open>\<open>strings.Cut(s, sep)\<close> for a one-byte separator, the part before it.\<close>

definition cut_before :: "char \<Rightarrow> string \<Rightarrow> string" where
  "cut_before c s = takeWhile (\<lambda>x. x \<noteq> c) s"

subsection \<open>Lines\<close>

abbreviation newline :: char where "newline \<equiv> CHR 0x0A"

text \<open>
  \<open>bufio.Scanner\<close> with \<open>ScanLines\<close> and a buffer of at most \<open>lim\<close> bytes: the lines without their line
  ends, and no last line when the text ends in a newline. A line of \<open>lim\<close> bytes or more stops the
  scan with an error.
\<close>

definition strip_cr :: "string \<Rightarrow> string" where
  "strip_cr l = (if l \<noteq> [] \<and> last l = CHR 0x0D then butlast l else l)"

definition raw_lines :: "string \<Rightarrow> string list" where
  "raw_lines s = (let ws = split_on newline s in if last ws = [] then butlast ws else ws)"

definition scan_lines :: "nat \<Rightarrow> string \<Rightarrow> string list \<times> go_error option" where
  "scan_lines lim s =
     (let ls = takeWhile (\<lambda>l. length l < lim) (raw_lines s)
      in (map strip_cr ls,
          if length ls < length (raw_lines s) then Some (Errorf ''bufio.Scanner: token too long'') else None))"

subsection \<open>Numbers\<close>

fun digits_rev :: "nat \<Rightarrow> string" where
  "digits_rev n = (if n < 10 then [char_of (48 + n)] else char_of (48 + n mod 10) # digits_rev (n div 10))"

declare digits_rev.simps [simp del]

definition nat_to_string :: "nat \<Rightarrow> string" where
  "nat_to_string n = rev (digits_rev n)"

text \<open>\<open>strconv.Itoa\<close> and \<open>strconv.FormatInt(i, 10)\<close>.\<close>

definition itoa :: "int \<Rightarrow> string" where
  "itoa i = (if i < 0 then ''-'' @ nat_to_string (nat (- i)) else nat_to_string (nat i))"

text \<open>\<open>fmt.Sprintf("%0wd", n)\<close> for an unsigned \<open>n\<close>.\<close>

definition pad_zeros :: "nat \<Rightarrow> nat \<Rightarrow> string" where
  "pad_zeros w n = (let d = nat_to_string n in replicate (w - length d) (CHR ''0'') @ d)"

definition digit_val :: "char \<Rightarrow> nat option" where
  "digit_val c = (if 48 \<le> code_of c \<and> code_of c \<le> 57 then Some (code_of c - 48) else None)"

fun parse_digits :: "nat \<Rightarrow> string \<Rightarrow> nat option" where
  "parse_digits acc [] = Some acc"
| "parse_digits acc (c # s) =
     (case digit_val c of None \<Rightarrow> None | Some d \<Rightarrow> parse_digits (10 * acc + d) s)"

text \<open>\<open>strconv.ParseUint(s, 10, bits)\<close>: digits only, and in range.\<close>

definition ParseUint :: "string \<Rightarrow> nat \<Rightarrow> nat option" where
  "ParseUint s bits =
     (if s = [] then None
      else case parse_digits 0 s of
        None \<Rightarrow> None
      | Some n \<Rightarrow> if n < 2 ^ bits then Some n else None)"

lemma code_of_char_of [simp]: "n < 256 \<Longrightarrow> code_of (char_of n) = n"
  by (simp add: code_of_def)

lemma digit_val_char_of [simp]: "d < 10 \<Longrightarrow> digit_val (char_of (48 + d)) = Some d"
  by (simp add: digit_val_def)

lemma parse_digits_append:
  "parse_digits acc (s @ t) = (case parse_digits acc s of None \<Rightarrow> None | Some a \<Rightarrow> parse_digits a t)"
  by (induction s arbitrary: acc) (auto split: option.splits)

lemma parse_digits_rev: "parse_digits 0 (rev (digits_rev n)) = Some n"
proof (induction n rule: digits_rev.induct)
  case (1 n)
  show ?case
  proof (cases "n < 10")
    case True
    then show ?thesis by (subst digits_rev.simps) simp
  next
    case False
    with 1 have "parse_digits 0 (rev (digits_rev (n div 10))) = Some (n div 10)" by blast
    with False show ?thesis
      by (subst digits_rev.simps) (simp add: parse_digits_append mod_less_divisor)
  qed
qed

lemma parse_nat_to_string [simp]: "parse_digits 0 (nat_to_string n) = Some n"
  by (simp add: nat_to_string_def parse_digits_rev)

lemma nat_to_string_inj [simp]: "nat_to_string m = nat_to_string n \<longleftrightarrow> m = n"
  by (metis option.inject parse_nat_to_string)

lemma digits_rev_not_Nil [simp]: "digits_rev n \<noteq> []"
  by (subst digits_rev.simps) simp

lemma nat_to_string_not_Nil [simp]: "nat_to_string n \<noteq> []"
  by (simp add: nat_to_string_def)

lemma ParseUint_nat_to_string: "n < 2 ^ bits \<Longrightarrow> ParseUint (nat_to_string n) bits = Some n"
  by (simp add: ParseUint_def)

lemma set_digits_rev: "c \<in> set (digits_rev n) \<Longrightarrow> 48 \<le> code_of c \<and> code_of c \<le> 57"
proof (induction n arbitrary: c rule: digits_rev.induct)
  case (1 n)
  show ?case
  proof (cases "n < 10")
    case True
    with 1(2) show ?thesis by (subst (asm) digits_rev.simps) auto
  next
    case False
    then have "c = char_of (48 + n mod 10) \<or> c \<in> set (digits_rev (n div 10))"
      using 1(2) by (subst (asm) digits_rev.simps) auto
    then show ?thesis
    proof
      assume c: "c = char_of (48 + n mod 10)"
      have "n mod 10 < 10" by simp
      then have "48 + n mod 10 < 256 \<and> n mod 10 \<le> 9" by linarith
      then show ?thesis unfolding c by simp
    qed (use 1(1) [OF False] in blast)
  qed
qed

lemma set_nat_to_string: "c \<in> set (nat_to_string n) \<Longrightarrow> 48 \<le> code_of c \<and> code_of c \<le> 57"
  by (simp add: nat_to_string_def set_digits_rev)

lemma parse_digits_zeros: "parse_digits 0 (replicate k (CHR ''0'') @ s) = parse_digits 0 s"
proof (induction k)
  case (Suc k)
  have "digit_val (CHR ''0'') = Some 0" by (simp add: digit_val_def code_of_def)
  with Suc show ?case by simp
qed simp

lemma parse_pad_zeros: "parse_digits 0 (pad_zeros w n) = Some n"
  by (simp add: pad_zeros_def Let_def parse_digits_zeros)

lemma pad_zeros_inj [simp]: "pad_zeros w m = pad_zeros w n \<longleftrightarrow> m = n"
  by (metis option.inject parse_pad_zeros)

lemma set_pad_zeros: "c \<in> set (pad_zeros w n) \<Longrightarrow> 48 \<le> code_of c \<and> code_of c \<le> 57"
  using set_nat_to_string [of c n] by (auto simp: pad_zeros_def Let_def code_of_def)

text \<open>\<open>strconv.Quote\<close> (the verb \<open>%q\<close>): printable ASCII stays, the rest is escaped.\<close>

definition hex_digit :: "nat \<Rightarrow> char" where
  "hex_digit d = (if d < 10 then char_of (48 + d) else char_of (87 + d))"

definition quote_char :: "char \<Rightarrow> string" where
  "quote_char c =
     (let n = code_of c in
      if n = 34 then [char_of (92::nat), char_of (34::nat)]
      else if n = 92 then [char_of (92::nat), char_of (92::nat)]
      else if 32 \<le> n \<and> n < 127 then [c]
      else if n = 7 then char_of (92::nat) # ''a''
      else if n = 8 then char_of (92::nat) # ''b''
      else if n = 9 then char_of (92::nat) # ''t''
      else if n = 10 then char_of (92::nat) # ''n''
      else if n = 11 then char_of (92::nat) # ''v''
      else if n = 12 then char_of (92::nat) # ''f''
      else if n = 13 then char_of (92::nat) # ''r''
      else char_of (92::nat) # CHR ''x'' # [hex_digit (n div 16), hex_digit (n mod 16)])"

definition Quote :: "unicode \<Rightarrow> string \<Rightarrow> string" where
  "Quote u s =
     (if is_ascii s then char_of (34::nat) # concat (map quote_char s) @ [char_of (34::nat)]
      else uni_quote u s)"

subsection \<open>Zero-padded numbers sort numerically\<close>

definition all_digits :: "string \<Rightarrow> bool" where
  "all_digits s = list_all (\<lambda>c. 48 \<le> code_of c \<and> code_of c \<le> 57) s"

lemma parse_digits_bounds:
  "all_digits s \<Longrightarrow> \<exists>v. parse_digits a s = Some (a * 10 ^ length s + v) \<and> v < 10 ^ length s"
proof (induction s arbitrary: a)
  case (Cons c s)
  let ?d = "code_of c - 48"
  have d: "digit_val c = Some ?d" "?d \<le> 9" "all_digits s"
    using Cons.prems by (auto simp: all_digits_def digit_val_def)
  obtain v where v: "parse_digits (10 * a + ?d) s = Some ((10 * a + ?d) * 10 ^ length s + v)" "v < 10 ^ length s"
    using Cons.IH [OF d(3)] by blast
  have "(10 * a + ?d) * 10 ^ length s + v = a * 10 ^ length (c # s) + (?d * 10 ^ length s + v)"
    by (simp add: algebra_simps)
  moreover have "?d * 10 ^ length s + v < 10 ^ length (c # s)"
  proof -
    have "?d * 10 ^ length s \<le> 9 * 10 ^ length s" using d(2) by (rule mult_le_mono1)
    with v(2) have "?d * 10 ^ length s + v < 9 * 10 ^ length s + 10 ^ length s" by linarith
    also have "\<dots> = 10 ^ length (c # s)" by simp
    finally show ?thesis .
  qed
  ultimately show ?case using v(1) d(1) by (intro exI [of _ "?d * 10 ^ length s + v"]) simp
qed simp

lemma digits_less:
  assumes "length s = length t" "all_digits s" "all_digits t" "s < t"
    "parse_digits a s = Some m" "parse_digits a t = Some n"
  shows "m < n"
  using assms
proof (induction s t arbitrary: a rule: list_induct2)
  case (Cons c s d t)
  let ?c = "code_of c - 48" and ?d = "code_of d - 48"
  have cd: "digit_val c = Some ?c" "digit_val d = Some ?d" "48 \<le> code_of c" "48 \<le> code_of d"
    and ds: "all_digits s" "all_digits t"
    using Cons.prems(1,2) by (simp_all add: all_digits_def digit_val_def)
  show ?case
  proof (cases "c = d")
    case True
    then show ?thesis using Cons.IH [of "10 * a + ?c"] Cons.prems ds cd by simp
  next
    case False
    then have "c < d" using Cons.prems(3) by simp
    then have "code_of c < code_of d" by (simp add: less_char_def code_of_def)
    then have lt: "?c + 1 \<le> ?d" using cd(3) by linarith
    obtain v where v: "m = (10 * a + ?c) * 10 ^ length s + v" "v < 10 ^ length s"
      using parse_digits_bounds [OF ds(1), of "10 * a + ?c"] Cons.prems(4) cd(1) by auto
    obtain x where x: "n = (10 * a + ?d) * 10 ^ length t + x"
      using parse_digits_bounds [OF ds(2), of "10 * a + ?d"] Cons.prems(5) cd(2) by auto
    have "m < (10 * a + ?c + 1) * 10 ^ length s" using v by simp
    also have "\<dots> \<le> (10 * a + ?d) * 10 ^ length s" using lt by (intro mult_le_mono1) simp
    finally show ?thesis using x Cons.hyps by simp
  qed
qed simp

lemma length_digits_rev: "0 < w \<Longrightarrow> n < 10 ^ w \<Longrightarrow> length (digits_rev n) \<le> w"
proof (induction n arbitrary: w rule: digits_rev.induct)
  case (1 n)
  show ?case
  proof (cases "n < 10")
    case True
    then show ?thesis using 1(2) by (subst digits_rev.simps) simp
  next
    case False
    then obtain w' where w: "w = Suc w'" "0 < w'" using 1(2,3) by (cases w; cases "w - 1") auto
    then have "n div 10 < 10 ^ w'" using 1(3) by (simp add: less_mult_imp_div_less mult.commute)
    then show ?thesis using 1(1) [OF False w(2)] w(1) False by (subst digits_rev.simps) simp
  qed
qed

lemma length_pad_zeros: "0 < w \<Longrightarrow> n < 10 ^ w \<Longrightarrow> length (pad_zeros w n) = w"
  using length_digits_rev [of w n] by (simp add: pad_zeros_def nat_to_string_def Let_def)

lemma pad_zeros_less:
  assumes "0 < w" "m < 10 ^ w" "n < 10 ^ w"
  shows "pad_zeros w m @ t < pad_zeros w n @ t \<longleftrightarrow> m < n"
proof -
  have d: "all_digits (pad_zeros w k)" for k
    unfolding all_digits_def list_all_iff using set_pad_zeros by blast
  have less: "k < l" if "pad_zeros w k < pad_zeros w l" "k < 10 ^ w" "l < 10 ^ w" for k l
    using digits_less [OF _ d d that(1), of 0] parse_pad_zeros length_pad_zeros [OF assms(1)] that(2,3) by simp
  have app: "pad_zeros w k @ t < pad_zeros w l @ t \<longleftrightarrow> pad_zeros w k < pad_zeros w l"
    if "k < 10 ^ w" "l < 10 ^ w" for k l
  proof -
    have "x @ t < y @ t \<longleftrightarrow> x < y" if "length x = length y" for x y
      using that by (induction x y rule: list_induct2) auto
    then show ?thesis using length_pad_zeros [OF assms(1)] that by simp
  qed
  have "pad_zeros w m < pad_zeros w n" if "m < n"
    using less [of n m] that assms(2,3) by (metis less_asym linorder_neqE pad_zeros_inj)
  then show ?thesis using app less assms(2,3) by blast
qed

end
