(* ===== verification/Go_Json.thy ===== *)
theory Go_Json
  imports Go_Strings
begin

text \<open>
  Go's \<open>encoding/json\<close>, as far as the program uses it: JSON values, \<open>json.Marshal\<close> with its
  string escaping (HTML-unsafe characters, control characters, U+2028 and U+2029, and the
  replacement of invalid UTF-8), and \<open>json.MarshalIndent(v, "", "  ")\<close>.

  An object is the list of its members in the order they are written: struct fields in
  declaration order, map keys sorted. \<open>JFrac\<close> keeps the text of a number that is not an integer.
\<close>

datatype json =
    JNull
  | JBool bool
  | JNum int
  | JFrac string
  | JStr string
  | JArr "json list"
  | JObj "(string \<times> json) list"

abbreviation backslash :: char where "backslash \<equiv> CHR 0x5C"
abbreviation dquote :: char where "dquote \<equiv> CHR 0x22"

subsection \<open>UTF-8 and string escaping\<close>

definition in_range :: "nat \<Rightarrow> nat \<Rightarrow> char \<Rightarrow> bool" where
  "in_range lo hi c = (lo \<le> code_of c \<and> code_of c \<le> hi)"

abbreviation cont :: "char \<Rightarrow> bool" where "cont \<equiv> in_range 0x80 0xBF"

text \<open>
  \<open>utf8.DecodeRuneInString\<close> at a byte of 128 or more: the number of bytes of the rune, or
  \<open>None\<close> for \<open>RuneError\<close> of width 1.
\<close>

fun utf8_len :: "string \<Rightarrow> nat option" where
  "utf8_len (a # b # rest) =
     (if in_range 0xC2 0xDF a then (if cont b then Some 2 else None)
      else (case rest of
        [] \<Rightarrow> None
      | c # rest' \<Rightarrow>
          if code_of a = 0xE0 then (if in_range 0xA0 0xBF b \<and> cont c then Some 3 else None)
          else if code_of a = 0xED then (if in_range 0x80 0x9F b \<and> cont c then Some 3 else None)
          else if in_range 0xE1 0xEF a then (if cont b \<and> cont c then Some 3 else None)
          else (case rest' of
            [] \<Rightarrow> None
          | d # _ \<Rightarrow>
              if code_of a = 0xF0 then
                (if in_range 0x90 0xBF b \<and> cont c \<and> cont d then Some 4 else None)
              else if code_of a = 0xF4 then
                (if in_range 0x80 0x8F b \<and> cont c \<and> cont d then Some 4 else None)
              else if in_range 0xF1 0xF3 a then
                (if cont b \<and> cont c \<and> cont d then Some 4 else None)
              else None)))"
| "utf8_len _ = None"

lemma utf8_len_bounds: "utf8_len s = Some n \<Longrightarrow> 2 \<le> n \<and> n \<le> length s"
  by (induction s rule: utf8_len.induct) (auto split: if_splits list.splits)

definition escape_ascii :: "char \<Rightarrow> string" where
  "escape_ascii c =
     (let n = code_of c in
      if n = 0x22 \<or> n = 0x5C then [backslash, c]
      else if n = 8 then [backslash, CHR ''b'']
      else if n = 12 then [backslash, CHR ''f'']
      else if n = 10 then [backslash, CHR ''n'']
      else if n = 13 then [backslash, CHR ''r'']
      else if n = 9 then [backslash, CHR ''t'']
      else if n < 32 \<or> n = 0x3C \<or> n = 0x3E \<or> n = 0x26
        then backslash # ''u00'' @ [hex_digit (n div 16), hex_digit (n mod 16)]
      else [c])"

function json_escape :: "string \<Rightarrow> string" where
  "json_escape [] = []"
| "json_escape (c # s) =
     (if code_of c < 128 then escape_ascii c @ json_escape s
      else (case utf8_len (c # s) of
        None \<Rightarrow> (backslash # ''ufffd'') @ json_escape s
      | Some n \<Rightarrow>
          (if take 3 (c # s) = [CHR 0xE2, CHR 0x80, CHR 0xA8] then backslash # ''u2028''
           else if take 3 (c # s) = [CHR 0xE2, CHR 0x80, CHR 0xA9] then backslash # ''u2029''
           else take n (c # s)) @ json_escape (drop n (c # s))))"
  by pat_completeness auto
termination
  by (relation "measure length") (auto dest: utf8_len_bounds)

definition json_quote :: "string \<Rightarrow> string" where
  "json_quote s = dquote # json_escape s @ [dquote]"

subsection \<open>Marshal and MarshalIndent\<close>

fun marshal :: "json \<Rightarrow> string" where
  "marshal JNull = ''null''"
| "marshal (JBool b) = (if b then ''true'' else ''false'')"
| "marshal (JNum i) = itoa i"
| "marshal (JFrac t) = t"
| "marshal (JStr s) = json_quote s"
| "marshal (JArr vs) = ''['' @ Join (map marshal vs) '','' @ '']''"
| "marshal (JObj kvs) =
     ''{'' @ Join (map (\<lambda>(k, v). json_quote k @ '':'' @ marshal v) kvs) '','' @ ''}''"

definition newline_indent :: "nat \<Rightarrow> string" where
  "newline_indent n = CHR 0x0A # replicate (2 * n) (CHR '' '')"

fun marshal_indent :: "nat \<Rightarrow> json \<Rightarrow> string" where
  "marshal_indent n (JArr vs) =
     (if vs = [] then ''[]''
      else ''['' @ newline_indent (Suc n)
           @ Join (map (marshal_indent (Suc n)) vs) ('','' @ newline_indent (Suc n))
           @ newline_indent n @ '']'')"
| "marshal_indent n (JObj kvs) =
     (if kvs = [] then ''{}''
      else ''{'' @ newline_indent (Suc n)
           @ Join (map (\<lambda>(k, v). json_quote k @ '': '' @ marshal_indent (Suc n) v) kvs)
               ('','' @ newline_indent (Suc n))
           @ newline_indent n @ ''}'')"
| "marshal_indent n v = marshal v"

text \<open>\<open>json.MarshalIndent(v, "", "  ")\<close>.\<close>

definition MarshalIndent :: "json \<Rightarrow> string" where
  "MarshalIndent v = marshal_indent 0 v"

end
