(* ===== verification/Json_Parse.thy ===== *)
theory Json_Parse
  imports Go_Json "HOL-Library.AList"
begin

text \<open>
  Reading JSON as Go's \<open>json.Unmarshal\<close> and \<open>json.Decoder.Decode\<close> do: a recursive-descent parser
  for the grammar Go's scanner accepts, string unquoting with surrogate pairs and the replacement
  of invalid UTF-8, and the assignment of object members to struct fields (exact name first, then
  case-insensitively, the last member winning, \<open>null\<close> changing nothing).

  The parser is structurally recursive on fuel; \<open>parse_json\<close> gives it \<open>2 * length s + 2\<close>, and
  \<open>pvalue_fuel\<close> shows that this is enough: more fuel never changes the result. The main
  theorem is that every text \<open>marshal\<close> or \<open>marshal_indent\<close> prints is read back as the value it
  was printed from.
\<close>

subsection \<open>Lexical level\<close>

definition json_ws :: "char \<Rightarrow> bool" where
  "json_ws c = (code_of c \<in> {32, 9, 10, 13})"

definition skip_ws :: "string \<Rightarrow> string" where
  "skip_ws s = dropWhile json_ws s"

definition hex_val :: "char \<Rightarrow> nat option" where
  "hex_val c =
     (let n = code_of c in
      if 48 \<le> n \<and> n \<le> 57 then Some (n - 48)
      else if 97 \<le> n \<and> n \<le> 102 then Some (n - 87)
      else if 65 \<le> n \<and> n \<le> 70 then Some (n - 55)
      else None)"

fun hex4 :: "string \<Rightarrow> (nat \<times> string) option" where
  "hex4 (a # b # c # d # s) =
     (case (hex_val a, hex_val b, hex_val c, hex_val d) of
        (Some w, Some x, Some y, Some z) \<Rightarrow> Some (4096 * w + 256 * x + 16 * y + z, s)
      | _ \<Rightarrow> None)"
| "hex4 _ = None"

definition replacement :: string where
  "replacement = [CHR 0xEF, CHR 0xBF, CHR 0xBD]"

text \<open>\<open>utf8.AppendRune\<close>.\<close>

definition encode_rune :: "nat \<Rightarrow> string" where
  "encode_rune r =
     (if r < 0x80 then [char_of r]
      else if r < 0x800 then [char_of (0xC0 + r div 64), char_of (0x80 + r mod 64)]
      else if 0xD800 \<le> r \<and> r < 0xE000 then replacement
      else if r < 0x10000 then
        [char_of (0xE0 + r div 4096), char_of (0x80 + (r div 64) mod 64), char_of (0x80 + r mod 64)]
      else if r < 0x110000 then
        [char_of (0xF0 + r div 262144), char_of (0x80 + (r div 4096) mod 64),
         char_of (0x80 + (r div 64) mod 64), char_of (0x80 + r mod 64)]
      else replacement)"

definition simple_escape :: "char \<Rightarrow> char option" where
  "simple_escape e =
     (if e = dquote \<or> e = backslash \<or> e = CHR ''/'' then Some e
      else if e = CHR ''b'' then Some (CHR 0x08)
      else if e = CHR ''f'' then Some (CHR 0x0C)
      else if e = CHR ''n'' then Some (CHR 0x0A)
      else if e = CHR ''r'' then Some (CHR 0x0D)
      else if e = CHR ''t'' then Some (CHR 0x09)
      else None)"

definition prepend :: "string \<Rightarrow> (string \<times> string) option \<Rightarrow> (string \<times> string) option" where
  "prepend x r = map_option (\<lambda>(t, rest). (x @ t, rest)) r"

text \<open>
  The second half of a surrogate pair: the rune of the pair and the text after it, when \<open>r\<close> is a
  high surrogate and an escaped low surrogate follows.
\<close>

definition low_surrogate :: "nat \<Rightarrow> string \<Rightarrow> (nat \<times> string) option" where
  "low_surrogate r s =
     (case s of
        a # b # s' \<Rightarrow>
          if a = backslash \<and> b = CHR ''u'' then
            (case hex4 s' of
               Some (r2, s'') \<Rightarrow>
                 if 0xD800 \<le> r \<and> r < 0xDC00 \<and> 0xDC00 \<le> r2 \<and> r2 < 0xE000
                 then Some (0x10000 + (r - 0xD800) * 1024 + (r2 - 0xDC00), s'') else None
             | None \<Rightarrow> None)
          else None
      | _ \<Rightarrow> None)"

lemma hex4_length: "hex4 s = Some (r, s') \<Longrightarrow> length s' < length s"
  by (induction s rule: hex4.induct) (auto split: option.splits)

lemma low_surrogate_length: "low_surrogate r s = Some (r', s') \<Longrightarrow> length s' < length s"
  by (auto simp: low_surrogate_def split: list.splits if_splits option.splits dest: hex4_length)

text \<open>\<open>pstring\<close> reads the rest of a string after its opening quote.\<close>

function pstring :: "string \<Rightarrow> (string \<times> string) option" where
  "pstring [] = None"
| "pstring (c # s) =
     (if c = dquote then Some ([], s)
      else if c = backslash then
        (case s of
           [] \<Rightarrow> None
         | e # s' \<Rightarrow>
             if e = CHR ''u'' then
               (case hex4 s' of
                  None \<Rightarrow> None
                | Some (r, s'') \<Rightarrow>
                    if 0xD800 \<le> r \<and> r < 0xE000 then
                      (case low_surrogate r s'' of
                         Some (r', s3) \<Rightarrow> prepend (encode_rune r') (pstring s3)
                       | None \<Rightarrow> prepend replacement (pstring s''))
                    else prepend (encode_rune r) (pstring s''))
             else (case simple_escape e of
                     None \<Rightarrow> None
                   | Some x \<Rightarrow> prepend [x] (pstring s')))
      else if code_of c < 32 then None
      else if code_of c < 128 then prepend [c] (pstring s)
      else (case utf8_len (c # s) of
              None \<Rightarrow> prepend replacement (pstring s)
            | Some n \<Rightarrow> prepend (take n (c # s)) (pstring (drop n (c # s)))))"
  by pat_completeness auto
termination
  by (relation "measure length") (auto dest!: hex4_length low_surrogate_length utf8_len_bounds)

declare pstring.simps(2) [simp del]

subsection \<open>Numbers\<close>

definition is_digit :: "char \<Rightarrow> bool" where
  "is_digit c = (48 \<le> code_of c \<and> code_of c \<le> 57)"

text \<open>The fraction and exponent parts: their text and what follows, or \<open>None\<close> if malformed.\<close>

definition pfrac :: "string \<Rightarrow> (string \<times> string) option" where
  "pfrac s =
     (case s of
        c # r \<Rightarrow>
          if c = CHR ''.'' then
            (if takeWhile is_digit r = [] then None
             else Some (c # takeWhile is_digit r, dropWhile is_digit r))
          else Some ([], s)
      | [] \<Rightarrow> Some ([], s))"

definition pexp :: "string \<Rightarrow> (string \<times> string) option" where
  "pexp s =
     (case s of
        c # r \<Rightarrow>
          if c = CHR ''e'' \<or> c = CHR ''E'' then
            (let sg = (case r of x # _ \<Rightarrow> if x = CHR ''+'' \<or> x = CHR ''-'' then [x] else [] | [] \<Rightarrow> []);
                 d = drop (length sg) r
             in if takeWhile is_digit d = [] then None
                else Some (c # sg @ takeWhile is_digit d, dropWhile is_digit d))
          else Some ([], s)
      | [] \<Rightarrow> Some ([], s))"

definition pnumber :: "string \<Rightarrow> (json \<times> string) option" where
  "pnumber s =
     (let neg = (case s of c # _ \<Rightarrow> c = CHR ''-'' | [] \<Rightarrow> False);
          s1 = (if neg then tl s else s);
          ds = takeWhile is_digit s1; r1 = dropWhile is_digit s1
      in if ds = [] \<or> (hd ds = CHR ''0'' \<and> tl ds \<noteq> []) then None
         else (case pfrac r1 of
                 None \<Rightarrow> None
               | Some (f, r2) \<Rightarrow>
                   (case pexp r2 of
                      None \<Rightarrow> None
                    | Some (e, r3) \<Rightarrow>
                        if f = [] \<and> e = [] then
                          (case parse_digits 0 ds of
                             None \<Rightarrow> None
                           | Some n \<Rightarrow> Some (JNum (if neg then - int n else int n), r3))
                        else Some (JFrac ((if neg then ''-'' else []) @ ds @ f @ e), r3))))"

subsection \<open>Values\<close>

definition pliteral :: "string \<Rightarrow> json \<Rightarrow> string \<Rightarrow> (json \<times> string) option" where
  "pliteral t v s = (if HasPrefix s t then Some (v, drop (length t) s) else None)"

fun pvalue :: "nat \<Rightarrow> string \<Rightarrow> (json \<times> string) option"
  and pelems :: "nat \<Rightarrow> string \<Rightarrow> (json list \<times> string) option"
  and pmembers :: "nat \<Rightarrow> string \<Rightarrow> ((string \<times> json) list \<times> string) option" where
  "pvalue 0 s = None"
| "pvalue (Suc n) s =
     (case skip_ws s of
        [] \<Rightarrow> None
      | c # r \<Rightarrow>
          if c = CHR ''{'' then
            (case skip_ws r of
               [] \<Rightarrow> None
             | d # r' \<Rightarrow>
                 if d = CHR ''}'' then Some (JObj [], r')
                 else map_option (\<lambda>(kvs, rest). (JObj kvs, rest)) (pmembers n r))
          else if c = CHR ''['' then
            (case skip_ws r of
               [] \<Rightarrow> None
             | d # r' \<Rightarrow>
                 if d = CHR '']'' then Some (JArr [], r')
                 else map_option (\<lambda>(vs, rest). (JArr vs, rest)) (pelems n r))
          else if c = dquote then map_option (\<lambda>(t, rest). (JStr t, rest)) (pstring r)
          else if c = CHR ''t'' then pliteral ''true'' (JBool True) (c # r)
          else if c = CHR ''f'' then pliteral ''false'' (JBool False) (c # r)
          else if c = CHR ''n'' then pliteral ''null'' JNull (c # r)
          else pnumber (c # r))"
| "pelems 0 s = None"
| "pelems (Suc n) s =
     (case pvalue n s of
        None \<Rightarrow> None
      | Some (v, r) \<Rightarrow>
          (case skip_ws r of
             [] \<Rightarrow> None
           | d # r' \<Rightarrow>
               if d = CHR '','' then map_option (\<lambda>(vs, rest). (v # vs, rest)) (pelems n r')
               else if d = CHR '']'' then Some ([v], r') else None))"
| "pmembers 0 s = None"
| "pmembers (Suc n) s =
     (case skip_ws s of
        [] \<Rightarrow> None
      | c # r \<Rightarrow>
          if c \<noteq> dquote then None
          else (case pstring r of
            None \<Rightarrow> None
          | Some (k, r1) \<Rightarrow>
              (case skip_ws r1 of
                 [] \<Rightarrow> None
               | d # r2 \<Rightarrow>
                   if d \<noteq> CHR '':'' then None
                   else (case pvalue n r2 of
                     None \<Rightarrow> None
                   | Some (v, r3) \<Rightarrow>
                       (case skip_ws r3 of
                          [] \<Rightarrow> None
                        | e # r4 \<Rightarrow>
                            if e = CHR '','' then
                              map_option (\<lambda>(kvs, rest). ((k, v) # kvs, rest)) (pmembers n r4)
                            else if e = CHR ''}'' then Some ([(k, v)], r4) else None)))))"

definition parse_json :: "string \<Rightarrow> (json \<times> string) option" where
  "parse_json s = pvalue (2 * length s + 2) s"

text \<open>\<open>json.Unmarshal\<close>: one value and nothing but white space after it.\<close>

definition unmarshal :: "string \<Rightarrow> json option" where
  "unmarshal s =
     (case parse_json s of
        None \<Rightarrow> None
      | Some (v, rest) \<Rightarrow> if skip_ws rest = [] then Some v else None)"

subsection \<open>Struct fields\<close>

text \<open>
  \<open>foldName\<close>: the two code points beyond ASCII that fold to an ASCII letter are the long s and
  the Kelvin sign.
\<close>

definition upper_char :: "char \<Rightarrow> char" where
  "upper_char c = (if 97 \<le> code_of c \<and> code_of c \<le> 122 then char_of (code_of c - 32) else c)"

fun fold_name :: "string \<Rightarrow> string" where
  "fold_name [] = []"
| "fold_name (a # s) =
     (if a = CHR 0xC5 \<and> take 1 s = [CHR 0xBF] then CHR ''S'' # fold_name (drop 1 s)
      else if a = CHR 0xE2 \<and> take 2 s = [CHR 0x84, CHR 0xAA] then CHR ''K'' # fold_name (drop 2 s)
      else upper_char a # fold_name s)"

type_synonym 'a setter = "json \<Rightarrow> 'a \<Rightarrow> 'a result"

definition find_field :: "(string \<times> 'a setter) list \<Rightarrow> string \<Rightarrow> 'a setter option" where
  "find_field fs k =
     (case map_of fs k of
        Some f \<Rightarrow> Some f
      | None \<Rightarrow> map_of (map (\<lambda>(n, f). (fold_name n, f)) fs) (fold_name k))"

fun set_members :: "(string \<times> 'a setter) list \<Rightarrow> (string \<times> json) list \<Rightarrow> 'a \<Rightarrow> 'a result" where
  "set_members fs [] x = Inr x"
| "set_members fs ((k, v) # kvs) x =
     (case find_field fs k of
        None \<Rightarrow> set_members fs kvs x
      | Some f \<Rightarrow> and_then (f v x) (set_members fs kvs))"

definition type_error :: go_error where
  "type_error = Errorf ''json: cannot unmarshal value into Go value''"

definition decode_struct :: "(string \<times> 'a setter) list \<Rightarrow> 'a setter" where
  "decode_struct fs j x =
     (case j of JNull \<Rightarrow> Inr x | JObj kvs \<Rightarrow> set_members fs kvs x | _ \<Rightarrow> Inl type_error)"

definition set_string :: "(string \<Rightarrow> 'a \<Rightarrow> 'a) \<Rightarrow> 'a setter" where
  "set_string upd j x = (case j of JStr s \<Rightarrow> Inr (upd s x) | JNull \<Rightarrow> Inr x | _ \<Rightarrow> Inl type_error)"

definition set_bool :: "(bool \<Rightarrow> 'a \<Rightarrow> 'a) \<Rightarrow> 'a setter" where
  "set_bool upd j x = (case j of JBool b \<Rightarrow> Inr (upd b x) | JNull \<Rightarrow> Inr x | _ \<Rightarrow> Inl type_error)"

definition set_int :: "(int \<Rightarrow> 'a \<Rightarrow> 'a) \<Rightarrow> 'a setter" where
  "set_int upd j x =
     (case j of
        JNum i \<Rightarrow> if - (2 ^ 63) \<le> i \<and> i < 2 ^ 63 then Inr (upd i x) else Inl type_error
      | JNull \<Rightarrow> Inr x
      | _ \<Rightarrow> Inl type_error)"

definition set_uint64 :: "(uint64 \<Rightarrow> 'a \<Rightarrow> 'a) \<Rightarrow> 'a setter" where
  "set_uint64 upd j x =
     (case j of
        JNum i \<Rightarrow> if 0 \<le> i \<and> i < 2 ^ 64 then Inr (upd (word_of_int i) x) else Inl type_error
      | JNull \<Rightarrow> Inr x
      | _ \<Rightarrow> Inl type_error)"

text \<open>
  A slice field: every element is decoded into the element already there (a key that occurs
  twice), or into the zero value; \<open>null\<close> makes the slice nil. A map field keeps its entries, and
  every member is decoded into the zero value.
\<close>

fun decode_elems :: "'e setter \<Rightarrow> 'e \<Rightarrow> 'e list \<Rightarrow> json list \<Rightarrow> 'e list result" where
  "decode_elems dec z old [] = Inr []"
| "decode_elems dec z old (j # js) =
     and_then (dec j (case old of [] \<Rightarrow> z | x # _ \<Rightarrow> x)) (\<lambda>x.
       and_then (decode_elems dec z (tl old) js) (\<lambda>xs. Inr (x # xs)))"

definition set_list :: "'e setter \<Rightarrow> 'e \<Rightarrow> ('a \<Rightarrow> 'e list) \<Rightarrow> ('e list \<Rightarrow> 'a \<Rightarrow> 'a) \<Rightarrow> 'a setter" where
  "set_list dec z get upd j x =
     (case j of
        JArr vs \<Rightarrow> and_then (decode_elems dec z (get x) vs) (\<lambda>xs. Inr (upd xs x))
      | JNull \<Rightarrow> Inr (upd [] x)
      | _ \<Rightarrow> Inl type_error)"

fun decode_entries :: "'e setter \<Rightarrow> 'e \<Rightarrow> (string \<times> json) list \<Rightarrow> (string \<times> 'e) list \<Rightarrow> (string \<times> 'e) list result" where
  "decode_entries dec z [] m = Inr m"
| "decode_entries dec z ((k, j) # kvs) m =
     and_then (dec j z) (\<lambda>x. decode_entries dec z kvs (AList.update k x m))"

definition set_map ::
    "'e setter \<Rightarrow> 'e \<Rightarrow> ('a \<Rightarrow> (string \<times> 'e) list) \<Rightarrow> ((string \<times> 'e) list \<Rightarrow> 'a \<Rightarrow> 'a) \<Rightarrow> 'a setter" where
  "set_map dec z get upd j x =
     (case j of
        JObj kvs \<Rightarrow> and_then (decode_entries dec z kvs (get x)) (\<lambda>m. Inr (upd m x))
      | JNull \<Rightarrow> Inr (upd [] x)
      | _ \<Rightarrow> Inl type_error)"

text \<open>A string as the element of a slice or map.\<close>

definition string_value :: "string setter" where
  "string_value = set_string (\<lambda>s _. s)"

definition json_syntax_error :: go_error where
  "json_syntax_error = Errorf ''invalid character in JSON''"

text \<open>\<open>json.NewDecoder(r).Decode\<close>: the first value of the stream; what follows stays unread.\<close>

definition decode_first :: "'a setter \<Rightarrow> string \<Rightarrow> 'a \<Rightarrow> 'a result" where
  "decode_first dec s x =
     (if skip_ws s = [] then Inl EOF
      else case parse_json s of
        None \<Rightarrow> Inl json_syntax_error
      | Some (j, _) \<Rightarrow> dec j x)"


subsection \<open>Strings read back\<close>

function valid_utf8 :: "string \<Rightarrow> bool" where
  "valid_utf8 [] = True"
| "valid_utf8 (c # s) =
     (if code_of c < 128 then valid_utf8 s
      else (case utf8_len (c # s) of None \<Rightarrow> False | Some n \<Rightarrow> valid_utf8 (drop n (c # s))))"
  by pat_completeness auto
termination
  by (relation "measure length") (auto dest!: utf8_len_bounds)

text \<open>What is left of a string that was marshalled: an invalid byte comes back as U+FFFD.\<close>

function sanitize :: "string \<Rightarrow> string" where
  "sanitize [] = []"
| "sanitize (c # s) =
     (if code_of c < 128 then c # sanitize s
      else (case utf8_len (c # s) of
        None \<Rightarrow> replacement @ sanitize s
      | Some n \<Rightarrow> take n (c # s) @ sanitize (drop n (c # s))))"
  by pat_completeness auto
termination
  by (relation "measure length") (auto dest: utf8_len_bounds)

lemma sanitize_valid: "valid_utf8 s \<Longrightarrow> sanitize s = s"
proof (induction s rule: valid_utf8.induct)
  case (2 c s)
  then show ?case
    by (cases "code_of c < 128") (auto split: option.splits simp del: drop_Cons' take_Cons' simp: append_take_drop_id)
qed simp

lemma is_ascii_valid_utf8: "is_ascii s \<Longrightarrow> valid_utf8 s"
  by (induction s) auto

lemma utf8_len_take: "utf8_len s = Some n \<Longrightarrow> utf8_len (take n s @ x) = Some n"
  by (induction s rule: utf8_len.induct) (auto split: if_splits list.splits)

lemma hex_val_hex_digit [simp]: "d < 16 \<Longrightarrow> hex_val (hex_digit d) = Some d"
  by (auto simp: hex_val_def hex_digit_def Let_def)

lemma prepend_Some [simp]: "prepend x (Some (t, r)) = Some (x @ t, r)"
  by (simp add: prepend_def)

lemma char_eqI: "code_of c = code_of d \<Longrightarrow> c = d"
  by (simp add: code_of_def)

lemma char_of_code_of [simp]: "char_of (code_of c) = c"
  by (simp add: code_of_def)

lemma char_of_code_eq: "code_of c = n \<Longrightarrow> n < 256 \<Longrightarrow> c = char_of n"
  by (rule char_eqI) simp

lemma pstring_ascii:
  assumes "code_of c < 128"
  shows "pstring (escape_ascii c @ r) = prepend [c] (pstring r)"
proof -
  consider (quote) "code_of c = 0x22 \<or> code_of c = 0x5C"
    | (short) "code_of c \<in> {8, 12, 10, 13, 9}"
    | (hex) "code_of c \<notin> {8, 12, 10, 13, 9}" "code_of c < 32 \<or> code_of c = 0x3C \<or> code_of c = 0x3E \<or> code_of c = 0x26"
    | (plain) "32 \<le> code_of c" "code_of c \<notin> {0x22, 0x5C, 0x3C, 0x3E, 0x26}"
    by fastforce
  then show ?thesis
  proof cases
    case quote
    then have "c = dquote \<or> c = backslash" by (auto intro!: char_eqI simp: code_of_def)
    then show ?thesis
      by (auto simp: escape_ascii_def pstring.simps(2) simple_escape_def code_of_def Let_def)
  next
    case short
    then have "c = CHR 0x08 \<or> c = CHR 0x0C \<or> c = CHR 0x0A \<or> c = CHR 0x0D \<or> c = CHR 0x09"
      by (auto intro!: char_eqI simp: code_of_def)
    then show ?thesis
      by (elim disjE; hypsubst; simp add: escape_ascii_def pstring.simps(2) simple_escape_def code_of_def Let_def)
  next
    case hex
    have d: "code_of c div 16 < 16" "code_of c mod 16 < 16" using assms by auto
    have e: "escape_ascii c = backslash # ''u00'' @ [hex_digit (code_of c div 16), hex_digit (code_of c mod 16)]"
      using hex by (auto simp: escape_ascii_def Let_def)
    have z: "hex_val (CHR ''0'') = Some 0" by (simp add: hex_val_def code_of_def)
    have "hex4 (''00'' @ [hex_digit (code_of c div 16), hex_digit (code_of c mod 16)] @ r) = Some (code_of c, r)"
      using d by (simp add: z)
    then show ?thesis
      using assms by (simp add: e pstring.simps(2) encode_rune_def)
  next
    case plain
    then have "escape_ascii c = [c]" by (auto simp: escape_ascii_def Let_def)
    moreover have "c \<noteq> dquote" "c \<noteq> backslash" using plain by (auto simp: code_of_def)
    ultimately show ?thesis using plain assms by (simp add: pstring.simps(2))
  qed
qed

lemma utf8_len_separator:
  "utf8_len (CHR 0xE2 # CHR 0x80 # CHR 0xA8 # t) = Some 3"
  "utf8_len (CHR 0xE2 # CHR 0x80 # CHR 0xA9 # t) = Some 3"
  by (simp_all add: in_range_def code_of_def)

lemma json_escape_separator:
  "json_escape (CHR 0xE2 # CHR 0x80 # CHR 0xA8 # t) = backslash # ''u2028'' @ json_escape t"
  "json_escape (CHR 0xE2 # CHR 0x80 # CHR 0xA9 # t) = backslash # ''u2029'' @ json_escape t"
  by (simp_all add: utf8_len_separator code_of_def del: utf8_len.simps)

lemma encode_separator:
  "encode_rune 0x2028 = [CHR 0xE2, CHR 0x80, CHR 0xA8]"
  "encode_rune 0x2029 = [CHR 0xE2, CHR 0x80, CHR 0xA9]"
  by (auto simp: encode_rune_def code_of_def intro!: char_eqI)

lemma pstring_separator:
  "pstring (backslash # ''u2028'' @ r) = prepend [CHR 0xE2, CHR 0x80, CHR 0xA8] (pstring r)"
  "pstring (backslash # ''u2029'' @ r) = prepend [CHR 0xE2, CHR 0x80, CHR 0xA9] (pstring r)"
  by (simp_all add: pstring.simps(2) hex_val_def code_of_def Let_def encode_separator)

lemma encode_replacement: "encode_rune 0xFFFD = replacement"
  by (auto simp: encode_rune_def replacement_def code_of_def intro!: char_eqI)

lemma pstring_replacement: "pstring (backslash # ''ufffd'' @ r) = prepend replacement (pstring r)"
  by (simp add: pstring.simps(2) hex_val_def code_of_def Let_def encode_replacement)

lemma pstring_escape: "pstring (json_escape s @ dquote # rest) = Some (sanitize s, rest)"
proof (induction s rule: json_escape.induct)
  case 1
  then show ?case by (simp add: pstring.simps(2))
next
  case (2 c s)
  show ?case
  proof (cases "code_of c < 128")
    case True
    then show ?thesis using 2(1) by (simp add: pstring_ascii)
  next
    case False
    show ?thesis
    proof (cases "utf8_len (c # s)")
      case None
      then have "json_escape (c # s) = backslash # ''ufffd'' @ json_escape s" "sanitize (c # s) = replacement @ sanitize s"
        using False by auto
      then show ?thesis using 2(2) [OF False None] pstring_replacement [of "json_escape s @ dquote # rest"] by simp
    next
      case n: (Some n)
      have IH: "pstring (json_escape (drop n (c # s)) @ dquote # rest) = Some (sanitize (drop n (c # s)), rest)"
        using 2(3) [OF False n] .
      have san: "sanitize (c # s) = take n (c # s) @ sanitize (drop n (c # s))" using False n by simp
    have b: "2 \<le> n" "n \<le> length (c # s)" using utf8_len_bounds [OF n] by auto
    show ?thesis
    proof (cases "take 3 (c # s) = [CHR 0xE2, CHR 0x80, CHR 0xA8] \<or> take 3 (c # s) = [CHR 0xE2, CHR 0x80, CHR 0xA9]")
      case True
      define t where "t = drop 3 (c # s)"
      have "c # s = take 3 (c # s) @ t" unfolding t_def by (rule append_take_drop_id [symmetric])
      with True have cs: "c # s = CHR 0xE2 # CHR 0x80 # CHR 0xA8 # t
                        \<or> c # s = CHR 0xE2 # CHR 0x80 # CHR 0xA9 # t" by auto
      then have "n = 3" using n by (auto simp: utf8_len_separator simp del: utf8_len.simps)
      then have IH': "pstring (json_escape t @ dquote # rest) = Some (sanitize t, rest)"
        using IH by (simp add: t_def)
      moreover have "sanitize (c # s) = take 3 (c # s) @ sanitize t" using san \<open>n = 3\<close> by (simp add: t_def)
      ultimately show ?thesis using cs
        by (elim disjE) (simp_all add: json_escape_separator pstring_separator [simplified] del: json_escape.simps sanitize.simps)
    next
      case sep: False
      have other: "json_escape (c # s) = take n (c # s) @ json_escape (drop n (c # s))"
        using False n sep by auto
      define w where "w = take n (c # s)"
      obtain w' where w': "w = c # w'" using b by (cases n) (auto simp: w_def)
      have len: "length w = n" using b by (simp add: w_def)
      have c: "c \<noteq> dquote" "c \<noteq> backslash" "\<not> code_of c < 32" using False by (auto simp: code_of_def)
      have ul: "utf8_len (w @ json_escape (drop n (c # s)) @ dquote # rest) = Some n"
        unfolding w_def by (rule utf8_len_take [OF n])
      define x where "x = json_escape (drop n (c # s)) @ dquote # rest"
      have tk: "take n (c # w' @ x) = w" "drop n (c # w' @ x) = x" using len w' by auto
      have "pstring (c # w' @ x) = prepend w (pstring x)"
        using c False ul [folded x_def] tk by (subst pstring.simps(2)) (simp add: w')
      then have "pstring (w @ x) = Some (w @ sanitize (drop n (c # s)), rest)"
        using IH by (simp add: w' x_def)
      then show ?thesis unfolding other san by (simp add: w_def x_def)
    qed
    qed
  qed
qed

subsection \<open>Values read back\<close>

text \<open>
  \<open>json_text v t\<close>: \<open>t\<close> is a text of the value \<open>v\<close> with white space anywhere JSON allows it. The
  text of a string that is not valid UTF-8 is read back with replacement characters.
\<close>

definition all_ws :: "string \<Rightarrow> bool" where
  "all_ws w = list_all json_ws w"

inductive json_text :: "json \<Rightarrow> string \<Rightarrow> bool"
  and elems_text :: "json list \<Rightarrow> string \<Rightarrow> bool"
  and members_text :: "(string \<times> json) list \<Rightarrow> string \<Rightarrow> bool" where
  null: "json_text JNull ''null''"
| true: "json_text (JBool True) ''true''"
| false: "json_text (JBool False) ''false''"
| num: "json_text (JNum i) (itoa i)"
| str: "json_text (JStr (sanitize s)) (json_quote s)"
| arr0: "json_text (JArr []) ''[]''"
| arr: "elems_text vs t \<Longrightarrow> json_text (JArr vs) (CHR ''['' # t)"
| obj0: "json_text (JObj []) ''{}''"
| obj: "members_text kvs t \<Longrightarrow> json_text (JObj kvs) (CHR ''{'' # t)"
| elem: "all_ws w \<Longrightarrow> json_text v t \<Longrightarrow> all_ws w' \<Longrightarrow> elems_text [v] (w @ t @ w' @ '']'')"
| elems: "all_ws w \<Longrightarrow> json_text v t \<Longrightarrow> all_ws w' \<Longrightarrow> elems_text vs u
          \<Longrightarrow> elems_text (v # vs) (w @ t @ w' @ CHR '','' # u)"
| member: "all_ws w \<Longrightarrow> all_ws w1 \<Longrightarrow> json_text v t \<Longrightarrow> all_ws w'
           \<Longrightarrow> members_text [(sanitize k, v)] (w @ json_quote k @ CHR '':'' # w1 @ t @ w' @ ''}'')"
| members: "all_ws w \<Longrightarrow> all_ws w1 \<Longrightarrow> json_text v t \<Longrightarrow> all_ws w'
            \<Longrightarrow> members_text kvs u
            \<Longrightarrow> members_text ((sanitize k, v) # kvs) (w @ json_quote k @ CHR '':'' # w1 @ t @ w' @ CHR '','' # u)"

text \<open>A number ends where no digit, fraction or exponent can follow.\<close>

definition delimited :: "string \<Rightarrow> bool" where
  "delimited r = (case r of [] \<Rightarrow> True | c # _ \<Rightarrow> \<not> is_digit c \<and> c \<notin> set ''.eE'')"

lemma skip_ws_all_ws: "all_ws w \<Longrightarrow> skip_ws (w @ s) = skip_ws s"
  by (induction w) (auto simp: all_ws_def skip_ws_def)

lemma skip_ws_Cons [simp]: "\<not> json_ws c \<Longrightarrow> skip_ws (c # s) = c # s"
  by (simp add: skip_ws_def)

lemma takeWhile_digits: "list_all is_digit ds \<Longrightarrow> delimited r \<Longrightarrow>
   takeWhile is_digit (ds @ r) = ds \<and> dropWhile is_digit (ds @ r) = r"
  by (induction ds) (auto simp: delimited_def split: list.splits)

lemma digits_rev_no_leading_zero: "10 \<le> n \<Longrightarrow> last (digits_rev n) \<noteq> CHR ''0''"
proof (induction n rule: digits_rev.induct)
  case (1 n)
  show ?case
  proof (cases "n div 10 < 10")
    case True
    have d: "digits_rev n = [char_of (48 + n mod 10), char_of (48 + n div 10)]"
      using 1(2) True by (subst digits_rev.simps, subst digits_rev.simps) simp
    have "0 < n div 10" using 1(2) by simp
    then have "code_of (char_of (48 + n div 10)) \<noteq> code_of (CHR ''0'')"
      using True by (simp add: code_of_def)
    then show ?thesis unfolding d by auto
  next
    case False
    then have "last (digits_rev n) = last (digits_rev (n div 10))"
      using 1(2) by (subst digits_rev.simps) simp
    with False 1(1) [of] 1(2) show ?thesis by simp
  qed
qed

lemma pnumber_itoa: "delimited r \<Longrightarrow> pnumber (itoa i @ r) = Some (JNum i, r)"
proof -
  assume r: "delimited r"
  define n where "n = nat \<bar>i\<bar>"
  define ds where "ds = nat_to_string n"
  have dig: "list_all is_digit ds"
    unfolding ds_def list_all_iff is_digit_def by (auto dest: set_nat_to_string)
  have tw: "takeWhile is_digit (ds @ r) = ds" "dropWhile is_digit (ds @ r) = r"
    using takeWhile_digits [OF dig r] by auto
  have ne: "ds \<noteq> []" by (simp add: ds_def)
  have lead: "\<not> (hd ds = CHR ''0'' \<and> tl ds \<noteq> [])"
  proof (cases "n < 10")
    case True
    then have "ds = [char_of (48 + n)]"
      unfolding ds_def nat_to_string_def by (subst digits_rev.simps) simp
    then show ?thesis by simp
  next
    case False
    then show ?thesis
      using digits_rev_no_leading_zero [of n] by (simp add: ds_def nat_to_string_def hd_rev)
  qed
  have fe: "pfrac r = Some ([], r)" "pexp r = Some ([], r)"
    using r by (auto simp: pfrac_def pexp_def delimited_def split: list.splits)
  have val: "parse_digits 0 ds = Some n" by (simp add: ds_def)
  have hd: "hd ds \<noteq> CHR ''-''"
    using ne dig by (cases ds) (auto simp: is_digit_def code_of_def)
  show ?thesis
  proof (cases "i < 0")
    case True
    then have "itoa i = CHR ''-'' # ds" by (simp add: itoa_def ds_def n_def)
    with True show ?thesis
      by (simp add: pnumber_def tw ne lead fe val n_def)
  next
    case False
    then have "itoa i = ds" by (simp add: itoa_def ds_def n_def)
    moreover obtain d ds' where "ds = d # ds'" using ne by (cases ds) auto
    ultimately show ?thesis
      using False hd tw lead fe val by (simp add: pnumber_def Let_def n_def)
  qed
qed


lemma nat_to_string_hd: "\<exists>c t. nat_to_string n = c # t \<and> is_digit c"
  by (cases "nat_to_string n") (use set_nat_to_string [of _ n] in \<open>auto simp: is_digit_def\<close>)

lemma itoa_hd: "\<exists>c t. itoa i = c # t \<and> (c = CHR ''-'' \<or> is_digit c)"
  using nat_to_string_hd [of "nat i"] by (auto simp: itoa_def)

definition value_start :: "char \<Rightarrow> bool" where
  "value_start c = (c \<in> set ''{[tfn-'' \<or> c = dquote \<or> is_digit c)"

lemma value_start_not: "value_start c \<Longrightarrow> \<not> json_ws c \<and> c \<noteq> CHR '']''"
  by (auto simp: value_start_def json_ws_def is_digit_def code_of_def)

lemma json_text_hd:
  assumes "json_text v t" shows "\<exists>c t'. t = c # t' \<and> value_start c"
  using assms
proof cases
  case (num i)
  then show ?thesis using itoa_hd [of i] by (auto simp: value_start_def)
qed (auto simp: value_start_def json_quote_def)

lemma delimited_ws: "all_ws w \<Longrightarrow> c \<in> set '',]}'' \<Longrightarrow> delimited (w @ c # r)"
  by (cases w) (auto simp: delimited_def all_ws_def json_ws_def is_digit_def code_of_def)

lemma pvalue_num:
  "delimited r \<Longrightarrow> all_ws w \<Longrightarrow> pvalue (Suc m) (w @ itoa i @ r) = Some (JNum i, r)"
proof -
  assume r: "delimited r" and w: "all_ws w"
  obtain c t where c: "itoa i = c # t" "c = CHR ''-'' \<or> is_digit c" using itoa_hd by blast
  then have nw: "\<not> json_ws c" by (auto simp: json_ws_def is_digit_def code_of_def)
  have "c \<notin> set ''{[tfn'' \<and> c \<noteq> dquote" using c(2) by (auto simp: is_digit_def code_of_def)
  with c nw w show ?thesis
    using pnumber_itoa [OF r, of i] by (simp add: skip_ws_all_ws)
qed

lemma pvalue_text:
  "json_text v t \<Longrightarrow> (\<forall>n r w. 2 * length t < n \<longrightarrow> all_ws w \<longrightarrow> delimited r
      \<longrightarrow> pvalue n (w @ t @ r) = Some (v, r))"
  "elems_text vs u \<Longrightarrow> (\<forall>n r. 2 * length u \<le> n \<longrightarrow> pelems n (u @ r) = Some (vs, r)) \<and>
      (\<forall>r. \<exists>c u'. skip_ws (u @ r) = c # u' \<and> c \<noteq> CHR '']'')"
  "members_text kvs u' \<Longrightarrow> (\<forall>n r. 2 * length u' \<le> n \<longrightarrow> pmembers n (u' @ r) = Some (kvs, r)) \<and>
      (\<forall>r. \<exists>x. skip_ws (u' @ r) = dquote # x)"
proof (induction rule: json_text_elems_text_members_text.inducts)
  case null
  show ?case
    by (intro allI impI, case_tac n) (auto simp: skip_ws_all_ws pliteral_def json_ws_def code_of_def HasPrefix_def)
next
  case true
  show ?case
    by (intro allI impI, case_tac n) (auto simp: skip_ws_all_ws pliteral_def json_ws_def code_of_def HasPrefix_def)
next
  case false
  show ?case
    by (intro allI impI, case_tac n) (auto simp: skip_ws_all_ws pliteral_def json_ws_def code_of_def HasPrefix_def)
next
  case (num i)
  show ?case by (intro allI impI, case_tac n) (simp_all add: pvalue_num del: pvalue.simps)
next
  case (str s)
  then show ?case
    by (intro allI impI, case_tac n)
       (auto simp: skip_ws_all_ws json_quote_def json_ws_def code_of_def pstring_escape)
next
  case arr0
  show ?case
    by (intro allI impI, case_tac n) (auto simp: skip_ws_all_ws json_ws_def code_of_def)
next
  case (arr vs t)
  show ?case
  proof (intro allI impI)
    fix n r w
    assume n: "2 * length (CHR ''['' # t) < n" and w: "all_ws w"
    then obtain m where m: "n = Suc m" "2 * length t \<le> m" by (cases n) auto
    obtain c x where "skip_ws (t @ r) = c # x" "c \<noteq> CHR '']''" using arr by blast
    with arr m w show "pvalue n (w @ (CHR ''['' # t) @ r) = Some (JArr vs, r)"
      by (simp add: skip_ws_all_ws json_ws_def code_of_def)
  qed
next
  case obj0
  show ?case
    by (intro allI impI, case_tac n) (auto simp: skip_ws_all_ws json_ws_def code_of_def)
next
  case (obj kvs t)
  show ?case
  proof (intro allI impI)
    fix n r w
    assume n: "2 * length (CHR ''{'' # t) < n" and w: "all_ws w"
    then obtain m where m: "n = Suc m" "2 * length t \<le> m" by (cases n) auto
    obtain x where "skip_ws (t @ r) = dquote # x" using obj by blast
    with obj m w show "pvalue n (w @ (CHR ''{'' # t) @ r) = Some (JObj kvs, r)"
      by (simp add: skip_ws_all_ws json_ws_def code_of_def)
  qed
next
  case (elem w v t w')
  have start: "\<exists>c x. skip_ws ((w @ t @ w' @ '']'') @ r) = c # x \<and> c \<noteq> CHR '']''" for r
    using elem json_text_hd [OF elem(2)] by (auto simp: skip_ws_all_ws dest!: value_start_not)
  have "pelems n ((w @ t @ w' @ '']'') @ r) = Some ([v], r)" if len: "2 * length (w @ t @ w' @ '']'') \<le> n" for n r
  proof -
    obtain m where m: "n = Suc m" "2 * length t < m" using len by (cases n) auto
    have "pvalue m (w @ t @ w' @ '']'' @ r) = Some (v, w' @ '']'' @ r)"
      using elem m delimited_ws [of w' "CHR '']''" r] by simp
    with m elem show ?thesis
      by (simp add: skip_ws_all_ws json_ws_def code_of_def)
  qed
  with start show ?case by blast
next
  case (elems w v t w' vs u)
  have start: "\<exists>c x. skip_ws ((w @ t @ w' @ CHR '','' # u) @ r) = c # x \<and> c \<noteq> CHR '']''" for r
    using elems json_text_hd [OF elems(2)] by (auto simp: skip_ws_all_ws dest!: value_start_not)
  have "pelems n ((w @ t @ w' @ CHR '','' # u) @ r) = Some (v # vs, r)"
    if len: "2 * length (w @ t @ w' @ CHR '','' # u) \<le> n" for n r
  proof -
    obtain m where m: "n = Suc m" "2 * length t < m" "2 * length u \<le> m" using len by (cases n) auto
    have "pvalue m (w @ t @ w' @ CHR '','' # u @ r) = Some (v, w' @ CHR '','' # u @ r)"
      using elems m delimited_ws [of w' "CHR '',''" "u @ r"] by simp
    with m elems show ?thesis
      by (simp add: skip_ws_all_ws json_ws_def code_of_def)
  qed
  with start show ?case by blast
next
  case (member w w1 v t w' k)
  have start: "\<exists>x. skip_ws ((w @ json_quote k @ CHR '':'' # w1 @ t @ w' @ ''}'') @ r) = dquote # x" for r
    using member by (simp add: skip_ws_all_ws json_quote_def json_ws_def code_of_def)
  have "pmembers n ((w @ json_quote k @ CHR '':'' # w1 @ t @ w' @ ''}'') @ r) = Some ([(sanitize k, v)], r)"
    if len: "2 * length (w @ json_quote k @ CHR '':'' # w1 @ t @ w' @ ''}'') \<le> n" for n r
  proof -
    obtain m where m: "n = Suc m" "2 * length t < m" using len by (cases n) auto
    have "pvalue m (w1 @ t @ w' @ ''}'' @ r) = Some (v, w' @ ''}'' @ r)"
      using member m delimited_ws [of w' "CHR ''}''" r] by simp
    with m member show ?thesis
      by (simp add: skip_ws_all_ws json_ws_def code_of_def json_quote_def pstring_escape)
  qed
  with start show ?case by blast
next
  case (members w w1 v t w' kvs u k)
  have start: "\<exists>x. skip_ws ((w @ json_quote k @ CHR '':'' # w1 @ t @ w' @ CHR '','' # u) @ r) = dquote # x" for r
    using members by (simp add: skip_ws_all_ws json_quote_def json_ws_def code_of_def)
  have "pmembers n ((w @ json_quote k @ CHR '':'' # w1 @ t @ w' @ CHR '','' # u) @ r) = Some ((sanitize k, v) # kvs, r)"
    if len: "2 * length (w @ json_quote k @ CHR '':'' # w1 @ t @ w' @ CHR '','' # u) \<le> n" for n r
  proof -
    obtain m where m: "n = Suc m" "2 * length t < m" "2 * length u \<le> m" using len by (cases n) auto
    have "pvalue m (w1 @ t @ w' @ CHR '','' # u @ r) = Some (v, w' @ CHR '','' # u @ r)"
      using members m delimited_ws [of w' "CHR '',''" "u @ r"] by simp
    with m members show ?thesis
      by (simp add: skip_ws_all_ws json_ws_def code_of_def json_quote_def pstring_escape)
  qed
  with start show ?case by blast
qed


text \<open>The values whose texts are read back unchanged: every string in them is valid UTF-8.\<close>

fun ok_json :: "json \<Rightarrow> bool" where
  "ok_json (JFrac t) = False"
| "ok_json (JStr s) = valid_utf8 s"
| "ok_json (JArr vs) = list_all ok_json vs"
| "ok_json (JObj kvs) = list_all (\<lambda>(k, v). valid_utf8 k \<and> ok_json v) kvs"
| "ok_json _ = True"

text \<open>The value that any text of \<open>v\<close> is read back as.\<close>

fun read_back :: "json \<Rightarrow> json" where
  "read_back (JStr s) = JStr (sanitize s)"
| "read_back (JArr vs) = JArr (map read_back vs)"
| "read_back (JObj kvs) = JObj (map (\<lambda>(k, v). (sanitize k, read_back v)) kvs)"
| "read_back v = v"

fun no_frac :: "json \<Rightarrow> bool" where
  "no_frac (JFrac t) = False"
| "no_frac (JArr vs) = list_all no_frac vs"
| "no_frac (JObj kvs) = list_all (\<lambda>(k, v). no_frac v) kvs"
| "no_frac _ = True"

lemma ok_json_read_back: "ok_json v \<Longrightarrow> no_frac v \<and> read_back v = v"
  by (induction v rule: ok_json.induct) (auto simp: sanitize_valid list_all_iff intro!: map_idI)

lemma elems_text_Join:
  assumes "vs \<noteq> []" "\<forall>v\<in>set vs. json_text (g v) (f v)" "all_ws a" "all_ws z"
  shows "elems_text (map g vs) (a @ Join (map f vs) ('','' @ a) @ z @ '']'')"
  using assms
proof (induction vs)
  case (Cons v vs)
  show ?case
  proof (cases vs)
    case Nil
    with Cons show ?thesis using elem [of a "g v" "f v" z] by simp
  next
    case (Cons v' vs')
    with Cons.prems Cons.IH
    have "elems_text (g v # map g vs) (a @ f v @ [] @ CHR '','' # (a @ Join (map f vs) ('','' @ a) @ z @ '']''))"
      by (intro elems) (auto simp: all_ws_def)
    with Cons show ?thesis by simp
  qed
qed simp

lemma members_text_Join:
  assumes "kvs \<noteq> []" "\<forall>(k, v)\<in>set kvs. json_text (g v) (f v)"
    "all_ws a" "all_ws b" "all_ws z"
  shows "members_text (map (\<lambda>(k, v). (sanitize k, g v)) kvs)
           (a @ Join (map (\<lambda>(k, v). json_quote k @ '':'' @ b @ f v) kvs) ('','' @ a) @ z @ ''}'')"
  using assms
proof (induction kvs)
  case (Cons kv kvs)
  obtain k v where kv: "kv = (k, v)" by (cases kv)
  let ?J = "Join (map (\<lambda>(k, v). json_quote k @ '':'' @ b @ f v) kvs) ('','' @ a)"
  show ?case
  proof (cases kvs)
    case Nil
    with Cons kv show ?thesis using member [of a b "g v" "f v" z k] by simp
  next
    case (Cons kv' kvs')
    with Cons.prems Cons.IH kv
    have "members_text ((sanitize k, g v) # map (\<lambda>(k, v). (sanitize k, g v)) kvs) (a @ json_quote k @ CHR '':'' # b @ f v @ [] @ CHR '','' # (a @ ?J @ z @ ''}''))"
      unfolding kv by (intro members) (auto simp: all_ws_def)
    with Cons kv show ?thesis by simp
  qed
qed simp

lemma all_ws_Nil [simp]: "all_ws []"
  by (simp add: all_ws_def)

lemma all_ws_space [simp]: "all_ws '' ''"
  by (simp add: all_ws_def json_ws_def code_of_def)

lemma all_ws_newline_indent [simp]: "all_ws (newline_indent n)"
  by (auto simp: all_ws_def newline_indent_def json_ws_def code_of_def list_all_iff)

lemma json_text_read_back: "no_frac v \<Longrightarrow> json_text (read_back v) (marshal v)"
proof (induction v rule: marshal.induct)
  case (6 vs)
  show ?case
  proof (cases "vs = []")
    case False
    then have "elems_text (map read_back vs) ([] @ Join (map marshal vs) ('','' @ []) @ [] @ '']'')"
      using 6 by (intro elems_text_Join) (auto simp: list_all_iff)
    then show ?thesis using arr by fastforce
  qed (simp add: arr0)
next
  case (7 kvs)
  show ?case
  proof (cases "kvs = []")
    case False
    then have "members_text (map (\<lambda>(k, v). (sanitize k, read_back v)) kvs)
        ([] @ Join (map (\<lambda>(k, v). json_quote k @ '':'' @ [] @ marshal v) kvs) ('','' @ []) @ [] @ ''}'')"
      using 7 by (intro members_text_Join) (auto simp: list_all_iff)
    then show ?thesis using obj by fastforce
  qed (simp add: obj0)
qed (auto intro: json_text_elems_text_members_text.intros)

lemma json_text_read_back_indent: "no_frac v \<Longrightarrow> json_text (read_back v) (marshal_indent n v)"
proof (induction n v rule: marshal_indent.induct)
  case (1 n vs)
  show ?case
  proof (cases "vs = []")
    case False
    then have "elems_text (map read_back vs) (newline_indent (Suc n)
        @ Join (map (marshal_indent (Suc n)) vs) ('','' @ newline_indent (Suc n)) @ newline_indent n @ '']'')"
      using 1 by (intro elems_text_Join) (auto simp: list_all_iff)
    then show ?thesis using False arr by fastforce
  qed (simp add: arr0)
next
  case (2 n kvs)
  show ?case
  proof (cases "kvs = []")
    case False
    then have "members_text (map (\<lambda>(k, v). (sanitize k, read_back v)) kvs) (newline_indent (Suc n)
        @ Join (map (\<lambda>(k, v). json_quote k @ '':'' @ '' '' @ marshal_indent (Suc n) v) kvs)
            ('','' @ newline_indent (Suc n)) @ newline_indent n @ ''}'')"
      using 2 by (intro members_text_Join) (auto simp: list_all_iff)
    then show ?thesis using False obj by fastforce
  qed (simp add: obj0)
qed (auto intro: json_text_elems_text_members_text.intros)

lemma json_text_marshal: "ok_json v \<Longrightarrow> json_text v (marshal v)"
  using json_text_read_back [of v] ok_json_read_back [of v] by auto

lemma json_text_marshal_indent: "ok_json v \<Longrightarrow> json_text v (marshal_indent n v)"
  using json_text_read_back_indent [of v n] ok_json_read_back [of v] by auto

lemma parse_json_text:
  "json_text v t \<Longrightarrow> all_ws r \<Longrightarrow> parse_json (t @ r) = Some (v, r)"
proof -
  assume t: "json_text v t" and r: "all_ws r"
  have "delimited r"
    using r by (cases r) (auto simp: delimited_def all_ws_def json_ws_def is_digit_def code_of_def)
  moreover have "2 * length t < 2 * length (t @ r) + 2" by simp
  ultimately show ?thesis
    using pvalue_text(1) [OF t, rule_format, of "2 * length (t @ r) + 2" "[]" r]
    by (simp add: parse_json_def)
qed

lemma unmarshal_text: "json_text v t \<Longrightarrow> all_ws r \<Longrightarrow> unmarshal (t @ r) = Some v"
  using skip_ws_all_ws [of r "[]"] by (simp add: unmarshal_def parse_json_text skip_ws_def)

lemma unmarshal_marshal: "ok_json v \<Longrightarrow> unmarshal (marshal v) = Some v"
  using unmarshal_text [OF json_text_marshal, of v "[]"] by simp

lemma unmarshal_MarshalIndent: "ok_json v \<Longrightarrow> unmarshal (MarshalIndent v) = Some v"
  using unmarshal_text [OF json_text_marshal_indent, of v "[]"] by (simp add: MarshalIndent_def)


subsection \<open>Fuel\<close>

lemma prepend_eq_Some: "prepend x r = Some (t, rest) \<longleftrightarrow> (\<exists>t'. r = Some (t', rest) \<and> t = x @ t')"
  by (auto simp: prepend_def)

lemma pstring_length: "pstring s = Some (t, r) \<Longrightarrow> length r < length s"
proof (induction s arbitrary: t r rule: length_induct)
  case (1 s)
  have IH: "length r' < length s" if "pstring x = Some (t', r')" "length x < length s" for x t' r'
    using 1(1) that by (meson less_trans)
  show ?case
  proof (cases s)
    case (Cons c s')
    show ?thesis
      using 1(2) unfolding Cons
      by (subst (asm) pstring.simps(2))
         (auto simp: prepend_eq_Some split: if_splits option.splits list.splits
            dest!: hex4_length low_surrogate_length utf8_len_bounds IH [unfolded Cons])
  qed (use 1(2) in simp)
qed

lemma dropWhile_length: "length (dropWhile P xs) \<le> length xs"
  by (induction xs) auto

lemma skip_ws_length: "skip_ws s = c # r \<Longrightarrow> length r < length s"
  using dropWhile_length [of json_ws s] by (simp add: skip_ws_def)

lemma pfrac_length: "pfrac s = Some (f, r) \<Longrightarrow> length r \<le> length s"
  by (auto simp: pfrac_def le_SucI dropWhile_length split: list.splits if_splits)

lemma pexp_length: "pexp s = Some (f, r) \<Longrightarrow> length r \<le> length s"
  by (auto simp: pexp_def Let_def le_SucI dropWhile_length split: list.splits if_splits)

lemma takeWhile_ne_dropWhile: "takeWhile P xs \<noteq> [] \<Longrightarrow> length (dropWhile P xs) < length xs"
  by (cases xs) (auto simp: le_imp_less_Suc dropWhile_length split: if_splits)

lemma pnumber_length: "pnumber s = Some (v, r) \<Longrightarrow> length r < length s"
proof -
  assume p: "pnumber s = Some (v, r)"
  define s1 where "s1 = (if (case s of c # _ \<Rightarrow> c = CHR ''-'' | [] \<Rightarrow> False) then tl s else s)"
  have ne: "takeWhile is_digit s1 \<noteq> []" using p by (auto simp: pnumber_def s1_def Let_def split: if_splits)
  obtain f r2 e where "pfrac (dropWhile is_digit s1) = Some (f, r2)" "pexp r2 = Some (e, r)"
    using p by (auto simp: pnumber_def s1_def Let_def split: if_splits option.splits prod.splits)
  then have "length r \<le> length (dropWhile is_digit s1)" by (auto dest!: pfrac_length pexp_length)
  also have "\<dots> < length s1" by (rule takeWhile_ne_dropWhile [OF ne])
  also have "\<dots> \<le> length s" by (simp add: s1_def)
  finally show ?thesis .
qed

lemma pliteral_length: "pliteral t v s = Some (v', r) \<Longrightarrow> t \<noteq> [] \<Longrightarrow> length r < length s"
  by (cases t) (auto simp: pliteral_def HasPrefix_def split: if_splits)

lemma pvalue_lengths:
  "(\<forall>s v r. pvalue n s = Some (v, r) \<longrightarrow> length r < length s) \<and>
   (\<forall>s vs r. pelems n s = Some (vs, r) \<longrightarrow> length r < length s) \<and>
   (\<forall>s kvs r. pmembers n s = Some (kvs, r) \<longrightarrow> length r < length s)"
proof (induction n)
  case (Suc n)
  have v: "length r < length s" if "pvalue n s = Some (v, r)" for s v r using Suc that by blast
  have e: "length r < length s" if "pelems n s = Some (v, r)" for s v r using Suc that by blast
  have m: "length r < length s" if "pmembers n s = Some (v, r)" for s v r using Suc that by blast
  have "length r < length s" if p: "pvalue (Suc n) s = Some (v, r)" for s v r
  proof -
    obtain c x where sk: "skip_ws s = c # x" using p by (auto split: list.splits)
    have "length r < length (c # x)"
      using p sk
      by (auto split: if_splits list.splits
          dest!: e m pstring_length pliteral_length pnumber_length skip_ws_length [of x])
    with skip_ws_length [OF sk] show ?thesis by simp
  qed
  moreover have "length r < length s" if "pelems (Suc n) s = Some (vs, r)" for s vs r
    using that by (auto split: if_splits list.splits option.splits dest!: skip_ws_length e v)
  moreover have "length r < length s" if "pmembers (Suc n) s = Some (kvs, r)" for s kvs r
    using that by (auto split: if_splits list.splits option.splits dest!: skip_ws_length pstring_length m v)
  ultimately show ?case by blast
qed simp

lemmas pvalue_length = pvalue_lengths [THEN conjunct1, rule_format]

text \<open>More fuel than \<open>2 * length s\<close> (for a value) changes nothing.\<close>

lemma pvalue_fuels:
  "(\<forall>s k. 2 * length s < n \<longrightarrow> n \<le> k \<longrightarrow> pvalue k s = pvalue n s) \<and>
   (\<forall>s k. 2 * length s + 1 < n \<longrightarrow> n \<le> k \<longrightarrow> pelems k s = pelems n s) \<and>
   (\<forall>s k. 2 * length s + 1 < n \<longrightarrow> n \<le> k \<longrightarrow> pmembers k s = pmembers n s)"
proof (induction n)
  case (Suc n)
  have v: "pvalue k s = pvalue n s" if "2 * length s < n" "n \<le> k" for s k using Suc that by blast
  have e: "pelems k s = pelems n s" if "2 * length s + 1 < n" "n \<le> k" for s k using Suc that by blast
  have m: "pmembers k s = pmembers n s" if "2 * length s + 1 < n" "n \<le> k" for s k using Suc that by blast
  have "pvalue (Suc k) s = pvalue (Suc n) s" if len: "2 * length s < Suc n" "n \<le> k" for s k
  proof (cases "skip_ws s")
    case (Cons c x)
    have "2 * length x + 1 < n" using skip_ws_length [OF Cons] len by simp
    with Cons e [of x k] m [of x k] len show ?thesis by (simp split: list.splits)
  qed simp
  moreover have "pelems (Suc k) s = pelems (Suc n) s" if len: "2 * length s + 1 < Suc n" "n \<le> k" for s k
  proof (cases "pvalue n s")
    case (Some vr)
    obtain x r where vr: "vr = (x, r)" by (cases vr)
    have "length r < length s" using Some pvalue_length unfolding vr by blast
    then have "2 * length r' + 1 < n" if "skip_ws r = d # r'" for d r'
      using skip_ws_length [OF that] len by simp
    with Some vr v [of s k] e [of _ k] len show ?thesis by (auto split: list.splits)
  qed (use len v [of s k] in simp)
  moreover have "pmembers (Suc k) s = pmembers (Suc n) s" if len: "2 * length s + 1 < Suc n" "n \<le> k" for s k
  proof -
    have v': "pvalue k x = pvalue n x" if "length x < length s" for x
      using v [of x k] len that by simp
    have m': "pmembers k x = pmembers n x" if "length x < length s" for x
      using m [of x k] len that by simp
    show ?thesis
    proof (cases "skip_ws s")
      case (Cons c x)
      have "length r4 < length s \<and> length r2 < length s"
        if "pstring x = Some (t, r1)" "skip_ws r1 = d # r2" "pvalue n r2 = Some (w, r3)" "skip_ws r3 = b # r4"
        for t r1 d r2 w r3 b r4
        using skip_ws_length [OF Cons] pstring_length [OF that(1)] skip_ws_length [OF that(2)]
          pvalue_length [OF that(3)] skip_ws_length [OF that(4)] by simp
      moreover have "length r2 < length s" if "pstring x = Some (t, r1)" "skip_ws r1 = d # r2" for t r1 d r2
        using skip_ws_length [OF Cons] pstring_length [OF that(1)] skip_ws_length [OF that(2)] by simp
      ultimately show ?thesis
        using Cons v' m' by (auto split: list.splits option.splits)
    qed simp
  qed
  ultimately show ?case by (metis Suc_le_D Suc_le_mono)
qed simp

lemma pvalue_fuel: "2 * length s + 2 \<le> k \<Longrightarrow> pvalue k s = parse_json s"
  unfolding parse_json_def using pvalue_fuels [of "2 * length s + 2"] by auto

end
