(* ===== verification/Mcproto.thy ===== *)
theory Mcproto
  imports Json_Parse
begin

text \<open>
  The Minecraft handshake and status protocol of \<open>internal/mcproto/protocol.go\<close>: VarInts,
  length-prefixed strings and frames, reading a handshake, answering a status request, the login
  disconnect message, and the status query the supervisor sends to the Java server.

  Readers are the bytes still to come (\<open>Prelude\<close>). A write to a \<open>bytes.Buffer\<close> never fails, so
  the writers return the bytes they append; writes to a connection go through \<open>conn_write\<close>.
\<close>

definition maxPacket :: int64 where
  "maxPacket = push_bit 20 2"

record handshake =
  Protocol :: int64
  Host :: string
  Port :: "16 word"
  NextState :: int64
  Frame :: "byte list"

subsection \<open>VarInts\<close>

fun ReadVarInt_from :: "int64 \<Rightarrow> nat \<Rightarrow> byte list \<Rightarrow> (int64 \<times> byte list) result" where
  "ReadVarInt_from val pos [] =
     (if pos \<ge> 35 then Inl (Errorf ''varint too long'') else Inl EOF)"
| "ReadVarInt_from val pos (b # r) =
     (if pos \<ge> 35 then Inl (Errorf ''varint too long'')
      else let val' = val OR push_bit pos (ucast (b AND 0x7f))
           in if b AND 0x80 = 0 then Inr (val', r) else ReadVarInt_from val' (pos + 7) r)"

definition ReadVarInt :: "byte list \<Rightarrow> (int64 \<times> byte list) result" where
  "ReadVarInt r = ReadVarInt_from 0 0 r"

lemma drop_bit_7_less: "drop_bit 7 u \<noteq> 0 \<Longrightarrow> unat (drop_bit 7 u) < unat (u :: uint32)"
proof -
  assume nz: "drop_bit 7 u \<noteq> 0"
  have "unat (drop_bit 7 u) = unat u div 128"
    by (simp only: unat_drop_bit_eq) (simp add: drop_bit_eq_div)
  moreover have "unat u \<noteq> 0" using nz by (auto simp: unat_eq_0)
  ultimately show ?thesis by simp
qed

function WriteVarInt_loop :: "uint32 \<Rightarrow> byte list" where
  "WriteVarInt_loop u =
     (let b = ucast (u AND 0x7f); u' = drop_bit 7 u
      in if u' \<noteq> 0 then (b OR 0x80) # WriteVarInt_loop u' else [b])"
  by pat_completeness auto
termination
  by (relation "measure unat") (auto intro: drop_bit_7_less)

declare WriteVarInt_loop.simps [simp del]

definition WriteVarInt :: "int64 \<Rightarrow> byte list" where
  "WriteVarInt v = WriteVarInt_loop (ucast v)"

subsection \<open>Strings and frames\<close>

definition go_len :: "'a list \<Rightarrow> int64" where
  "go_len xs = word_of_nat (length xs)"

definition writeString :: "string \<Rightarrow> byte list" where
  "writeString s = WriteVarInt (go_len s) @ bytes_of s"

definition readString :: "byte list \<Rightarrow> (string \<times> byte list) result" where
  "readString r =
     and_then (ReadVarInt r) (\<lambda>(n, r1).
       if sint n < 0 \<or> sint n > 32767 then Inl (Errorf (''invalid string length '' @ itoa (sint n)))
       else and_then (read_full (unat n) r1) (\<lambda>(b, r2). Inr (string_of b, r2)))"

definition frame :: "byte list \<Rightarrow> byte list" where
  "frame payload = WriteVarInt (go_len payload) @ payload"

text \<open>\<open>binary.BigEndian\<close> for \<open>uint16\<close>.\<close>

definition put_be16 :: "16 word \<Rightarrow> byte list" where
  "put_be16 w = [ucast (drop_bit 8 w), ucast w]"

definition get_be16 :: "byte list \<Rightarrow> 16 word" where
  "get_be16 bs = (case bs of [a, b] \<Rightarrow> push_bit 8 (ucast a) OR ucast b | _ \<Rightarrow> 0)"

subsection \<open>Handshake\<close>

text \<open>The part of \<open>ReadHandshake\<close> that decodes the payload of the frame.\<close>

definition parse_handshake :: "byte list \<Rightarrow> handshake result" where
  "parse_handshake payload =
     (case ReadVarInt payload of
        Inl _ \<Rightarrow> Inl (Errorf ''expected handshake packet'')
      | Inr (pid, p1) \<Rightarrow>
          if pid \<noteq> 0 then Inl (Errorf ''expected handshake packet'')
          else and_then (ReadVarInt p1) (\<lambda>(proto, p2).
            and_then (readString p2) (\<lambda>(host, p3).
              and_then (read_full 2 p3) (\<lambda>(port, p4).
                and_then (ReadVarInt p4) (\<lambda>(nxt, p5).
                  if nxt \<noteq> 1 \<and> nxt \<noteq> 2
                  then Inl (Errorf (''unsupported next state '' @ itoa (sint nxt)))
                  else Inr \<lparr>Protocol = proto, Host = host, Port = get_be16 port,
                            NextState = nxt, Frame = frame payload\<rparr>)))))"

definition ReadHandshake :: "byte list \<Rightarrow> (handshake \<times> byte list) result" where
  "ReadHandshake r =
     and_then (ReadVarInt r) (\<lambda>(n, r1).
       if sint n \<le> 0 \<or> sint n > sint maxPacket
       then Inl (Errorf (''invalid packet length '' @ itoa (sint n)))
       else and_then (read_full (unat n) r1) (\<lambda>(payload, r2).
         and_then (parse_handshake payload) (\<lambda>h. Inr (h, r2))))"

subsection \<open>Status and disconnect responses\<close>

definition status_body :: "int64 \<Rightarrow> string \<Rightarrow> string \<Rightarrow> int64 \<Rightarrow> int64 \<Rightarrow> json" where
  "status_body protocol versionName motd online mx =
     JObj [(''description'', JObj [(''text'', JStr motd)]),
           (''players'', JObj [(''max'', JNum (sint mx)), (''online'', JNum (sint online))]),
           (''version'', JObj [(''name'', JStr versionName), (''protocol'', JNum (sint protocol))])]"

text \<open>The echo of an optional ping, the last part of \<open>WriteStatus\<close>.\<close>

definition echo_ping :: "conn \<Rightarrow> conn \<times> go_error option" where
  "echo_ping c =
     (case ReadVarInt (conn_in c) of
        Inl _ \<Rightarrow> (c, None)
      | Inr (pingLen, r1) \<Rightarrow>
          if sint pingLen < 1 \<or> sint pingLen > 64 then (c\<lparr>conn_in := r1\<rparr>, None)
          else (case read_full (unat pingLen) r1 of
            Inl e \<Rightarrow> (c\<lparr>conn_in := []\<rparr>, Some e)
          | Inr (ping, r2) \<Rightarrow>
              (case conn_write (c\<lparr>conn_in := r2\<rparr>) (frame ping) of
                 Inl e \<Rightarrow> (c\<lparr>conn_in := r2\<rparr>, Some e)
               | Inr c' \<Rightarrow> (c', None))))"

definition WriteStatus ::
  "conn \<Rightarrow> int64 \<Rightarrow> string \<Rightarrow> string \<Rightarrow> int64 \<Rightarrow> int64 \<Rightarrow> conn \<times> go_error option" where
  "WriteStatus c protocol versionName motd online mx =
     (case ReadVarInt (conn_in c) of
        Inl e \<Rightarrow> (c, Some e)
      | Inr (n, r1) \<Rightarrow>
          if sint n < 1 \<or> sint n > sint maxPacket
          then (c\<lparr>conn_in := r1\<rparr>, Some (Errorf ''invalid status request''))
          else (case read_full (unat n) r1 of
            Inl e \<Rightarrow> (c\<lparr>conn_in := []\<rparr>, Some e)
          | Inr (req, r2) \<Rightarrow>
              (case ReadVarInt req of
                 Inl _ \<Rightarrow> (c\<lparr>conn_in := r2\<rparr>, Some (Errorf ''expected status request''))
               | Inr (pid, _) \<Rightarrow>
                   if pid \<noteq> 0 then (c\<lparr>conn_in := r2\<rparr>, Some (Errorf ''expected status request''))
                   else
                     let body = marshal (status_body protocol versionName motd online mx);
                         payload = WriteVarInt 0 @ writeString body
                     in (case conn_write (c\<lparr>conn_in := r2\<rparr>) (frame payload) of
                           Inl e \<Rightarrow> (c\<lparr>conn_in := r2\<rparr>, Some e)
                         | Inr c' \<Rightarrow> echo_ping c'))))"

definition WriteLoginDisconnect :: "conn \<Rightarrow> string \<Rightarrow> conn result" where
  "WriteLoginDisconnect c message =
     (let body = marshal (JObj [(''text'', JStr message)]);
          payload = WriteVarInt 0 @ writeString body
      in conn_write c (frame payload))"

subsection \<open>The status query\<close>

text \<open>The handshake payload a client sends, and the one \<open>QueryStatus\<close> sends.\<close>

definition client_handshake :: "int64 \<Rightarrow> string \<Rightarrow> 16 word \<Rightarrow> int64 \<Rightarrow> byte list" where
  "client_handshake proto host port nxt =
     WriteVarInt 0 @ WriteVarInt proto @ writeString host @ put_be16 port @ WriteVarInt nxt"

definition query_handshake :: "string \<Rightarrow> byte list" where
  "query_handshake host = client_handshake 767 host 25565 1"

text \<open>\<open>result.Players.Online\<close> of the decoded response.\<close>

definition players_online :: "json \<Rightarrow> int result" where
  "players_online j =
     decode_struct [(''players'', decode_struct [(''online'', set_int (\<lambda>i _. i))])] j 0"

definition QueryStatus :: "conn result \<Rightarrow> string \<Rightarrow> int result" where
  "QueryStatus dial host =
     and_then dial (\<lambda>c.
       and_then (conn_write c (frame (query_handshake host))) (\<lambda>c1.
         and_then (conn_write c1 [1, 0]) (\<lambda>c2.
           and_then (ReadVarInt (conn_in c2)) (\<lambda>(n, r1).
             if sint n \<le> 0 \<or> sint n > sint maxPacket then Inl (Errorf ''invalid response'')
             else and_then (read_full (unat n) r1) (\<lambda>(b, _).
               (case ReadVarInt b of
                  Inl _ \<Rightarrow> Inl (Errorf ''invalid response packet'')
                | Inr (pid, b1) \<Rightarrow>
                    if pid \<noteq> 0 then Inl (Errorf ''invalid response packet'')
                    else and_then (readString b1) (\<lambda>(s, _).
                      (case unmarshal s of
                         None \<Rightarrow> Inl (Errorf ''invalid character in JSON'')
                       | Some j \<Rightarrow> players_online j))))))))"

subsection \<open>VarInt lemmas\<close>

text \<open>
  The loops are related bit by bit: a byte carries seven bits of the value and a continuation bit.
\<close>

lemma bit_0x7f [simp]: "bit (0x7f :: int) n \<longleftrightarrow> n < 7"
proof -
  have "(0x7f :: int) = mask 7" by (simp add: mask_eq_exp_minus_1)
  then show ?thesis by (simp only: bit_mask_iff possible_bit_int simp_thms)
qed

lemma bit_0x80 [simp]: "bit (0x80 :: int) n \<longleftrightarrow> n = 7"
proof -
  have "(0x80 :: int) = 2 ^ 7" by simp
  then show ?thesis by (auto simp only: bit_exp_iff possible_bit_int)
qed

lemma group_bits:
  fixes u :: uint32
  shows "(ucast (u AND 0x7f) :: byte) AND 0x80 = 0"
    and "((ucast (u AND 0x7f) :: byte) OR 0x80) AND 0x80 \<noteq> 0"
    and "((ucast (u AND 0x7f) :: byte) OR 0x80) AND 0x7f = ucast (u AND 0x7f)"
    and "(ucast (u AND 0x7f) :: byte) AND 0x7f = ucast (u AND 0x7f)"
proof -
  show "(ucast (u AND 0x7f) :: byte) AND 0x80 = 0"
    by (rule bit_eqI) (auto simp: bit_simps)
  show "((ucast (u AND 0x7f) :: byte) OR 0x80) AND 0x80 \<noteq> 0"
  proof
    assume "((ucast (u AND 0x7f) :: byte) OR 0x80) AND 0x80 = 0"
    then have "bit (((ucast (u AND 0x7f) :: byte) OR 0x80) AND 0x80) 7 = bit (0::byte) 7"
      by simp
    then show False by (simp add: bit_simps)
  qed
  show "((ucast (u AND 0x7f) :: byte) OR 0x80) AND 0x7f = ucast (u AND 0x7f)"
    by (rule bit_eqI) (auto simp: bit_simps)
  show "(ucast (u AND 0x7f) :: byte) AND 0x7f = ucast (u AND 0x7f)"
    by (rule bit_eqI) (auto simp: bit_simps)
qed

lemma group_shift:
  fixes u :: uint32
  assumes "pos + 7 \<le> 35"
  shows "(val OR push_bit pos (ucast (ucast (u AND 0x7f) :: byte) :: int64))
           OR push_bit (pos + 7) (ucast (drop_bit 7 u)) = val OR push_bit pos (ucast u)"
    (is "?l = ?r")
proof (rule bit_eqI)
  fix n
  assume "possible_bit TYPE(int64) n"
  then have "n < 64" by simp
  consider "n < pos" | "pos \<le> n" "n < pos + 7" | m where "n = pos + 7 + m"
    by (metis le_iff_add not_less)
  then show "bit ?l n = bit ?r n"
    by cases (use \<open>n < 64\<close> in \<open>auto simp: bit_simps\<close>)
qed

lemma ReadVarInt_from_loop:
  assumes "k < 5" "unat u < 2 ^ (35 - 7 * k)"
  shows "ReadVarInt_from val (7 * k) (WriteVarInt_loop u @ r)
           = Inr (val OR push_bit (7 * k) (ucast u), r)"
  using assms
proof (induction u arbitrary: val k rule: WriteVarInt_loop.induct)
  case (1 u)
  define v' where "v' = val OR push_bit (7 * k) (ucast (ucast (u AND 0x7f) :: byte) :: int64)"
  have v': "v' OR push_bit (7 * k + 7) (ucast (drop_bit 7 u)) = val OR push_bit (7 * k) (ucast u)"
    unfolding v'_def by (rule group_shift) (use 1(2) in simp)
  show ?case
  proof (cases "drop_bit 7 u = 0")
    case True
    then have "WriteVarInt_loop u = [ucast (u AND 0x7f)]"
      by (subst WriteVarInt_loop.simps) (simp add: Let_def)
    with True 1(2) v' show ?thesis
      by (simp add: group_bits Let_def v'_def)
  next
    case False
    then have loop: "WriteVarInt_loop u = (ucast (u AND 0x7f) OR 0x80) # WriteVarInt_loop (drop_bit 7 u)"
      by (subst WriteVarInt_loop.simps) (simp add: Let_def)
    have div: "unat (drop_bit 7 u) = unat u div 128"
      by (simp only: unat_drop_bit_eq) (simp add: drop_bit_eq_div)
    have "unat (drop_bit 7 u) \<noteq> 0" using False by (simp add: unat_eq_0)
    then have "128 \<le> unat u" unfolding div by simp
    then have "k \<noteq> 4" using 1(3) by auto
    then have k: "k + 1 < 5" using 1(2) by simp
    then have e: "35 - 7 * k = (35 - 7 * (k + 1)) + 7" by simp
    have "(2::nat) ^ (35 - 7 * k) = 2 ^ (35 - 7 * (k + 1)) * 128"
      unfolding e power_add by simp
    then have small: "unat (drop_bit 7 u) < 2 ^ (35 - 7 * (k + 1))"
      using 1(3) unfolding div by (simp add: less_mult_imp_div_less)
    have "ReadVarInt_from val (7 * k) (WriteVarInt_loop u @ r)
            = ReadVarInt_from v' (7 * (k + 1)) (WriteVarInt_loop (drop_bit 7 u) @ r)"
      using 1(2) group_bits(2) [of u] by (simp add: loop group_bits(3) v'_def add.commute)
    also have "\<dots> = Inr (v' OR push_bit (7 * (k + 1)) (ucast (drop_bit 7 u)), r)"
      by (rule 1(1) [OF refl refl False k small])
    also have "7 * (k + 1) = 7 * k + 7" by simp
    finally show ?thesis unfolding v' .
  qed
qed

lemma ReadVarInt_WriteVarInt:
  "ReadVarInt (WriteVarInt v @ r) = Inr (ucast (ucast v :: uint32), r)"
proof -
  have "unat (ucast v :: uint32) < 2 ^ 32" using unsigned_less [of "ucast v :: uint32", where ?'a = nat] by simp
  then have "unat (ucast v :: uint32) < 2 ^ (35 - 7 * 0)" by simp
  then show ?thesis
    using ReadVarInt_from_loop [of 0 "ucast v" 0 r] by (simp add: ReadVarInt_def WriteVarInt_def)
qed

text \<open>What any input can decode to: at most 35 bits, so never negative as an \<open>int\<close>.\<close>

lemma unat_less_pow2I: "(\<And>n. k \<le> n \<Longrightarrow> \<not> bit w n) \<Longrightarrow> unat (w :: 'a::len word) < 2 ^ k"
proof -
  assume high: "\<And>n. k \<le> n \<Longrightarrow> \<not> bit w n"
  have "take_bit k w = w"
    using high by (intro bit_eqI) (auto simp: bit_simps, meson not_le)
  then have "take_bit k (unat w) = unat w" by (metis unsigned_take_bit_eq)
  then show ?thesis by (metis take_bit_nat_less_exp)
qed

lemma ReadVarInt_from_high_bits:
  assumes "ReadVarInt_from val pos r = Inr (v, r')" "\<And>n. pos \<le> n \<Longrightarrow> \<not> bit val n" "pos mod 7 = 0"
  shows "35 \<le> n \<Longrightarrow> \<not> bit v n"
  using assms
proof (induction val pos r arbitrary: n rule: ReadVarInt_from.induct)
  case (1 val pos)
  then show ?case by (simp split: if_splits)
next
  case (2 val pos b r)
  define val' where "val' = val OR push_bit pos (ucast (b AND 0x7f) :: int64)"
  have pos: "\<not> pos \<ge> 35" using 2(3) by (auto split: if_splits)
  have bits: "\<not> bit val' m" if "pos + 7 \<le> m" for m
    using that 2(4) [of m] by (auto simp: val'_def bit_simps)
  show ?case
  proof (cases "b AND 0x80 = 0")
    case True
    then have v: "v = val'" using 2(3) pos by (simp add: val'_def Let_def)
    have "pos \<le> 28" using pos 2(5) by presburger
    then show ?thesis unfolding v by (intro bits) (use 2(2) in simp)
  next
    case False
    then have rec: "ReadVarInt_from val' (pos + 7) r = Inr (v, r')"
      using 2(3) pos by (simp add: val'_def Let_def)
    have "(pos + 7) mod 7 = 0" using 2(5) by simp
    then show ?thesis
      using 2(1) [OF pos val'_def False 2(2) rec bits] by simp
  qed
qed

lemma ReadVarInt_bound: "ReadVarInt r = Inr (v, r') \<Longrightarrow> unat v < 2 ^ 35"
  by (rule unat_less_pow2I) (auto simp: ReadVarInt_def dest: ReadVarInt_from_high_bits)

lemma uint_less_of_unat: "unat (v :: 'a::len word) < 2 ^ k \<Longrightarrow> uint v < 2 ^ k"
proof -
  assume "unat v < 2 ^ k"
  then have "int (unat v) < int (2 ^ k)" by (simp only: of_nat_less_iff)
  then show ?thesis by simp
qed

lemma sint_of_unat:
  assumes "unat (v :: int64) < 2 ^ 63" shows "sint v = uint v"
proof -
  have "uint v < 2 ^ 63" using assms by (rule uint_less_of_unat)
  moreover have "- (2 ^ 63) \<le> uint v" by (rule order.trans [of _ 0]) simp_all
  ultimately have "signed_take_bit 63 (uint v) = uint v" by (intro signed_take_bit_int_eq_self) simp_all
  then show ?thesis by (simp add: sint_uint)
qed

lemma sint_ReadVarInt: "ReadVarInt r = Inr (v, r') \<Longrightarrow> sint v = uint v \<and> uint v < 2 ^ 35"
proof -
  assume "ReadVarInt r = Inr (v, r')"
  then have b: "unat v < 2 ^ 35" by (rule ReadVarInt_bound)
  then have "unat v < 2 ^ 63" by simp
  with b show ?thesis by (auto simp only: sint_of_unat intro: uint_less_of_unat)
qed

subsection \<open>Strings, frames and handshakes\<close>

lemma sint_maxPacket: "sint maxPacket = 2097152"
  by (simp add: maxPacket_def)

lemma unat_go_len: "length xs < 2 ^ 64 \<Longrightarrow> unat (go_len xs) = length xs"
  by (simp add: go_len_def unat_of_nat)

lemma sint_go_len: "length xs < 2 ^ 63 \<Longrightarrow> sint (go_len xs) = int (length xs)"
proof -
  assume len: "length xs < 2 ^ 63"
  then have "unat (go_len xs) = length xs" by (intro unat_go_len) simp
  moreover from this len have "sint (go_len xs) = uint (go_len xs)" by (intro sint_of_unat) simp
  ultimately show ?thesis by (metis of_nat_unat)
qed

lemma ucast_go_len:
  "length xs < 2 ^ 32 \<Longrightarrow> ucast (ucast (go_len xs) :: uint32) = go_len xs"
proof -
  assume len: "length xs < 2 ^ 32"
  have "unat (ucast (ucast (go_len xs) :: uint32) :: int64) = unat (go_len xs)"
    using len by (simp add: unsigned_ucast_eq unsigned_take_bit_eq unat_go_len take_bit_nat_eq_self)
  then show ?thesis by (rule unsigned_word_eqI)
qed

lemma ReadVarInt_go_len:
  "length xs < 2 ^ 32 \<Longrightarrow> ReadVarInt (WriteVarInt (go_len xs) @ r) = Inr (go_len xs, r)"
  by (simp add: ReadVarInt_WriteVarInt ucast_go_len)

lemma readString_writeString [io_simps]:
  "length s \<le> 32767 \<Longrightarrow> readString (writeString s @ r) = Inr (s, r)"
  by (simp add: readString_def writeString_def ReadVarInt_go_len unat_go_len sint_go_len
        read_full_append')

lemma length_WriteVarInt_loop: "unat u < 2 ^ (7 * k) \<Longrightarrow> 0 < k \<Longrightarrow> length (WriteVarInt_loop u) \<le> k"
proof (induction k arbitrary: u)
  case (Suc k)
  show ?case
  proof (cases "drop_bit 7 u = 0")
    case True
    then show ?thesis by (subst WriteVarInt_loop.simps) (simp add: Let_def)
  next
    case False
    have div: "unat (drop_bit 7 u) = unat u div 128"
      by (simp only: unat_drop_bit_eq) (simp add: drop_bit_eq_div)
    have small: "unat (drop_bit 7 u) < 2 ^ (7 * k)"
      using Suc.prems(1) unfolding div by (simp add: less_mult_imp_div_less power_add mult.commute)
    have "0 < k" using small False by (cases k) (auto simp: unat_eq_0)
    with Suc.IH [OF small] False show ?thesis
      by (subst WriteVarInt_loop.simps) (simp add: Let_def)
  qed
qed simp

lemma length_WriteVarInt: "length (WriteVarInt v) \<le> 5"
proof -
  have "unat (ucast v :: uint32) < 2 ^ 32"
    using unsigned_less [of "ucast v :: uint32", where ?'a = nat] by simp
  then show ?thesis unfolding WriteVarInt_def by (intro length_WriteVarInt_loop) simp_all
qed

lemma WriteVarInt_not_Nil [simp]: "WriteVarInt v \<noteq> []"
  unfolding WriteVarInt_def by (subst WriteVarInt_loop.simps) (simp add: Let_def)

lemma get_put_be16 [simp]: "get_be16 (put_be16 w) = w"
proof -
  have "push_bit 8 (ucast (ucast (drop_bit 8 w) :: byte)) OR ucast (ucast w :: byte) = w"
  proof (rule bit_eqI)
    fix n
    assume "possible_bit TYPE(16 word) n"
    then show "bit (push_bit 8 (ucast (ucast (drop_bit 8 w) :: byte)) OR ucast (ucast w :: byte) :: 16 word) n
                 = bit w n"
      by (cases "n < 8") (auto simp: bit_simps)
  qed
  then show ?thesis by (simp add: get_be16_def put_be16_def)
qed

text \<open>A frame whose payload fits is read back whole, whatever follows it.\<close>

lemma ReadHandshake_frame:
  assumes "payload \<noteq> []" "length payload \<le> 2097152"
  shows "ReadHandshake (frame payload @ r) = and_then (parse_handshake payload) (\<lambda>h. Inr (h, r))"
  using assms
  by (simp add: ReadHandshake_def frame_def ReadVarInt_go_len sint_go_len unat_go_len
        sint_maxPacket read_full_append')

lemma ReadVarInt_from_suffix: "ReadVarInt_from val pos r = Inr (v, r') \<Longrightarrow> \<exists>pre. r = pre @ r'"
proof (induction val pos r rule: ReadVarInt_from.induct)
  case (2 val pos b r)
  then have "r' = r \<or> (\<exists>pre. r = pre @ r')"
    by (auto simp: Let_def split: if_splits)
  then show ?case by (metis append_Cons append_Nil)
qed (simp split: if_splits)

lemma ReadHandshake_InrD:
  assumes "ReadHandshake r = Inr (h, r2)"
  obtains payload pre where "r = pre @ payload @ r2" "payload \<noteq> []" "length payload \<le> 2097152"
    "parse_handshake payload = Inr h" "Frame h = frame payload"
proof -
  from assms obtain n r1 payload where
    n: "ReadVarInt r = Inr (n, r1)" "0 < sint n" "sint n \<le> 2097152"
    and full: "read_full (unat n) r1 = Inr (payload, r2)"
    and ph: "parse_handshake payload = Inr h"
    by (auto simp: ReadHandshake_def and_then_eq_Inr sint_maxPacket split: if_splits prod.splits)
  have "sint n = uint n" using sint_ReadVarInt [OF n(1)] by simp
  with n have "0 < uint n" "uint n \<le> 2097152" by simp_all
  then have "0 < nat (uint n)" "nat (uint n) \<le> 2097152" by linarith+
  then have un: "0 < unat n" "unat n \<le> 2097152" by (simp_all only: nat_uint_eq)
  from read_full_InrD [OF full] have pl: "r1 = payload @ r2" "length payload = unat n" by auto
  from n(1) obtain pre where "r = pre @ r1"
    by (auto simp: ReadVarInt_def dest: ReadVarInt_from_suffix)
  moreover have "Frame h = frame payload"
    using ph by (auto simp: parse_handshake_def and_then_eq_Inr split: sum.splits if_splits prod.splits)
  ultimately show thesis using un pl ph by (intro that [of pre payload]) auto
qed

lemma ReadVarInt_const:
  "ReadVarInt (WriteVarInt 0 @ r) = Inr (0, r)"
  "ReadVarInt (WriteVarInt 1 @ r) = Inr (1, r)"
  "ReadVarInt (WriteVarInt 767 @ r) = Inr (767, r)"
  by (simp_all add: ReadVarInt_WriteVarInt)

lemma parse_handshake_client:
  assumes "ucast (ucast proto :: uint32) = proto" "length host \<le> 32767" "nxt = 1 \<or> nxt = 2"
  shows "parse_handshake (client_handshake proto host port nxt)
           = Inr \<lparr>Protocol = proto, Host = host, Port = port, NextState = nxt,
                  Frame = frame (client_handshake proto host port nxt)\<rparr>"
proof -
  have nxt: "ReadVarInt (WriteVarInt nxt) = Inr (nxt, [])"
    using assms(3) ReadVarInt_WriteVarInt [of nxt "[]"] by auto
  have port: "read_full 2 (put_be16 port @ r) = Inr (put_be16 port, r)" for r :: "byte list"
    by (rule read_full_append') (simp add: put_be16_def)
  have "ReadVarInt (WriteVarInt proto @ r) = Inr (proto, r)" for r
    by (simp add: ReadVarInt_WriteVarInt assms(1))
  with assms(2,3) show ?thesis
    by (auto simp: parse_handshake_def client_handshake_def ReadVarInt_const readString_writeString
          port nxt)
qed

lemma length_client_handshake:
  "length host \<le> 32767 \<Longrightarrow> length (client_handshake proto host port nxt) \<le> 2097152"
  using length_WriteVarInt [of 0] length_WriteVarInt [of proto] length_WriteVarInt [of nxt]
    length_WriteVarInt [of "go_len host"]
  by (simp add: client_handshake_def writeString_def put_be16_def)

lemma client_handshake_not_Nil [simp]: "client_handshake proto host port nxt \<noteq> []"
  by (simp add: client_handshake_def)

lemma ReadHandshake_client:
  assumes "ucast (ucast proto :: uint32) = proto" "length host \<le> 32767" "nxt = 1 \<or> nxt = 2"
  shows "ReadHandshake (frame (client_handshake proto host port nxt) @ r)
           = Inr (\<lparr>Protocol = proto, Host = host, Port = port, NextState = nxt,
                   Frame = frame (client_handshake proto host port nxt)\<rparr>, r)"
  using assms by (simp add: ReadHandshake_frame length_client_handshake parse_handshake_client)

text \<open>What the status request and response of one exchange look like.\<close>

definition status_reply :: "int64 \<Rightarrow> string \<Rightarrow> string \<Rightarrow> int64 \<Rightarrow> int64 \<Rightarrow> byte list" where
  "status_reply protocol versionName motd online mx =
     frame (WriteVarInt 0 @ writeString (marshal (status_body protocol versionName motd online mx)))"

lemma WriteStatus_request:
  "WriteStatus \<lparr>conn_in = [1, 0], conn_out = out, conn_writes = Suc k\<rparr> protocol versionName motd online mx
     = (\<lparr>conn_in = [], conn_out = out @ status_reply protocol versionName motd online mx, conn_writes = k\<rparr>, None)"
proof -
  have "ReadVarInt [1, 0] = Inr (1, [0])" "ReadVarInt [0] = Inr (0, [])" "ReadVarInt [] = Inl EOF"
    by (simp_all add: ReadVarInt_def)
  then show ?thesis
    by (simp add: WriteStatus_def sint_maxPacket read_full_def conn_write_def echo_ping_def
          status_reply_def Let_def)
qed

lemma players_online_status_body:
  "players_online (status_body protocol versionName motd online mx) = Inr (sint online)"
proof -
  have r: "- (2 ^ 63) \<le> sint online" "sint online < 2 ^ 63"
    using sint_ge [of online] sint_lt [of online] by simp_all
  have f: "fold_name ''description'' \<noteq> fold_name ''players''"
    "fold_name ''version'' \<noteq> fold_name ''players''" "fold_name ''max'' \<noteq> fold_name ''online''"
    by code_simp+
  show ?thesis
    using r f by (simp add: players_online_def status_body_def decode_struct_def find_field_def set_int_def)
qed

lemma QueryStatus_reply:
  assumes "ok_json (status_body protocol versionName motd online mx)"
    "length (marshal (status_body protocol versionName motd online mx)) \<le> 32767" "2 \<le> k"
  shows "QueryStatus (Inr \<lparr>conn_in = status_reply protocol versionName motd online mx @ rest,
                          conn_out = out, conn_writes = k\<rparr>) host = Inr (sint online)"
proof -
  define body where "body = marshal (status_body protocol versionName motd online mx)"
  define b where "b = WriteVarInt 0 @ writeString body"
  have len: "length b \<le> 2097152"
    using assms(2) length_WriteVarInt [of 0] length_WriteVarInt [of "go_len body"]
    by (simp add: b_def body_def writeString_def)
  have ne: "b \<noteq> []" by (simp add: b_def)
  have un: "unmarshal body = Some (status_body protocol versionName motd online mx)"
    unfolding body_def by (rule unmarshal_marshal [OF assms(1)])
  have rs: "readString (writeString body @ []) = Inr (body, [])"
    by (rule readString_writeString) (use assms(2) in \<open>simp add: body_def\<close>)
  obtain k' where k: "k = Suc (Suc k')" using assms(3) by (metis Suc_le_D numeral_2_eq_2 Suc_le_mono)
  show ?thesis
    using len ne un rs
    by (simp add: QueryStatus_def k conn_write_def status_reply_def frame_def ReadVarInt_go_len
          sint_go_len unat_go_len sint_maxPacket read_full_append' ReadVarInt_const
          players_online_status_body flip: body_def b_def) (simp add: b_def ReadVarInt_const players_online_status_body)
qed

subsection \<open>Properties\<close>

text \<open>
  VarInts: what \<open>WriteVarInt\<close> writes, \<open>ReadVarInt\<close> reads back up to the conversion to
  \<open>uint32\<close> that \<open>WriteVarInt\<close> starts with, leaving the following bytes unread; and whatever bytes
  a peer sends, a VarInt that is accepted is a value of at most 35 bits, so the comparison with 0
  in \<open>readString\<close> and the packet readers never sees a negative number.
\<close>

theorem varint_round_trip:
  "ReadVarInt (WriteVarInt v @ r) = Inr (ucast (ucast v :: uint32), r)
   \<and> (ReadVarInt bs = Inr (x, rest) \<longrightarrow> 0 \<le> sint x \<and> sint x < 2 ^ 35)"
proof -
  have "0 \<le> sint x \<and> sint x < 2 ^ 35" if "ReadVarInt bs = Inr (x, rest)"
    using sint_ReadVarInt [OF that] uint_ge_0 [of x] by simp
  then show ?thesis by (simp add: ReadVarInt_WriteVarInt)
qed

theorem varint_round_trip_witness:
  "ReadVarInt (WriteVarInt 300 @ [7]) = Inr (300, [7]) \<and> ReadVarInt [0xAC, 2] = Inr (300, [])
   \<and> 0 \<le> sint (300 :: int64)"
proof -
  have a: "ReadVarInt [0xAC, 2] = Inr (300, [])" by (simp add: ReadVarInt_def)
  show ?thesis
    using varint_round_trip [of 300 "[7]" "[0xAC, 2]" 300 "[]"] a by simp
qed

text \<open>
  C32. A handshake as clients and \<open>QueryStatus\<close> send it is decoded to exactly its fields, the
  forwarded \<open>Frame\<close> is the frame that was sent, and the bytes after it stay in the reader.
\<close>

theorem handshake_round_trip:
  assumes "ucast (ucast proto :: uint32) = proto" "length host \<le> 32767" "nxt = 1 \<or> nxt = 2"
  shows "ReadHandshake (frame (client_handshake proto host port nxt) @ r)
           = Inr (\<lparr>Protocol = proto, Host = host, Port = port, NextState = nxt,
                   Frame = frame (client_handshake proto host port nxt)\<rparr>, r)"
  using assms by (rule ReadHandshake_client)

theorem handshake_round_trip_witness:
  "ReadHandshake (frame (client_handshake 767 ''alpha.mc.example.com'' 25565 2) @ [1, 0])
     = Inr (\<lparr>Protocol = 767, Host = ''alpha.mc.example.com'', Port = 25565, NextState = 2,
             Frame = frame (client_handshake 767 ''alpha.mc.example.com'' 25565 2)\<rparr>, [1, 0])"
  by (rule handshake_round_trip) simp_all

text \<open>
  Whatever bytes a client sent, if the router accepts them as a handshake then the \<open>Frame\<close> it
  forwards to the Java server decodes to the same handshake and to nothing more: re-framing the
  payload neither loses nor adds information, even if the client's length prefix was not minimal.
\<close>

theorem handshake_forwarding:
  assumes "ReadHandshake r = Inr (h, rest)"
  shows "ReadHandshake (Frame h @ rest') = Inr (h, rest')"
proof -
  from assms obtain payload pre where
    "payload \<noteq> []" "length payload \<le> 2097152" "parse_handshake payload = Inr h" "Frame h = frame payload"
    by (rule ReadHandshake_InrD)
  then show ?thesis by (simp add: ReadHandshake_frame)
qed

theorem handshake_forwarding_witness:
  "\<exists>h rest. ReadHandshake [0x87, 0, 0, 1, 1, 0x61, 0x63, 0xDD, 2, 9] = Inr (h, rest)
     \<and> ReadHandshake (Frame h @ [5]) = Inr (h, [5])"
proof -
  have "\<exists>h rest. ReadHandshake [0x87, 0, 0, 1, 1, 0x61, 0x63, 0xDD, 2, 9] = Inr (h, rest)"
    by (simp add: ReadHandshake_def parse_handshake_def readString_def ReadVarInt_def read_full_def
          sint_maxPacket)
  then show ?thesis using handshake_forwarding by blast
qed

text \<open>
  The status protocol end to end: the router decodes the query the supervisor's
  \<open>QueryStatus\<close> sends as a status handshake for that host, answers the pipelined request, and
  \<open>QueryStatus\<close> reads from the answer exactly the player count that was put into it, for every
  message and version text of valid UTF-8 whose response fits the string limit.
\<close>

theorem status_query_round_trip:
  assumes "length host \<le> 32767" "valid_utf8 versionName" "valid_utf8 motd"
    "length (marshal (status_body 767 versionName motd online mx)) \<le> 32767"
  shows "\<exists>h r c. ReadHandshake (frame (query_handshake host) @ [1, 0]) = Inr (h, r)
           \<and> Host h = host \<and> NextState h = 1
           \<and> WriteStatus \<lparr>conn_in = r, conn_out = [], conn_writes = 1\<rparr> (Protocol h) versionName motd online mx = (c, None)
           \<and> QueryStatus (Inr \<lparr>conn_in = conn_out c, conn_out = [], conn_writes = 2\<rparr>) host = Inr (sint online)"
proof -
  have "ok_json (status_body 767 versionName motd online mx)"
    using assms(2,3) by (simp add: status_body_def is_ascii_valid_utf8 code_of_def)
  then have "QueryStatus (Inr \<lparr>conn_in = status_reply 767 versionName motd online mx @ [], conn_out = [],
       conn_writes = 2\<rparr>) host = Inr (sint online)"
    using assms(4) by (intro QueryStatus_reply) simp_all
  then show ?thesis
    using assms(1) by (simp add: query_handshake_def ReadHandshake_client WriteStatus_request)
qed

theorem status_query_round_trip_witness:
  "\<exists>h r c. ReadHandshake (frame (query_handshake ''alpha.mc.example.com'') @ [1, 0]) = Inr (h, r)
     \<and> Host h = ''alpha.mc.example.com'' \<and> NextState h = 1
     \<and> WriteStatus \<lparr>conn_in = r, conn_out = [], conn_writes = 1\<rparr> (Protocol h) ''Paper'' ''up'' 3 20 = (c, None)
     \<and> QueryStatus (Inr \<lparr>conn_in = conn_out c, conn_out = [], conn_writes = 2\<rparr>) ''alpha.mc.example.com'' = Inr 3"
proof -
  have "length (marshal (status_body 767 ''Paper'' ''up'' 3 20)) \<le> 32767" by code_simp
  then show ?thesis
    using status_query_round_trip [of "''alpha.mc.example.com''" "''Paper''" "''up''" 3 20]
    by (simp add: code_of_def)
qed

text \<open>
  A negative protocol number does not survive: the unsigned 35-bit accumulator turns the five-byte
  encoding of \<open>-1\<close> into 4294967295, which is what the status response then reports.
\<close>

theorem varint_minus_one: "ReadVarInt (WriteVarInt (-1)) = Inr (4294967295, [])"
proof -
  have "ucast (ucast (-1 :: int64) :: uint32) = (4294967295 :: int64)" by code_simp
  then show ?thesis using ReadVarInt_WriteVarInt [of "-1" "[]"] by simp
qed

end
