(* ===== verification/Sha256.thy ===== *)
theory Sha256
  imports Go_Strings
begin

text \<open>
  SHA-256 and hexadecimal encoding, as the program uses them through Go's \<open>crypto/sha256\<close> and
  \<open>encoding/hex\<close>: pack identity digests in the lock file and checksums of backup archives. The
  functions are written out (FIPS 180-4), so that digests of concrete inputs can be computed;
  no theorem assumes that the hash is free of collisions.
\<close>

definition rotr :: "nat \<Rightarrow> uint32 \<Rightarrow> uint32" where
  "rotr n w = (drop_bit n w OR push_bit (32 - n) w)"

definition small_sigma0 :: "uint32 \<Rightarrow> uint32" where
  "small_sigma0 x = (rotr 7 x XOR rotr 18 x XOR drop_bit 3 x)"

definition small_sigma1 :: "uint32 \<Rightarrow> uint32" where
  "small_sigma1 x = (rotr 17 x XOR rotr 19 x XOR drop_bit 10 x)"

definition big_sigma0 :: "uint32 \<Rightarrow> uint32" where
  "big_sigma0 x = (rotr 2 x XOR rotr 13 x XOR rotr 22 x)"

definition big_sigma1 :: "uint32 \<Rightarrow> uint32" where
  "big_sigma1 x = (rotr 6 x XOR rotr 11 x XOR rotr 25 x)"

definition ch_fun :: "uint32 \<Rightarrow> uint32 \<Rightarrow> uint32 \<Rightarrow> uint32" where
  "ch_fun x y z = ((x AND y) XOR (NOT x AND z))"

definition maj_fun :: "uint32 \<Rightarrow> uint32 \<Rightarrow> uint32 \<Rightarrow> uint32" where
  "maj_fun x y z = ((x AND y) XOR (x AND z) XOR (y AND z))"

text \<open>
  The round constants and the initial state, in decimal: the first 32 bits of the fractional parts of
  the cube roots of the first 64 primes, and of the square roots of the first 8.
\<close>

definition sha_k :: "uint32 list" where
  "sha_k =
     [1116352408, 1899447441, 3049323471, 3921009573, 961987163, 1508970993, 2453635748, 2870763221,
      3624381080, 310598401, 607225278, 1426881987, 1925078388, 2162078206, 2614888103, 3248222580,
      3835390401, 4022224774, 264347078, 604807628, 770255983, 1249150122, 1555081692, 1996064986,
      2554220882, 2821834349, 2952996808, 3210313671, 3336571891, 3584528711, 113926993, 338241895,
      666307205, 773529912, 1294757372, 1396182291, 1695183700, 1986661051, 2177026350, 2456956037,
      2730485921, 2820302411, 3259730800, 3345764771, 3516065817, 3600352804, 4094571909, 275423344,
      430227734, 506948616, 659060556, 883997877, 958139571, 1322822218, 1537002063, 1747873779,
      1955562222, 2024104815, 2227730452, 2361852424, 2428436474, 2756734187, 3204031479, 3329325298]"

definition sha_init :: "uint32 list" where
  "sha_init =
     [1779033703, 3144134277, 1013904242, 2773480762, 1359893119, 2600822924, 528734635, 1541459225]"

text \<open>The message schedule, newest word first while it is built.\<close>

fun extend_schedule :: "nat \<Rightarrow> uint32 list \<Rightarrow> uint32 list" where
  "extend_schedule 0 ws = ws"
| "extend_schedule (Suc n) ws =
     extend_schedule n
       ((small_sigma1 (ws ! 1) + ws ! 6 + small_sigma0 (ws ! 14) + ws ! 15) # ws)"

definition schedule :: "uint32 list \<Rightarrow> uint32 list" where
  "schedule block = rev (extend_schedule 48 (rev block))"

fun sha_round :: "uint32 \<times> uint32 \<Rightarrow> uint32 list \<Rightarrow> uint32 list" where
  "sha_round (k, w) [a, b, c, d, e, f, g, h] =
     (let t1 = h + big_sigma1 e + ch_fun e f g + k + w;
          t2 = big_sigma0 a + maj_fun a b c
      in [t1 + t2, a, b, c, d + t1, e, f, g])"
| "sha_round kw st = st"

definition compress :: "uint32 list \<Rightarrow> uint32 list \<Rightarrow> uint32 list" where
  "compress block st = map2 (+) st (fold sha_round (zip sha_k (schedule block)) st)"

fun words_of_bytes :: "byte list \<Rightarrow> uint32 list" where
  "words_of_bytes (a # b # c # d # r) =
     (push_bit 24 (ucast a) OR push_bit 16 (ucast b) OR push_bit 8 (ucast c) OR ucast d)
       # words_of_bytes r"
| "words_of_bytes _ = []"

definition bytes_of_word :: "uint32 \<Rightarrow> byte list" where
  "bytes_of_word w = [ucast (drop_bit 24 w), ucast (drop_bit 16 w), ucast (drop_bit 8 w), ucast w]"

definition sha_pad :: "byte list \<Rightarrow> byte list" where
  "sha_pad m =
     (let n = length m; z = (119 - n mod 64) mod 64; bits = (word_of_nat (8 * n) :: uint64)
      in m @ [0x80] @ replicate z 0
           @ bytes_of_word (ucast (drop_bit 32 bits)) @ bytes_of_word (ucast bits))"

function blocks :: "'a list \<Rightarrow> 'a list list" where
  "blocks xs = (if length xs < 16 then [] else take 16 xs # blocks (drop 16 xs))"
  by pat_completeness auto
termination by (relation "measure length") auto

declare blocks.simps [simp del]

text \<open>\<open>sha256.Sum256\<close>.\<close>

definition sha256 :: "byte list \<Rightarrow> byte list" where
  "sha256 m =
     concat (map bytes_of_word (fold compress (blocks (words_of_bytes (sha_pad m))) sha_init))"

text \<open>\<open>hex.EncodeToString\<close>.\<close>

definition hex_encode :: "byte list \<Rightarrow> string" where
  "hex_encode bs = concat (map (\<lambda>b. [hex_digit (unat b div 16), hex_digit (unat b mod 16)]) bs)"

definition sha256_hex :: "byte list \<Rightarrow> string" where
  "sha256_hex m = hex_encode (sha256 m)"

lemma length_sha_round: "length st = 8 \<Longrightarrow> length (sha_round kw st) = 8"
  by (induction kw st rule: sha_round.induct) (auto simp: Let_def)

lemma length_fold_sha_round: "length st = 8 \<Longrightarrow> length (fold sha_round kws st) = 8"
  by (induction kws arbitrary: st) (auto simp: length_sha_round)

lemma length_compress: "length st = 8 \<Longrightarrow> length (compress b st) = 8"
  by (simp add: compress_def length_fold_sha_round)

lemma length_fold_compress: "length st = 8 \<Longrightarrow> length (fold compress bs st) = 8"
  by (induction bs arbitrary: st) (auto simp: length_compress)

lemma length_sha256: "length (sha256 m) = 32"
proof -
  have "length (concat (map bytes_of_word ws)) = 4 * length ws" for ws
    by (induction ws) (auto simp: bytes_of_word_def)
  then show ?thesis by (simp add: sha256_def length_fold_compress sha_init_def)
qed

lemma length_sha256_hex [simp]: "length (sha256_hex m) = 64"
proof -
  have "length (hex_encode bs) = 2 * length bs" for bs
    by (induction bs) (auto simp: hex_encode_def)
  then show ?thesis by (simp add: sha256_hex_def length_sha256)
qed

lemma is_ascii_sha256_hex: "is_ascii (sha256_hex m)"
proof -
  have h: "code_of (hex_digit d) < 128" if "d < 16" for d
    using that by (simp add: hex_digit_def)
  have "unat b div 16 < 16" "unat b mod 16 < 16" for b :: byte
    using unsigned_less [of b, where ?'a = nat] by (simp_all add: less_mult_imp_div_less)
  with h have "is_ascii (hex_encode bs)" for bs
    by (induction bs) (simp_all add: hex_encode_def)
  then show ?thesis by (simp add: sha256_hex_def)
qed

end
