(* ===== verification/Config.thy ===== *)
theory Config
  imports Go_Json Sha256 "HOL-Library.Multiset"
begin

text \<open>
  The pack registry of \<open>internal/config/config.go\<close>: the configuration types, \<open>Validate\<close>,
  hostname routing (\<open>PackForHost\<close>) and the digest of the immutable fields.

  A Go map is an association list with distinct keys; its order is the (arbitrary) order in which
  \<open>range\<close> visits it. Decoding YAML is done by a third-party package and is not modelled: the
  functions start from a decoded \<open>config\<close>. Numbers decoded into Go's \<open>int\<close> are \<open>int\<close>s of its
  range; the one addition on them wraps as Go's does.
\<close>

record pack =
  DisplayName :: string
  PackURL :: string
  Provider :: string
  ProjectID :: string
  VersionID :: string
  FileID :: int
  Java :: int
  MemoryMB :: int
  MachineMemoryMB :: int
  MachineCPUs :: int
  ModrinthExcludeFiles :: "string list"

record runtime_config =
  StartupWait :: int
  StartupTimeout :: int
  StatusIdleExit :: int
  EmptyBeforeSwitch :: int
  IdleBeforeStop :: int
  BackendPollInterval :: int
  ShutdownTimeout :: int
  MaxConnections :: int
  ConnectionsPerMinute :: int
  ListenAddress :: string
  BackendAddress :: string
  WebListenAddress :: string

record capacity =
  cap_MemoryMB :: int
  cap_CPUs :: int

record s3_config =
  Endpoint :: string
  Bucket :: string
  S3Prefix :: string
  Region :: string
  Secure :: "bool option"

record storage_config =
  Driver :: string
  EvictAfterBackup :: bool
  FilesystemRoot :: string
  S3 :: s3_config
  RcloneRemote :: string

record config =
  Schema :: int
  Domain :: string
  Runtime :: runtime_config
  Capacity :: capacity
  Storage :: storage_config
  Packs :: "(string \<times> pack) list"

definition pack_of :: "config \<Rightarrow> string \<Rightarrow> pack option" where
  "pack_of c i = map_of (Packs c) i"

subsection \<open>DNS labels\<close>

definition is_alnum :: "char \<Rightarrow> bool" where
  "is_alnum c = (97 \<le> code_of c \<and> code_of c \<le> 122 \<or> 48 \<le> code_of c \<and> code_of c \<le> 57)"

text \<open>The regular expression \<open>^[a-z0-9](?:[a-z0-9-]{0,61}[a-z0-9])?$\<close>.\<close>

definition dnsLabel :: "string \<Rightarrow> bool" where
  "dnsLabel s =
     (s \<noteq> [] \<and> length s \<le> 63 \<and> is_alnum (hd s) \<and> is_alnum (last s)
      \<and> list_all (\<lambda>c. is_alnum c \<or> c = CHR ''-'') s)"

subsection \<open>Validation\<close>

definition problem :: "bool \<Rightarrow> string \<Rightarrow> string list" where
  "problem b msg = (if b then [msg] else [])"

text \<open>Two's complement addition of Go's 64-bit \<open>int\<close>.\<close>

definition add64 :: "int \<Rightarrow> int \<Rightarrow> int" where
  "add64 a b = signed_take_bit 63 (a + b)"

definition normalize_domain :: "unicode \<Rightarrow> string \<Rightarrow> string" where
  "normalize_domain u d = ToLower u (TrimSuffix (TrimSpace u d) ''.'')"

definition storage_problems :: "storage_config \<Rightarrow> string list" where
  "storage_problems s =
     (if Driver s = ''filesystem'' then
        problem (FilesystemRoot s = []) ''storage.filesystem.root is required''
        @ problem (EvictAfterBackup s) ''storage.evict_after_backup requires s3 or rclone storage''
      else if Driver s = ''s3'' then
        problem (Endpoint (S3 s) = [] \<or> Bucket (S3 s) = []) ''storage.s3 endpoint and bucket are required''
      else if Driver s = ''rclone'' then
        problem (RcloneRemote s = []) ''storage.rclone.remote is required''
      else [''storage.driver must be filesystem, s3, or rclone''])"

definition runtime_problems :: "runtime_config \<Rightarrow> string list" where
  "runtime_problems r =
     problem (StartupWait r \<le> 0 \<or> StartupTimeout r \<le> 0 \<or> StatusIdleExit r \<le> 0 \<or> EmptyBeforeSwitch r \<le> 0
              \<or> IdleBeforeStop r \<le> 0 \<or> BackendPollInterval r \<le> 0 \<or> ShutdownTimeout r \<le> 0)
       ''all runtime durations must be positive''
     @ problem (ListenAddress r = [] \<or> BackendAddress r = [] \<or> WebListenAddress r = [])
       ''runtime listen, backend, and web listen addresses are required''
     @ problem (MaxConnections r \<le> 0 \<or> ConnectionsPerMinute r \<le> 0)
       ''connection limits must be positive''"

definition provider_problems :: "string \<Rightarrow> pack \<Rightarrow> string list" where
  "provider_problems q p =
     (if Provider p = ''modrinth'' then
        problem (VersionID p = [] \<or> FileID p \<noteq> 0) (''pack '' @ q @ '' requires version_id and no file_id'')
      else if Provider p = ''curseforge'' then
        problem (FileID p \<le> 0 \<or> VersionID p \<noteq> []) (''pack '' @ q @ '' requires file_id and no version_id'')
        @ problem (ModrinthExcludeFiles p \<noteq> [])
            (''pack '' @ q @ '' modrinth_exclude_files requires the modrinth provider'')
      else [''pack '' @ q @ '' has unsupported provider''])"

definition bad_pattern :: "unicode \<Rightarrow> string \<Rightarrow> bool" where
  "bad_pattern u s =
     (TrimSpace u s = [] \<or> list_ex (\<lambda>c. c = CHR '','' \<or> code_of c = 13 \<or> code_of c = 10) s)"

definition pack_problems :: "unicode \<Rightarrow> capacity \<Rightarrow> string \<times> pack \<Rightarrow> string list" where
  "pack_problems u cap ip =
     (let q = Quote u (fst ip); p = snd ip in
        problem (\<not> dnsLabel (fst ip)) (''pack '' @ q @ '' is not a lowercase DNS label'')
      @ problem (DisplayName p = [] \<or> ProjectID p = [])
          (''pack '' @ q @ '' requires display_name and project_id'')
      @ problem (Java p \<noteq> 17 \<and> Java p \<noteq> 21) (''pack '' @ q @ '' java must be 17 or 21'')
      @ problem (MemoryMB p \<le> 0) (''pack '' @ q @ '' memory_mb must be positive'')
      @ problem (MachineMemoryMB p \<le> 0 \<or> MachineMemoryMB p > cap_MemoryMB cap \<or> MachineMemoryMB p mod 256 \<noteq> 0)
          (''pack '' @ q @ '' machine_memory_mb must be a multiple of 256 that fits capacity'')
      @ problem (add64 (MemoryMB p) 256 > MachineMemoryMB p)
          (''pack '' @ q @ '' machine_memory_mb must leave at least 256 MB outside the Java heap'')
      @ problem (MachineCPUs p \<le> 0 \<or> MachineCPUs p > cap_CPUs cap)
          (''pack '' @ q @ '' machine_cpus must fit capacity'')
      @ provider_problems q p
      @ problem (list_ex (bad_pattern u) (ModrinthExcludeFiles p))
          (''pack '' @ q @ '' modrinth_exclude_files entries must be non-empty and cannot contain commas or newlines''))"

definition config_problems :: "unicode \<Rightarrow> config \<Rightarrow> string list" where
  "config_problems u c =
     problem (Schema c \<noteq> 1) ''schema must be 1''
     @ problem (Domain c = [] \<or> length (Domain c) > 253) ''domain must be a valid non-empty DNS name''
     @ problem (list_ex (\<lambda>l. \<not> dnsLabel l) (split_on (CHR ''.'') (Domain c)))
         ''domain contains invalid DNS label''
     @ problem (cap_MemoryMB (Capacity c) \<le> 0) ''capacity.memory_mb must be positive''
     @ problem (cap_CPUs (Capacity c) \<le> 0) ''capacity.cpus must be positive''
     @ runtime_problems (Runtime c)
     @ storage_problems (Storage c)
     @ concat (map (pack_problems u (Capacity c)) (Packs c))"

text \<open>
  \<open>Validate\<close> normalises the domain in place and returns the sorted, joined problems as an error.
\<close>

definition Validate :: "unicode \<Rightarrow> config \<Rightarrow> config \<times> go_error option" where
  "Validate u c =
     (let c' = c\<lparr>Domain := normalize_domain u (Domain c)\<rparr>; problems = config_problems u c'
      in (c', if problems \<noteq> [] then Some (Errorf (Join (sort problems) ''; '')) else None))"

subsection \<open>Hostname routing\<close>

definition strip_port :: "string \<Rightarrow> string" where
  "strip_port host = (case last_index (CHR '':'') host of Some i \<Rightarrow> take i host | None \<Rightarrow> host)"

definition PackForHost :: "unicode \<Rightarrow> config \<Rightarrow> string \<Rightarrow> (string \<times> pack option)" where
  "PackForHost u c host =
     (let host = strip_port (ToLower u (TrimSuffix (TrimSpace u host) ''.''));
          suffix = ''.'' @ Domain c
      in if \<not> HasSuffix host suffix then ([], None)
         else let i = TrimSuffix host suffix
              in if Contains i ''.'' \<or> i = [] then ([], None) else (i, pack_of c i))"

subsection \<open>Identity digests\<close>

definition identity_json :: "pack \<Rightarrow> json" where
  "identity_json p =
     JObj [(''Provider'', JStr (Provider p)), (''ProjectID'', JStr (ProjectID p)),
           (''VersionID'', JStr (VersionID p)), (''FileID'', JNum (FileID p)), (''Java'', JNum (Java p))]"

definition packIdentityDigest :: "pack \<Rightarrow> string" where
  "packIdentityDigest p = sha256_hex (bytes_of (marshal (identity_json p)))"

definition sorted_ids :: "(string \<times> 'a) list \<Rightarrow> string list" where
  "sorted_ids m = sort (map fst m)"

definition IdentityDigest :: "config \<Rightarrow> string" where
  "IdentityDigest c =
     sha256_hex (bytes_of (marshal (JArr (map (\<lambda>i.
       JObj [(''ID'', JStr i), (''Pack'', identity_json (the (map_of (Packs c) i)))])
       (sorted_ids (Packs c))))))"

subsection \<open>What validation guarantees\<close>

lemma problem_eq_Nil [simp]: "problem b m = [] \<longleftrightarrow> \<not> b"
  by (simp add: problem_def)

lemma Validate_ok:
  "Validate u c = (c', None) \<longleftrightarrow>
     c' = c\<lparr>Domain := normalize_domain u (Domain c)\<rparr> \<and> config_problems u c' = []"
  by (auto simp: Validate_def Let_def)

text \<open>What a pack satisfies that produced no problem.\<close>

definition pack_ok :: "capacity \<Rightarrow> string \<times> pack \<Rightarrow> bool" where
  "pack_ok cap ip =
     (let p = snd ip in
        dnsLabel (fst ip) \<and> DisplayName p \<noteq> [] \<and> ProjectID p \<noteq> [] \<and> Java p \<in> {17, 21}
      \<and> 0 < MemoryMB p \<and> MemoryMB p + 256 \<le> MachineMemoryMB p \<and> 256 dvd MachineMemoryMB p
      \<and> MachineMemoryMB p \<le> cap_MemoryMB cap \<and> 1 \<le> MachineCPUs p \<and> MachineCPUs p \<le> cap_CPUs cap
      \<and> (Provider p = ''modrinth'' \<and> VersionID p \<noteq> [] \<and> FileID p = 0
         \<or> Provider p = ''curseforge'' \<and> VersionID p = [] \<and> 0 < FileID p \<and> ModrinthExcludeFiles p = []))"

lemma add64_small: "- (2 ^ 63) \<le> a + b \<Longrightarrow> a + b < 2 ^ 63 \<Longrightarrow> add64 a b = a + b"
  unfolding add64_def by (rule signed_take_bit_int_eq_self) simp_all

lemma pack_problems_Nil:
  assumes "pack_problems u cap ip = []" "MemoryMB (snd ip) < 2 ^ 63 - 256"
  shows "pack_ok cap ip"
proof -
  have "add64 (MemoryMB (snd ip)) 256 = MemoryMB (snd ip) + 256" if "0 < MemoryMB (snd ip)"
    using that assms(2) by (intro add64_small) simp_all
  with assms(1) show ?thesis
    by (auto simp: pack_problems_def Let_def pack_ok_def provider_problems_def not_less not_le
        mod_eq_0_iff_dvd split: if_splits)
qed

lemma config_problems_Nil:
  assumes "config_problems u c = []"
  shows "Schema c = 1" "Domain c \<noteq> []" "length (Domain c) \<le> 253"
    "\<forall>l\<in>set (split_on (CHR ''.'') (Domain c)). dnsLabel l"
    "0 < cap_MemoryMB (Capacity c)" "0 < cap_CPUs (Capacity c)"
    "runtime_problems (Runtime c) = []" "storage_problems (Storage c) = []"
    "\<forall>ip\<in>set (Packs c). pack_problems u (Capacity c) ip = []"
  using assms by (simp_all add: config_problems_def list_ex_iff not_less not_le)

lemma storage_problems_evict: "storage_problems s = [] \<Longrightarrow> EvictAfterBackup s \<Longrightarrow> Driver s \<noteq> ''filesystem''"
  by (auto simp: storage_problems_def)


definition sample_pack :: pack where
  "sample_pack = \<lparr>DisplayName = ''Vanilla'', PackURL = [], Provider = ''modrinth'', ProjectID = ''p'',
     VersionID = ''v1'', FileID = 0, Java = 21, MemoryMB = 1792, MachineMemoryMB = 2048,
     MachineCPUs = 2, ModrinthExcludeFiles = [''a.jar'']\<rparr>"

definition sample_config :: config where
  "sample_config = \<lparr>Schema = 1, Domain = ''Play.example.com.'',
     Runtime = \<lparr>StartupWait = 1, StartupTimeout = 2, StatusIdleExit = 3, EmptyBeforeSwitch = 4,
       IdleBeforeStop = 5, BackendPollInterval = 6, ShutdownTimeout = 7, MaxConnections = 8,
       ConnectionsPerMinute = 9, ListenAddress = '':1'', BackendAddress = '':2'', WebListenAddress = '':3''\<rparr>,
     Capacity = \<lparr>cap_MemoryMB = 4096, cap_CPUs = 2\<rparr>,
     Storage = \<lparr>Driver = ''rclone'', EvictAfterBackup = True, FilesystemRoot = [],
       S3 = \<lparr>Endpoint = [], Bucket = [], S3Prefix = [], Region = [], Secure = None\<rparr>,
       RcloneRemote = ''r:b''\<rparr>,
     Packs = [(''vanilla'', sample_pack)]\<rparr>"

definition valid_sample :: config where
  "valid_sample = sample_config\<lparr>Domain := ''play.example.com''\<rparr>"

lemma sample_config_valid: "Validate sample_unicode sample_config = (valid_sample, None)"
  by code_simp


text \<open>
  The exception is real: a heap size close to the largest 64-bit integer makes the headroom sum
  negative, and a pack whose heap is larger than any machine is accepted.
\<close>

theorem headroom_check_wraps:
  "pack_problems sample_unicode (Capacity sample_config) (''vanilla'', sample_pack\<lparr>MemoryMB := 2 ^ 63 - 1\<rparr>) = []"
  by code_simp

subsection \<open>Validation does not depend on map order\<close>

lemma mset_concat_map: "mset xs = mset ys \<Longrightarrow> mset (concat (map f xs)) = mset (concat (map f ys))"
  by (metis mset_concat mset_map sum_mset_sum_list)

lemma sort_mset_cong: "mset xs = mset ys \<Longrightarrow> sort xs = sort ys"
  using properties_for_sort [of "sort ys" xs] by simp

text \<open>
  Go visits \<open>c.Packs\<close> in a random order; \<open>Validate\<close> sorts what it found, so its verdict and
  its message are the same for every order of the map.
\<close>

theorem validate_deterministic:
  assumes "mset (Packs c) = mset (Packs d)" and "c\<lparr>Packs := []\<rparr> = d\<lparr>Packs := []\<rparr>"
  shows "snd (Validate u c) = snd (Validate u d)"
proof -
  have same: "Schema c = Schema d" "Domain c = Domain d" "Runtime c = Runtime d"
    "Capacity c = Capacity d" "Storage c = Storage d"
    using assms(2) by (cases c; cases d; simp)+
  let ?n = "\<lambda>x :: config. config_problems u (x\<lparr>Domain := normalize_domain u (Domain x)\<rparr>)"
  have "mset (?n c) = mset (?n d)"
    using mset_concat_map [OF assms(1), of "pack_problems u (Capacity d)"]
    by (simp add: config_problems_def same)
  then have "sort (?n c) = sort (?n d)" "?n c = [] \<longleftrightarrow> ?n d = []"
    by (rule sort_mset_cong) (metis \<open>mset (?n c) = mset (?n d)\<close> mset_zero_iff)
  then show ?thesis by (simp add: Validate_def Let_def)
qed

definition bad_sample :: "(string \<times> pack) list \<Rightarrow> config" where
  "bad_sample ps = sample_config\<lparr>Packs := ps\<rparr>"

theorem validate_deterministic_witness:
  "snd (Validate sample_unicode (bad_sample [(''B'', sample_pack), (''A'', sample_pack)]))
   = snd (Validate sample_unicode (bad_sample [(''A'', sample_pack), (''B'', sample_pack)]))"
  by (rule validate_deterministic) (simp_all add: bad_sample_def sample_config_def)

subsection \<open>Hostname routing reaches every pack\<close>

lemma is_alnum_facts:
  "is_alnum c \<Longrightarrow> code_of c < 128 \<and> \<not> is_space c \<and> c \<noteq> CHR ''.'' \<and> c \<noteq> CHR '':'' \<and> lower_char c = c"
  by (auto simp: is_alnum_def is_space_def code_of_def lower_char_def)

lemma label_char_facts:
  "is_alnum c \<or> c = CHR ''-'' \<Longrightarrow>
     code_of c < 128 \<and> \<not> is_space c \<and> c \<noteq> CHR ''.'' \<and> c \<noteq> CHR '':'' \<and> lower_char c = c"
  using is_alnum_facts [of c] by (auto simp: is_space_def code_of_def lower_char_def)

lemma dnsLabel_chars:
  assumes "dnsLabel l" "c \<in> set l"
  shows "code_of c < 128" "\<not> is_space c" "c \<noteq> CHR ''.''" "c \<noteq> CHR '':''" "lower_char c = c"
  using assms label_char_facts [of c] by (auto simp: dnsLabel_def list_all_iff)

lemma dnsLabel_not_Nil: "dnsLabel l \<Longrightarrow> l \<noteq> []"
  by (simp add: dnsLabel_def)

text \<open>The characters of a valid domain, and of \<open>id.domain\<close>.\<close>

definition host_char :: "char \<Rightarrow> bool" where
  "host_char c = (code_of c < 128 \<and> \<not> is_space c \<and> c \<noteq> CHR '':'' \<and> lower_char c = c)"

lemma set_Join_subset: "set (Join xs sep) \<subseteq> \<Union> (set ` set xs) \<union> set sep"
  by (induction xs sep rule: Join.induct) auto

lemma last_Join: "xs \<noteq> [] \<Longrightarrow> last xs \<noteq> [] \<Longrightarrow> last (Join xs sep) = last (last xs) \<and> Join xs sep \<noteq> []"
  by (induction xs sep rule: Join.induct) auto

lemma valid_domain:
  assumes "\<forall>l\<in>set (split_on (CHR ''.'') d). dnsLabel l"
  shows "list_all host_char d" "d \<noteq> []" "last d \<noteq> CHR ''.''"
proof -
  let ?ls = "split_on (CHR ''.'') d"
  have d: "Join ?ls ''.'' = d" by (rule Join_split_on)
  have "set d \<subseteq> \<Union> (set ` set ?ls) \<union> {CHR ''.''}"
    using set_Join_subset [of ?ls "''.''"] d by simp
  moreover have "host_char (CHR ''.'')" by (simp add: host_char_def is_space_def code_of_def lower_char_def)
  moreover have "host_char c" if "l \<in> set ?ls" "c \<in> set l" for l c
    using assms that dnsLabel_chars [of l c] by (auto simp: host_char_def)
  ultimately show "list_all host_char d" unfolding list_all_iff by auto
  have l: "dnsLabel (last ?ls)" using assms by simp
  then have "last d = last (last ?ls)" "d \<noteq> []"
    using last_Join [of ?ls "''.''"] d dnsLabel_not_Nil by auto
  then show "d \<noteq> []" "last d \<noteq> CHR ''.''"
    using l dnsLabel_chars(3) [OF l] dnsLabel_not_Nil by (auto simp: last_in_set)
qed

text \<open>
  What a client may put after the host name: nothing, the trailing dot of a fully qualified name,
  or a port.
\<close>

definition host_tail :: "string \<Rightarrow> bool" where
  "host_tail t = (t = [] \<or> t = ''.'' \<or> (hd t = CHR '':'' \<and> CHR '':'' \<notin> set (tl t) \<and> is_ascii t))"

lemma trim_right_by_append:
  "h \<noteq> [] \<Longrightarrow> \<not> p (last h) \<Longrightarrow> trim_right_by p (h @ t) = h @ trim_right_by p t"
  by (cases h rule: rev_cases) (auto simp: trim_right_by_def dropWhile_append)

lemma trim_by_spaces:
  assumes "list_all is_space a" "h \<noteq> []" "\<not> is_space (hd h)" "\<not> is_space (last h)"
  shows "trim_by is_space (a @ h @ t) = h @ trim_right_by is_space t"
proof -
  have "dropWhile is_space (a @ h @ t) = h @ t"
    using assms(1-3) by (cases h) (auto simp: dropWhile_append list_all_iff)
  with assms show ?thesis by (simp add: trim_by_def trim_right_by_append)
qed

lemma trim_right_by_all: "list_all p t \<Longrightarrow> trim_right_by p t = []"
  by (auto simp: trim_right_by_def list_all_iff)

lemma HasSuffix_single: "HasSuffix s [c] \<longleftrightarrow> s \<noteq> [] \<and> last s = c"
  by (cases s rule: rev_cases) (auto simp: HasSuffix_iff)

lemma TrimSuffix_single: "TrimSuffix s [c] = (if s \<noteq> [] \<and> last s = c then butlast s else s)"
  by (auto simp: TrimSuffix_def HasSuffix_single butlast_conv_take)

lemma host_tail_trimmed:
  assumes t: "host_tail t" and b: "list_all is_space b" and h: "h \<noteq> []" "last h \<noteq> CHR ''.''"
  shows "\<exists>q. TrimSuffix (h @ trim_right_by is_space (t @ b)) ''.'' = h @ q
            \<and> (q = [] \<or> (\<exists>r. q = CHR '':'' # r \<and> CHR '':'' \<notin> set r \<and> is_ascii r))"
proof -
  have colon: "\<not> is_space (CHR '':'')" and dot: "\<not> is_space (CHR ''.'')"
    and b': "CHR '':'' \<notin> set b" and ab: "is_ascii b"
    using b by (auto simp: is_space_def code_of_def list_all_iff is_ascii_def)
  consider "t = []" | "t = ''.''" | r where "t = CHR '':'' # r" "CHR '':'' \<notin> set r" "is_ascii r"
    using t by (cases t) (auto simp: host_tail_def)
  then show ?thesis
  proof cases
    case 1
    then show ?thesis using b h by (simp add: trim_right_by_all TrimSuffix_single)
  next
    case 2
    then have "trim_right_by is_space (t @ b) = ''.''"
      using trim_right_by_append [of "''.''" is_space b] dot b by (simp add: trim_right_by_all)
    then show ?thesis by (simp add: TrimSuffix_single butlast_append)
  next
    case (3 r)
    let ?r = "trim_right_by is_space (r @ b)"
    have e: "trim_right_by is_space (t @ b) = CHR '':'' # ?r"
      using trim_right_by_append [of "'':''" is_space "r @ b"] colon 3(1) by simp
    have s: "set (TrimSuffix ?r ''.'') \<subseteq> set (r @ b)"
      using set_TrimSuffix [of ?r "''.''"] set_trim_right_by [of is_space "r @ b"] by blast
    have "TrimSuffix (h @ CHR '':'' # ?r) ''.'' = h @ CHR '':'' # TrimSuffix ?r ''.''"
      by (auto simp: TrimSuffix_single butlast_append)
    moreover have "CHR '':'' \<notin> set (TrimSuffix ?r ''.'')" using s 3(2) b' by auto
    moreover have "is_ascii (TrimSuffix ?r ''.'')"
      by (rule is_ascii_subset [OF s]) (simp add: 3(3) ab)
    ultimately show ?thesis unfolding e by blast
  qed
qed

lemma strip_port_tail:
  assumes "CHR '':'' \<notin> set h" "q = [] \<or> (\<exists>r. q = CHR '':'' # r \<and> CHR '':'' \<notin> set r)"
  shows "strip_port (h @ q) = h"
  using assms by (auto simp: strip_port_def last_index_append split: option.splits)
    (simp add: last_index_None [THEN iffD2])

lemma lower_colon [simp]: "lower_char c = CHR '':'' \<longleftrightarrow> c = CHR '':''"
proof -
  have e: "x = CHR '':'' \<longleftrightarrow> code_of x = 58" for x
  proof
    assume "code_of x = 58"
    moreover have "code_of (CHR '':'') = 58" by (simp add: code_of_def)
    ultimately have "code_of x = code_of (CHR '':'')" by simp
    then show "x = CHR '':''" by (simp only: code_of_def of_char_eq_iff)
  qed (simp add: code_of_def)
  show ?thesis unfolding e by (auto simp: code_of_lower_char)
qed

lemma PackForHost_Some:
  "PackForHost u c host = (i, Some p) \<longleftrightarrow>
     strip_port (ToLower u (TrimSuffix (TrimSpace u host) ''.'')) = i @ ''.'' @ Domain c
     \<and> i \<noteq> [] \<and> CHR ''.'' \<notin> set i \<and> pack_of c i = Some p"
  by (auto simp: PackForHost_def Let_def Contains_char HasSuffix_iff split: if_splits)

lemma host_char_lower:
  assumes "host_char (lower_char c)"
  shows "code_of c < 128" "\<not> is_space c" "c \<noteq> CHR '':''"
proof -
  have k: "code_of (lower_char c) < 128" "\<not> is_space (lower_char c)" "lower_char c \<noteq> CHR '':''"
    using assms by (simp_all add: host_char_def)
  show "code_of c < 128" using k(1) by (simp add: code_of_lower_char split: if_splits)
  show "\<not> is_space c" using k(2) by (auto simp: is_space_def code_of_lower_char)
  show "c \<noteq> CHR '':''" using k(3) by simp
qed

text \<open>
  The host part \<open>h\<close> spells \<open>id.domain\<close> in any mixture of upper and lower case; nothing of it is
  cut off by the trimming and the port removal of \<open>PackForHost\<close>.
\<close>

lemma normalized_host:
  assumes low: "map lower_char h = n" and n: "list_all host_char n" "n \<noteq> []" "last n \<noteq> CHR ''.''"
    and t: "host_tail t" and sp: "list_all is_space a" "list_all is_space b"
  shows "strip_port (ToLower u (TrimSuffix (TrimSpace u (a @ h @ t @ b)) ''.'')) = n"
proof -
  have hc: "code_of c < 128" "\<not> is_space c" "c \<noteq> CHR '':''" if "c \<in> set h" for c
  proof -
    have "host_char (lower_char c)" using that n(1) low by (auto simp: list_all_iff)
    then show "code_of c < 128" "\<not> is_space c" "c \<noteq> CHR '':''" by (rule host_char_lower)+
  qed
  have ne: "h \<noteq> []" using n(2) low by auto
  have "lower_char (CHR ''.'') = CHR ''.''" by (simp add: lower_char_def code_of_def)
  then have dot: "last h \<noteq> CHR ''.''" using n(3) low ne by (metis last_map)
  have spc: "is_ascii x" if "list_all is_space x" for x
    using that by (auto simp: is_ascii_def list_all_iff is_space_def)
  have "is_ascii t" using t by (auto simp: host_tail_def code_of_def)
  moreover have "is_ascii h" using hc(1) by (simp add: is_ascii_def list_all_iff)
  ultimately have asc: "is_ascii (a @ h @ t @ b)" using spc [OF sp(1)] spc [OF sp(2)] by simp
  have "TrimSpace u (a @ h @ t @ b) = h @ trim_right_by is_space (t @ b)"
    using trim_by_spaces [OF sp(1) ne, of "t @ b"] hc ne asc by (simp add: TrimSpace_def)
  then obtain q where q: "TrimSuffix (TrimSpace u (a @ h @ t @ b)) ''.'' = h @ q"
    and q': "q = [] \<or> (\<exists>r. q = CHR '':'' # r \<and> CHR '':'' \<notin> set r \<and> is_ascii r)"
    using host_tail_trimmed [OF t sp(2) ne dot] by metis
  have "is_ascii (h @ q)"
    using asc q' by (auto simp: code_of_def)
  then have "ToLower u (h @ q) = n @ map lower_char q" by (simp add: ToLower_def low)
  moreover have "CHR '':'' \<notin> set n" using n(1) by (auto simp: list_all_iff host_char_def)
  moreover have "CHR '':'' \<notin> lower_char ` set r" if "CHR '':'' \<notin> set r" for r
    using that by (metis image_iff lower_colon)
  ultimately show ?thesis
    unfolding q using q' by (auto intro!: strip_port_tail)
qed

lemma pack_host_chars:
  assumes i: "dnsLabel i" and d: "\<forall>l\<in>set (split_on (CHR ''.'') d). dnsLabel l"
  shows "list_all host_char (i @ ''.'' @ d)" "last (i @ ''.'' @ d) \<noteq> CHR ''.''"
proof -
  have "list_all host_char i" using dnsLabel_chars [OF i] by (simp add: list_all_iff host_char_def)
  moreover have "host_char (CHR ''.'')" by (simp add: host_char_def is_space_def code_of_def lower_char_def)
  ultimately show "list_all host_char (i @ ''.'' @ d)" using valid_domain(1) [OF d] by simp
  show "last (i @ ''.'' @ d) \<noteq> CHR ''.''" using valid_domain(2,3) [OF d] by simp
qed

text \<open>
  C24. With a configuration that \<open>Validate\<close> accepted, the host name \<open>id.domain\<close> of a configured pack
  is routed to exactly that pack, whatever the case of its letters, the white space around it and
  the trailing dot or the port after it; and whenever a pack is returned at all, it is a
  configured pack whose id is the single label in front of the domain.
\<close>

theorem pack_for_host_correct:
  assumes "Validate u c0 = (c, None)"
  shows "(\<forall>i p h t a b. pack_of c i = Some p \<longrightarrow> map lower_char h = i @ ''.'' @ Domain c \<longrightarrow> host_tail t \<longrightarrow>
            list_all is_space a \<longrightarrow> list_all is_space b \<longrightarrow> PackForHost u c (a @ h @ t @ b) = (i, Some p))
    \<and> (\<forall>host i p. PackForHost u c host = (i, Some p) \<longrightarrow> pack_of c i = Some p \<and> dnsLabel i
          \<and> strip_port (ToLower u (TrimSuffix (TrimSpace u host) ''.'')) = i @ ''.'' @ Domain c)"
proof -
  have no: "config_problems u c = []" using assms by (auto simp: Validate_ok)
  note dom = config_problems_Nil(4) [OF no]
  have label: "dnsLabel i" if "pack_of c i = Some p" for i p
  proof -
    have "(i, p) \<in> set (Packs c)" using that by (auto simp: pack_of_def dest: map_of_SomeD)
    then have "pack_problems u (Capacity c) (i, p) = []" using config_problems_Nil(9) [OF no] by blast
    then show ?thesis by (simp add: pack_problems_def Let_def)
  qed
  have "PackForHost u c (a @ h @ t @ b) = (i, Some p)"
    if i: "pack_of c i = Some p" and h: "map lower_char h = i @ ''.'' @ Domain c"
      and t: "host_tail t" "list_all is_space a" "list_all is_space b" for i p h t a b
    using normalized_host [OF h pack_host_chars(1) [OF label [OF i] dom] _
        pack_host_chars(2) [OF label [OF i] dom] t, of u]
      i label [OF i] dnsLabel_chars(3) [OF label [OF i]] dnsLabel_not_Nil [OF label [OF i]]
    by (auto simp: PackForHost_Some)
  with label show ?thesis by (auto simp: PackForHost_Some)
qed

theorem pack_for_host_correct_witness:
  "PackForHost sample_unicode valid_sample '' Vanilla.PLAY.example.com:25565 '' = (''vanilla'', Some sample_pack)"
proof -
  have "pack_of valid_sample ''vanilla'' = Some sample_pack"
    "map lower_char ''Vanilla.PLAY.example.com'' = ''vanilla'' @ ''.'' @ Domain valid_sample"
    "host_tail '':25565''" "list_all is_space '' ''"
    by code_simp+
  then have "PackForHost sample_unicode valid_sample ('' '' @ ''Vanilla.PLAY.example.com'' @ '':25565'' @ '' '')
      = (''vanilla'', Some sample_pack)"
    using pack_for_host_correct [OF sample_config_valid] by blast
  then show ?thesis by simp
qed

end
