(* ===== verification/Lock.thy ===== *)
theory Lock
  imports Config Json_Parse "HOL-Library.AList"
begin

text \<open>
  The generated lock of \<open>internal/config/lock.go\<close>: the lock file's types, its validation, the
  immutability check, the comparison with the registry, and the resolver that asks the Modrinth and
  CurseForge services for the artifact of every pack.

  The two services are the argument \<open>http_client\<close>: whether a URL parses, and the answer to a GET
  request with its headers. A Go map is an association list with distinct keys in the order
  \<open>range\<close> visits it; \<open>AList.update\<close> is the assignment to a key.
\<close>

record locked_pack =
  lp_Provider :: string
  lp_ProjectID :: string
  lp_VersionID :: string
  lp_FileID :: int
  lp_Slug :: string
  lp_Minecraft :: string
  lp_Loader :: string
  lp_Java :: int
  lp_ArtifactHash :: string
  lp_IdentityDigest :: string

record lock_file =
  lf_Schema :: int
  lf_ConfigDigest :: string
  lf_Packs :: "(string \<times> locked_pack) list"

definition zero_locked_pack :: locked_pack where
  "zero_locked_pack = \<lparr>lp_Provider = [], lp_ProjectID = [], lp_VersionID = [], lp_FileID = 0, lp_Slug = [],
     lp_Minecraft = [], lp_Loader = [], lp_Java = 0, lp_ArtifactHash = [], lp_IdentityDigest = []\<rparr>"

definition zero_lock_file :: lock_file where
  "zero_lock_file = \<lparr>lf_Schema = 0, lf_ConfigDigest = [], lf_Packs = []\<rparr>"

definition zero_pack :: pack where
  "zero_pack = \<lparr>DisplayName = [], PackURL = [], Provider = [], ProjectID = [], VersionID = [], FileID = 0,
     Java = 0, MemoryMB = 0, MachineMemoryMB = 0, MachineCPUs = 0, ModrinthExcludeFiles = []\<rparr>"

subsection \<open>Validation and comparison\<close>

text \<open>A loop that returns the first error it meets.\<close>

fun first_error :: "('a \<Rightarrow> go_error option) \<Rightarrow> 'a list \<Rightarrow> go_error option" where
  "first_error f [] = None"
| "first_error f (x # xs) = (case f x of None \<Rightarrow> first_error f xs | Some e \<Rightarrow> Some e)"

lemma first_error_None [simp]: "first_error f xs = None \<longleftrightarrow> (\<forall>x\<in>set xs. f x = None)"
  by (induction xs) (auto split: option.splits)

definition locked_identity :: "locked_pack \<Rightarrow> pack" where
  "locked_identity p = zero_pack\<lparr>Provider := lp_Provider p, ProjectID := lp_ProjectID p,
     VersionID := lp_VersionID p, FileID := lp_FileID p, Java := lp_Java p\<rparr>"

definition locked_pack_error :: "unicode \<Rightarrow> string \<times> locked_pack \<Rightarrow> go_error option" where
  "locked_pack_error u ip =
     (let p = snd ip in
      if lp_IdentityDigest p = [] \<or> lp_ProjectID p = []
         \<or> (lp_Provider p \<noteq> ''modrinth'' \<and> lp_Provider p \<noteq> ''curseforge'')
      then Some (Errorf (''invalid locked pack '' @ Quote u (fst ip)))
      else if lp_IdentityDigest p \<noteq> packIdentityDigest (locked_identity p)
      then Some (Errorf (''locked pack '' @ Quote u (fst ip) @ '' identity digest is invalid''))
      else None)"

definition LockFile_Validate :: "unicode \<Rightarrow> lock_file \<Rightarrow> go_error option" where
  "LockFile_Validate u l =
     (if lf_Schema l \<noteq> 1 then Some (Errorf ''lock schema must be 1'')
      else if length (lf_ConfigDigest l) \<noteq> 64 then Some (Errorf ''invalid config digest'')
      else first_error (locked_pack_error u) (lf_Packs l))"

definition CheckImmutable :: "unicode \<Rightarrow> lock_file \<Rightarrow> lock_file \<Rightarrow> go_error option" where
  "CheckImmutable u previous new =
     first_error (\<lambda>(i, old).
       case map_of (lf_Packs new) i of
         None \<Rightarrow> Some (Errorf (''locked pack '' @ Quote u i @ '' cannot be removed''))
       | Some current \<Rightarrow>
           if lp_IdentityDigest old \<noteq> lp_IdentityDigest current
           then Some (Errorf (''locked pack '' @ Quote u i @ '' immutable identity changed; add a new ID instead''))
           else None)
       (lf_Packs previous)"

definition Matches :: "unicode \<Rightarrow> lock_file \<Rightarrow> config \<Rightarrow> go_error option" where
  "Matches u l c =
     (if lf_ConfigDigest l \<noteq> IdentityDigest c
      then Some (Errorf ''packs.lock.json does not match immutable fields in packs.yaml; run hostpackd lock'')
      else if length (lf_Packs l) \<noteq> length (Packs c)
      then Some (Errorf ''locked pack count differs from config'')
      else first_error (\<lambda>(i, p).
        case map_of (lf_Packs l) i of
          None \<Rightarrow> Some (Errorf (''pack '' @ Quote u i @ '' is missing from lock''))
        | Some lp \<Rightarrow>
            if lp_Provider lp \<noteq> Provider p \<or> lp_ProjectID lp \<noteq> ProjectID p \<or> lp_VersionID lp \<noteq> VersionID p
               \<or> lp_FileID lp \<noteq> FileID p \<or> lp_Java lp \<noteq> Java p
            then Some (Errorf (''pack '' @ Quote u i @ '' immutable fields differ from lock''))
            else None)
        (Packs c))"

subsection \<open>The lock file as JSON\<close>

definition omit_string :: "string \<Rightarrow> string \<Rightarrow> (string \<times> json) list" where
  "omit_string k s = (if s = [] then [] else [(k, JStr s)])"

definition omit_int :: "string \<Rightarrow> int \<Rightarrow> (string \<times> json) list" where
  "omit_int k i = (if i = 0 then [] else [(k, JNum i)])"

definition locked_pack_json :: "locked_pack \<Rightarrow> json" where
  "locked_pack_json p =
     JObj ([(''provider'', JStr (lp_Provider p)), (''projectId'', JStr (lp_ProjectID p))]
       @ omit_string ''versionId'' (lp_VersionID p) @ omit_int ''fileId'' (lp_FileID p)
       @ omit_string ''slug'' (lp_Slug p) @ omit_string ''minecraftVersion'' (lp_Minecraft p)
       @ omit_string ''loader'' (lp_Loader p)
       @ [(''java'', JNum (lp_Java p)), (''artifactHash'', JStr (lp_ArtifactHash p)),
          (''identityDigest'', JStr (lp_IdentityDigest p))])"

definition lock_file_json :: "lock_file \<Rightarrow> json" where
  "lock_file_json l =
     JObj [(''schema'', JNum (lf_Schema l)), (''configDigest'', JStr (lf_ConfigDigest l)),
           (''packs'', JObj (map (\<lambda>i. (i, locked_pack_json (the (map_of (lf_Packs l) i)))) (sorted_ids (lf_Packs l))))]"

definition LockFile_Marshal :: "lock_file \<Rightarrow> string" where
  "LockFile_Marshal l = MarshalIndent (lock_file_json l)"

definition locked_pack_fields :: "(string \<times> locked_pack setter) list" where
  "locked_pack_fields =
     [(''provider'', set_string (\<lambda>s p. p\<lparr>lp_Provider := s\<rparr>)),
      (''projectId'', set_string (\<lambda>s p. p\<lparr>lp_ProjectID := s\<rparr>)),
      (''versionId'', set_string (\<lambda>s p. p\<lparr>lp_VersionID := s\<rparr>)),
      (''fileId'', set_int (\<lambda>i p. p\<lparr>lp_FileID := i\<rparr>)),
      (''slug'', set_string (\<lambda>s p. p\<lparr>lp_Slug := s\<rparr>)),
      (''minecraftVersion'', set_string (\<lambda>s p. p\<lparr>lp_Minecraft := s\<rparr>)),
      (''loader'', set_string (\<lambda>s p. p\<lparr>lp_Loader := s\<rparr>)),
      (''java'', set_int (\<lambda>i p. p\<lparr>lp_Java := i\<rparr>)),
      (''artifactHash'', set_string (\<lambda>s p. p\<lparr>lp_ArtifactHash := s\<rparr>)),
      (''identityDigest'', set_string (\<lambda>s p. p\<lparr>lp_IdentityDigest := s\<rparr>))]"

definition lock_file_fields :: "(string \<times> lock_file setter) list" where
  "lock_file_fields =
     [(''schema'', set_int (\<lambda>i l. l\<lparr>lf_Schema := i\<rparr>)),
      (''configDigest'', set_string (\<lambda>s l. l\<lparr>lf_ConfigDigest := s\<rparr>)),
      (''packs'', set_map (decode_struct locked_pack_fields) zero_locked_pack lf_Packs (\<lambda>m l. l\<lparr>lf_Packs := m\<rparr>))]"

text \<open>
  \<open>LoadLock\<close> on what \<open>os.ReadFile\<close> returned; the decoded lock comes back beside a validation error.
\<close>

definition LoadLock :: "unicode \<Rightarrow> string result \<Rightarrow> lock_file option \<times> go_error option" where
  "LoadLock u file =
     (case file of
        Inl e \<Rightarrow> (None, Some e)
      | Inr b \<Rightarrow>
          (case unmarshal b of
             None \<Rightarrow> (None, Some (Wrap ''decode lock'' json_syntax_error))
           | Some j \<Rightarrow>
               (case decode_struct lock_file_fields j zero_lock_file of
                  Inl e \<Rightarrow> (None, Some (Wrap ''decode lock'' e))
                | Inr l \<Rightarrow> (Some l, LockFile_Validate u l))))"

subsection \<open>The resolver\<close>

record http_response =
  StatusCode :: int
  Status :: string
  Body :: string

text \<open>
  \<open>url_error\<close> is the error of \<open>http.NewRequestWithContext\<close> for a URL; \<open>http_get\<close> answers a GET
  request with the headers set on it, or fails in transport.
\<close>

record http_client =
  url_error :: "string \<Rightarrow> go_error option"
  http_get :: "string \<Rightarrow> (string \<times> string) list \<Rightarrow> http_response result"

record resolver =
  ModrinthBase :: string
  CurseForgeBase :: string
  CurseForgeKey :: string

definition Resolver_get ::
    "http_client \<Rightarrow> resolver \<Rightarrow> string \<Rightarrow> 'a setter \<Rightarrow> 'a \<Rightarrow> bool \<Rightarrow> 'a result" where
  "Resolver_get http r url dec target key =
     (case url_error http url of
        Some e \<Rightarrow> Inl e
      | None \<Rightarrow>
          if key \<and> CurseForgeKey r = [] then Inl (Errorf ''CF_API_KEY is required'')
          else and_then
            (http_get http url ((''User-Agent'', ''hostpackd/1'')
               # (if key then [(''x-api-key'', CurseForgeKey r)] else [])))
            (\<lambda>resp. if StatusCode resp div 100 \<noteq> 2
                    then Inl (Errorf (''provider returned '' @ Status resp))
                    else decode_first dec (Body resp) target))"

record modrinth_file =
  mf_Primary :: bool
  mf_Hashes :: "(string \<times> string) list"

record modrinth_version =
  mv_ID :: string
  mv_ProjectID :: string
  mv_GameVersions :: "string list"
  mv_Loaders :: "string list"
  mv_Files :: "modrinth_file list"

definition modrinth_file_fields :: "(string \<times> modrinth_file setter) list" where
  "modrinth_file_fields =
     [(''primary'', set_bool (\<lambda>b f. f\<lparr>mf_Primary := b\<rparr>)),
      (''hashes'', set_map string_value [] mf_Hashes (\<lambda>m f. f\<lparr>mf_Hashes := m\<rparr>))]"

definition modrinth_version_fields :: "(string \<times> modrinth_version setter) list" where
  "modrinth_version_fields =
     [(''id'', set_string (\<lambda>s v. v\<lparr>mv_ID := s\<rparr>)),
      (''project_id'', set_string (\<lambda>s v. v\<lparr>mv_ProjectID := s\<rparr>)),
      (''game_versions'', set_list string_value [] mv_GameVersions (\<lambda>l v. v\<lparr>mv_GameVersions := l\<rparr>)),
      (''loaders'', set_list string_value [] mv_Loaders (\<lambda>l v. v\<lparr>mv_Loaders := l\<rparr>)),
      (''Files'', set_list (decode_struct modrinth_file_fields) \<lparr>mf_Primary = False, mf_Hashes = []\<rparr>
         mv_Files (\<lambda>l v. v\<lparr>mv_Files := l\<rparr>))]"

definition zero_modrinth_version :: modrinth_version where
  "zero_modrinth_version =
     \<lparr>mv_ID = [], mv_ProjectID = [], mv_GameVersions = [], mv_Loaders = [], mv_Files = []\<rparr>"

definition map_string :: "(string \<times> string) list \<Rightarrow> string \<Rightarrow> string" where
  "map_string m k = (case map_of m k of Some s \<Rightarrow> s | None \<Rightarrow> [])"

fun modrinth_hash :: "string \<Rightarrow> modrinth_file list \<Rightarrow> string" where
  "modrinth_hash hash [] = hash"
| "modrinth_hash hash (f # fs) =
     (let hash' =
        (if mf_Primary f \<or> hash = [] then
           (if map_string (mf_Hashes f) ''sha512'' \<noteq> [] then ''sha512:'' @ map_string (mf_Hashes f) ''sha512''
            else if map_string (mf_Hashes f) ''sha1'' \<noteq> [] then ''sha1:'' @ map_string (mf_Hashes f) ''sha1''
            else hash)
         else hash)
      in if mf_Primary f then hash' else modrinth_hash hash' fs)"

definition first_or_empty :: "string list \<Rightarrow> string" where
  "first_or_empty xs = (case xs of [] \<Rightarrow> [] | x # _ \<Rightarrow> x)"

definition resolveModrinth :: "http_client \<Rightarrow> resolver \<Rightarrow> pack \<Rightarrow> locked_pack result" where
  "resolveModrinth http r p =
     and_then (Resolver_get http r (ModrinthBase r @ ''/version/'' @ VersionID p)
                 (decode_struct modrinth_version_fields) zero_modrinth_version False)
       (\<lambda>v. if mv_ProjectID v \<noteq> ProjectID p
            then Inl (Errorf (''version belongs to project '' @ mv_ProjectID v @ '', not '' @ ProjectID p))
            else let hash = modrinth_hash [] (mv_Files v)
              in if hash = [] then Inl (Errorf ''version has no usable file hash'')
                 else Inr (zero_locked_pack\<lparr>lp_Provider := ''modrinth'', lp_ProjectID := ProjectID p,
                        lp_VersionID := VersionID p, lp_Minecraft := first_or_empty (mv_GameVersions v),
                        lp_Loader := first_or_empty (mv_Loaders v), lp_ArtifactHash := hash\<rparr>))"

record curseforge_project =
  cp_ID :: int
  cp_Slug :: string

record curseforge_hash =
  ch_Value :: string
  ch_Algo :: int

record curseforge_file =
  cf_ID :: int
  cf_ModID :: int
  cf_Hashes :: "curseforge_hash list"
  cf_GameVersions :: "string list"

definition curseforge_project_fields :: "(string \<times> curseforge_project setter) list" where
  "curseforge_project_fields =
     [(''Data'', decode_struct
        [(''ID'', set_int (\<lambda>i d. d\<lparr>cp_ID := i\<rparr>)), (''Slug'', set_string (\<lambda>s d. d\<lparr>cp_Slug := s\<rparr>))])]"

definition curseforge_file_fields :: "(string \<times> curseforge_file setter) list" where
  "curseforge_file_fields =
     [(''Data'', decode_struct
        [(''ID'', set_int (\<lambda>i d. d\<lparr>cf_ID := i\<rparr>)), (''ModID'', set_int (\<lambda>i d. d\<lparr>cf_ModID := i\<rparr>)),
         (''Hashes'', set_list (decode_struct
            [(''Value'', set_string (\<lambda>s h. h\<lparr>ch_Value := s\<rparr>)), (''Algo'', set_int (\<lambda>i h. h\<lparr>ch_Algo := i\<rparr>))])
            \<lparr>ch_Value = [], ch_Algo = 0\<rparr> cf_Hashes (\<lambda>l d. d\<lparr>cf_Hashes := l\<rparr>)),
         (''GameVersions'', set_list string_value [] cf_GameVersions (\<lambda>l d. d\<lparr>cf_GameVersions := l\<rparr>))])]"

fun curseforge_hash_of :: "unicode \<Rightarrow> string \<Rightarrow> curseforge_hash list \<Rightarrow> string" where
  "curseforge_hash_of u hash [] = hash"
| "curseforge_hash_of u hash (h # hs) =
     (if ch_Algo h = 1 then ''sha1:'' @ ToLower u (ch_Value h)
      else if ch_Algo h = 2 then curseforge_hash_of u (''md5:'' @ ToLower u (ch_Value h)) hs
      else curseforge_hash_of u hash hs)"

fun curseforge_versions :: "unicode \<Rightarrow> string \<times> string \<Rightarrow> string list \<Rightarrow> string \<times> string" where
  "curseforge_versions u (mc, loader) [] = (mc, loader)"
| "curseforge_versions u (mc, loader) (v # vs) =
     (let lv = ToLower u v
      in curseforge_versions u
           (if count_list v (CHR ''.'') \<ge> 1 \<and> mc = [] then v else mc,
            if lv \<in> {''forge'', ''fabric'', ''neoforge'', ''quilt''} then lv else loader) vs)"

definition resolveCurseForge :: "unicode \<Rightarrow> http_client \<Rightarrow> resolver \<Rightarrow> pack \<Rightarrow> locked_pack result" where
  "resolveCurseForge u http r p =
     and_then (Resolver_get http r (CurseForgeBase r @ ''/mods/'' @ ProjectID p)
                 (decode_struct curseforge_project_fields) \<lparr>cp_ID = 0, cp_Slug = []\<rparr> True)
       (\<lambda>project. if itoa (cp_ID project) \<noteq> ProjectID p then Inl (Errorf ''project id mismatch'')
        else and_then
          (Resolver_get http r (CurseForgeBase r @ ''/mods/'' @ ProjectID p @ ''/files/'' @ itoa (FileID p))
             (decode_struct curseforge_file_fields)
             \<lparr>cf_ID = 0, cf_ModID = 0, cf_Hashes = [], cf_GameVersions = []\<rparr> True)
          (\<lambda>file. if cf_ModID file \<noteq> cp_ID project \<or> cf_ID file \<noteq> FileID p
             then Inl (Errorf ''file does not belong to configured project'')
             else let hash = curseforge_hash_of u [] (cf_Hashes file)
               in if hash = [] then Inl (Errorf ''file has no usable hash'')
                  else let (mc, loader) = curseforge_versions u ([], []) (cf_GameVersions file)
                    in Inr (zero_locked_pack\<lparr>lp_Provider := ''curseforge'', lp_ProjectID := ProjectID p,
                         lp_FileID := FileID p, lp_Slug := cp_Slug project, lp_Minecraft := mc,
                         lp_Loader := loader, lp_ArtifactHash := hash\<rparr>)))"

definition resolver_defaults :: "resolver \<Rightarrow> resolver" where
  "resolver_defaults r =
     (let r1 = (if ModrinthBase r = [] then r\<lparr>ModrinthBase := ''https://api.modrinth.com/v2''\<rparr> else r)
      in if CurseForgeBase r1 = [] then r1\<lparr>CurseForgeBase := ''https://api.curseforge.com/v1''\<rparr> else r1)"

definition resolve_pack :: "unicode \<Rightarrow> http_client \<Rightarrow> resolver \<Rightarrow> string \<Rightarrow> pack \<Rightarrow> locked_pack result" where
  "resolve_pack u http r i p =
     (case (if Provider p = ''modrinth'' then resolveModrinth http r p else resolveCurseForge u http r p) of
        Inl e \<Rightarrow> Inl (Wrap (''resolve pack '' @ Quote u i) e)
      | Inr lp \<Rightarrow> Inr (lp\<lparr>lp_Java := Java p, lp_IdentityDigest := packIdentityDigest p\<rparr>))"

fun resolve_all ::
    "unicode \<Rightarrow> http_client \<Rightarrow> resolver \<Rightarrow> config \<Rightarrow> string list \<Rightarrow> lock_file \<Rightarrow> lock_file result" where
  "resolve_all u http r c [] l = Inr l"
| "resolve_all u http r c (i # ids) l =
     and_then (resolve_pack u http r i (the (pack_of c i)))
       (\<lambda>lp. resolve_all u http r c ids (l\<lparr>lf_Packs := AList.update i lp (lf_Packs l)\<rparr>))"

definition Generate :: "unicode \<Rightarrow> http_client \<Rightarrow> resolver \<Rightarrow> config \<Rightarrow> lock_file result" where
  "Generate u http r c =
     resolve_all u http (resolver_defaults r) c (sorted_ids (Packs c))
       \<lparr>lf_Schema = 1, lf_ConfigDigest = IdentityDigest c, lf_Packs = []\<rparr>"

subsection \<open>A generated lock is valid and matches its registry\<close>

text \<open>The lock entry that belongs to a pack.\<close>

definition locks :: "pack \<Rightarrow> locked_pack \<Rightarrow> bool" where
  "locks p lp =
     (lp_Provider lp = Provider p \<and> lp_ProjectID lp = ProjectID p \<and> lp_VersionID lp = VersionID p
      \<and> lp_FileID lp = FileID p \<and> lp_Java lp = Java p)"

lemma identity_json_locked: "locks p lp \<Longrightarrow> identity_json (locked_identity lp) = identity_json p"
  by (simp add: locks_def identity_json_def locked_identity_def)

lemma resolveModrinth_InrD:
  assumes "resolveModrinth http r p = Inr lp"
  shows "lp_Provider lp = ''modrinth'' \<and> lp_ProjectID lp = ProjectID p \<and> lp_VersionID lp = VersionID p
    \<and> lp_FileID lp = 0 \<and> lp_ArtifactHash lp \<noteq> []"
  using assms by (auto simp: resolveModrinth_def and_then_eq_Inr Let_def zero_locked_pack_def split: if_splits)

lemma resolveCurseForge_InrD:
  assumes "resolveCurseForge u http r p = Inr lp"
  shows "lp_Provider lp = ''curseforge'' \<and> lp_ProjectID lp = ProjectID p \<and> lp_VersionID lp = []
    \<and> lp_FileID lp = FileID p \<and> lp_ArtifactHash lp \<noteq> []"
  using assms
  by (auto simp: resolveCurseForge_def and_then_eq_Inr Let_def zero_locked_pack_def split: if_splits prod.splits)

lemma resolve_pack_locks:
  assumes "resolve_pack u http r i p = Inr lp" "provider_problems q p = []"
  shows "locks p lp \<and> lp_IdentityDigest lp = packIdentityDigest p \<and> lp_ArtifactHash lp \<noteq> []"
proof (cases "Provider p = ''modrinth''")
  case True
  then obtain lp0 where l: "resolveModrinth http r p = Inr lp0"
    "lp = lp0\<lparr>lp_Java := Java p, lp_IdentityDigest := packIdentityDigest p\<rparr>"
    using assms(1) by (auto simp: resolve_pack_def split: sum.splits)
  with resolveModrinth_InrD [OF l(1)] True assms(2) show ?thesis
    by (simp add: locks_def provider_problems_def)
next
  case False
  then obtain lp0 where l: "resolveCurseForge u http r p = Inr lp0"
    "lp = lp0\<lparr>lp_Java := Java p, lp_IdentityDigest := packIdentityDigest p\<rparr>"
    using assms(1) by (auto simp: resolve_pack_def split: sum.splits)
  from False assms(2) have "Provider p = ''curseforge'' \<and> VersionID p = []"
    by (simp add: provider_problems_def split: if_splits)
  with resolveCurseForge_InrD [OF l(1)] l(2) show ?thesis by (simp add: locks_def)
qed

lemma update_new: "k \<notin> fst ` set m \<Longrightarrow> AList.update k v m = m @ [(k, v)]"
  by (induction m) auto

definition entry_ok :: "config \<Rightarrow> string \<times> locked_pack \<Rightarrow> bool" where
  "entry_ok c e =
     (let p = the (pack_of c (fst e)); lp = snd e
      in locks p lp \<and> lp_IdentityDigest lp = packIdentityDigest p \<and> lp_ArtifactHash lp \<noteq> [])"

lemma resolve_all_Inr:
  assumes "resolve_all u http r c ids l = Inr l'" "distinct ids" "set ids \<inter> fst ` set (lf_Packs l) = {}"
    "\<forall>i\<in>set ids. \<exists>q. provider_problems q (the (pack_of c i)) = []"
  shows "lf_Schema l' = lf_Schema l \<and> lf_ConfigDigest l' = lf_ConfigDigest l
    \<and> (\<exists>new. lf_Packs l' = lf_Packs l @ new \<and> map fst new = ids \<and> list_all (entry_ok c) new)"
  using assms
proof (induction ids arbitrary: l)
  case (Cons i ids)
  then obtain lp where lp: "resolve_pack u http r i (the (pack_of c i)) = Inr lp"
    and rest: "resolve_all u http r c ids (l\<lparr>lf_Packs := AList.update i lp (lf_Packs l)\<rparr>) = Inr l'"
    by (auto simp: and_then_eq_Inr)
  have up: "AList.update i lp (lf_Packs l) = lf_Packs l @ [(i, lp)]"
    using Cons.prems(3) by (intro update_new) auto
  have good: "entry_ok c (i, lp)"
    using resolve_pack_locks [OF lp] Cons.prems(4) by (auto simp: entry_ok_def Let_def)
  let ?l = "l\<lparr>lf_Packs := lf_Packs l @ [(i, lp)]\<rparr>"
  have "set ids \<inter> fst ` set (lf_Packs ?l) = {}" using Cons.prems(2,3) by auto
  then obtain new where "lf_Packs l' = lf_Packs ?l @ new" "map fst new = ids" "list_all (entry_ok c) new"
    "lf_Schema l' = lf_Schema l" "lf_ConfigDigest l' = lf_ConfigDigest l"
    using Cons.IH [OF rest [unfolded up]] Cons.prems(2,4) by auto
  with good show ?case by (intro conjI exI [of _ "(i, lp) # new"]) auto
qed auto

lemma sorted_ids_facts [simp]:
  "set (sorted_ids m) = fst ` set m" "distinct (sorted_ids m) \<longleftrightarrow> distinct (map fst m)"
  "length (sorted_ids m) = length m"
  by (simp_all add: sorted_ids_def)

lemma valid_pack_of:
  assumes "Validate u c0 = (c, None)" "(i, p) \<in> set (Packs c)"
  shows "\<exists>q. provider_problems q p = []" "ProjectID p \<noteq> []"
proof -
  have "pack_problems u (Capacity c) (i, p) = []"
    using config_problems_Nil(9) [of u c] assms by (auto simp: Validate_ok)
  then show "\<exists>q. provider_problems q p = []" "ProjectID p \<noteq> []"
    by (auto simp: pack_problems_def Let_def)
qed

lemma Generate_valid:
  assumes "Validate u c0 = (c, None)" "distinct (map fst (Packs c))" "Generate u http r c = Inr l"
  shows "LockFile_Validate u l = None \<and> Matches u l c = None
    \<and> map fst (lf_Packs l) = sorted_ids (Packs c) \<and> (\<forall>(i, lp)\<in>set (lf_Packs l). lp_ArtifactHash lp \<noteq> [])"
proof -
  have po: "pack_of c i = Some p" if "(i, p) \<in> set (Packs c)" for i p
    using that assms(2) by (simp add: pack_of_def)
  have "\<forall>i\<in>set (sorted_ids (Packs c)). \<exists>q. provider_problems q (the (pack_of c i)) = []"
    using valid_pack_of(1) [OF assms(1)] po by fastforce
  then have l: "lf_Schema l = 1" "lf_ConfigDigest l = IdentityDigest c" "map fst (lf_Packs l) = sorted_ids (Packs c)"
    and all: "list_all (entry_ok c) (lf_Packs l)"
    using resolve_all_Inr [OF assms(3) [unfolded Generate_def]] assms(2) by auto
  have ok: "\<forall>(i, lp)\<in>set (lf_Packs l). locks (the (pack_of c i)) lp
       \<and> lp_IdentityDigest lp = packIdentityDigest (the (pack_of c i)) \<and> lp_ArtifactHash lp \<noteq> []"
    using all by (auto simp: list_all_iff entry_ok_def Let_def)
  have dist: "distinct (map fst (lf_Packs l))" using l(3) assms(2) by simp
  have len: "length (lf_Packs l) = length (Packs c)" using arg_cong [OF l(3), of length] by simp
  have "locked_pack_error u (i, lp) = None" if "(i, lp) \<in> set (lf_Packs l)" for i lp
  proof -
    have "i \<in> set (map fst (lf_Packs l))" using that by force
    then obtain p where p: "(i, p) \<in> set (Packs c)" unfolding l(3) by auto
    have "locks p lp" "lp_IdentityDigest lp = packIdentityDigest p" using ok that po [OF p] by auto
    moreover have "lp_IdentityDigest lp \<noteq> []"
      using calculation(2) length_sha256_hex [of "bytes_of (marshal (identity_json p))"]
      by (auto simp: packIdentityDigest_def simp del: length_sha256_hex)
    moreover have "Provider p = ''modrinth'' \<or> Provider p = ''curseforge''"
      using valid_pack_of(1) [OF assms(1) p] by (auto simp: provider_problems_def split: if_splits)
    ultimately show ?thesis using valid_pack_of(2) [OF assms(1) p] identity_json_locked [of p lp]
      by (auto simp: locked_pack_error_def Let_def locks_def packIdentityDigest_def)
  qed
  then have "LockFile_Validate u l = None"
    by (auto simp: LockFile_Validate_def l IdentityDigest_def)
  moreover have "\<exists>lp. map_of (lf_Packs l) i = Some lp \<and> locks p lp" if p: "(i, p) \<in> set (Packs c)" for i p
  proof -
    have "i \<in> set (map fst (lf_Packs l))" using p unfolding l(3) by force
    then obtain lp where "(i, lp) \<in> set (lf_Packs l)" by auto
    with dist ok po [OF p] show ?thesis by fastforce
  qed
  then have "Matches u l c = None"
    by (fastforce simp: Matches_def l(2) len locks_def)
  ultimately show ?thesis using l(3) ok by auto
qed

text \<open>
  C25. Locking a validated registry: if the services answer for every pack, the generated lock passes
  its own validation, matches the registry it was generated from, and names an artifact hash for
  every pack.
\<close>

theorem generate_correct:
  assumes "Validate u c0 = (c, None)" "distinct (map fst (Packs c))" "Generate u http r c = Inr l"
  shows "LockFile_Validate u l = None \<and> Matches u l c = None
    \<and> map fst (lf_Packs l) = sorted_ids (Packs c) \<and> (\<forall>(i, lp)\<in>set (lf_Packs l). lp_ArtifactHash lp \<noteq> [])"
  by (rule Generate_valid [OF assms])

text \<open>A service that knows one Modrinth version.\<close>

definition sample_http :: http_client where
  "sample_http = \<lparr>url_error = (\<lambda>_. None), http_get = (\<lambda>url _.
     if url = ''https://api.modrinth.com/v2/version/v1''
     then Inr \<lparr>StatusCode = 200, Status = ''200 OK'',
       Body = marshal (JObj [(''id'', JStr ''v1''), (''project_id'', JStr ''p''), (''loaders'', JArr [JStr ''fabric'']),
         (''files'', JArr [JObj [(''primary'', JBool True), (''hashes'', JObj [(''sha1'', JStr ''ab'')])]])])\<rparr>
     else Inl (Errorf ''no such host''))\<rparr>"

definition sample_resolver :: resolver where
  "sample_resolver = \<lparr>ModrinthBase = [], CurseForgeBase = [], CurseForgeKey = []\<rparr>"

definition sample_locked :: locked_pack where
  "sample_locked = zero_locked_pack\<lparr>lp_Provider := ''modrinth'', lp_ProjectID := ''p'', lp_VersionID := ''v1'',
     lp_Loader := ''fabric'', lp_ArtifactHash := ''sha1:ab''\<rparr>"

definition sample_lock :: lock_file where
  "sample_lock = \<lparr>lf_Schema = 1, lf_ConfigDigest = IdentityDigest valid_sample,
     lf_Packs = [(''vanilla'', sample_locked\<lparr>lp_Java := 21, lp_IdentityDigest := packIdentityDigest sample_pack\<rparr>)]\<rparr>"

lemma sample_resolve:
  "resolveModrinth sample_http (resolver_defaults sample_resolver) sample_pack = Inr sample_locked"
  by code_simp

lemma sample_generate: "Generate sample_unicode sample_http sample_resolver valid_sample = Inr sample_lock"
proof -
  have "sorted_ids (Packs valid_sample) = [''vanilla'']" "pack_of valid_sample ''vanilla'' = Some sample_pack"
    "Provider sample_pack = ''modrinth''" "Java sample_pack = 21"
    by code_simp+
  then show ?thesis
    by (simp add: Generate_def resolve_pack_def sample_resolve sample_lock_def)
qed

theorem generate_correct_witness:
  "LockFile_Validate sample_unicode sample_lock = None \<and> Matches sample_unicode sample_lock valid_sample = None"
proof -
  have "distinct (map fst (Packs valid_sample))" by (simp add: valid_sample_def sample_config_def)
  from generate_correct [OF sample_config_valid this sample_generate] show ?thesis by blast
qed

subsection \<open>Comparing a lock with a registry\<close>

lemma Matches_None:
  "Matches u l c = None \<longleftrightarrow>
     lf_ConfigDigest l = IdentityDigest c \<and> length (lf_Packs l) = length (Packs c)
     \<and> (\<forall>(i, p)\<in>set (Packs c). \<exists>lp. map_of (lf_Packs l) i = Some lp \<and> locks p lp)"
  by (fastforce simp: Matches_def locks_def split: option.splits if_splits)

text \<open>
  C26. A lock that \<open>Matches\<close> accepts has exactly the ids of the registry, and every pack's provider,
  project, version, file and Java version are the locked ones.
\<close>

theorem matches_sound:
  assumes "distinct (map fst (lf_Packs l))" "distinct (map fst (Packs c))" "Matches u l c = None"
  shows "fst ` set (lf_Packs l) = fst ` set (Packs c)
    \<and> (\<forall>i p. pack_of c i = Some p \<longrightarrow> (\<exists>lp. map_of (lf_Packs l) i = Some lp \<and> locks p lp))"
proof
  note m = assms(3) [unfolded Matches_None]
  have sub: "fst ` set (Packs c) \<subseteq> fst ` set (lf_Packs l)"
  proof
    fix i assume "i \<in> fst ` set (Packs c)"
    then obtain lp where "map_of (lf_Packs l) i = Some lp" using m by fastforce
    then show "i \<in> fst ` set (lf_Packs l)" by (metis domI dom_map_of_conv_image_fst)
  qed
  have "card (fst ` set (lf_Packs l)) = card (fst ` set (Packs c))"
    using assms(1,2) m by (metis distinct_card length_map list.set_map)
  then show "fst ` set (lf_Packs l) = fst ` set (Packs c)"
    using card_subset_eq [OF _ sub] by simp
  show "\<forall>i p. pack_of c i = Some p \<longrightarrow> (\<exists>lp. map_of (lf_Packs l) i = Some lp \<and> locks p lp)"
    using m by (fastforce simp: pack_of_def dest: map_of_SomeD)
qed

lemma sample_distinct:
  "distinct (map fst (lf_Packs sample_lock))" "distinct (map fst (Packs valid_sample))"
  by (simp_all add: sample_lock_def valid_sample_def sample_config_def)

lemma sample_matches: "Matches sample_unicode sample_lock valid_sample = None"
  by (auto simp: Matches_None sample_lock_def valid_sample_def sample_config_def sample_locked_def
      sample_pack_def zero_locked_pack_def locks_def)

theorem matches_sound_witness:
  "\<exists>lp. map_of (lf_Packs sample_lock) ''vanilla'' = Some lp \<and> locks sample_pack lp"
proof -
  have "pack_of valid_sample ''vanilla'' = Some sample_pack" by code_simp
  with matches_sound [OF sample_distinct sample_matches] show ?thesis by blast
qed

lemma IdentityDigest_cong:
  assumes "sorted_ids (Packs c) = sorted_ids (Packs d)"
    "\<And>i. i \<in> fst ` set (Packs c) \<Longrightarrow> identity_json (the (map_of (Packs c) i)) = identity_json (the (map_of (Packs d) i))"
  shows "IdentityDigest c = IdentityDigest d"
proof -
  let ?f = "\<lambda>(x :: config) i. JObj [(''ID'', JStr i), (''Pack'', identity_json (the (map_of (Packs x) i)))]"
  have "map (?f c) (sorted_ids (Packs c)) = map (?f d) (sorted_ids (Packs c))"
    by (rule map_cong) (use assms(2) in auto)
  then show ?thesis unfolding IdentityDigest_def assms(1) by (simp only:)
qed

lemma sorted_ids_cong:
  assumes "distinct (map fst m)" "distinct (map fst n)" "fst ` set m = fst ` set n"
  shows "sorted_ids m = sorted_ids n"
  unfolding sorted_ids_def
  by (rule sort_mset_cong) (use set_eq_iff_mset_eq_distinct [of "map fst m" "map fst n"] assms in simp)

text \<open>
  The lock pins only a pack's identity: after changing display names, memory, CPUs, exclusions,
  the runtime or storage settings, or reordering the map, the same lock still matches.
\<close>

theorem lock_survives_resource_changes:
  assumes "distinct (map fst (Packs c))" "distinct (map fst (Packs d))"
    and "\<forall>i. map_option identity_json (pack_of c i) = map_option identity_json (pack_of d i)"
    and "Matches u l c = None"
  shows "Matches u l d = None"
proof -
  have same: "pack_of c i = None \<longleftrightarrow> pack_of d i = None" for i
    using assms(3) [rule_format, of i] by (cases "pack_of c i"; cases "pack_of d i") auto
  have keys: "fst ` set (Packs c) = fst ` set (Packs d)"
    using same by (auto simp: pack_of_def map_of_eq_None_iff)
  have ids: "sorted_ids (Packs c) = sorted_ids (Packs d)" by (rule sorted_ids_cong [OF assms(1,2) keys])
  have "IdentityDigest c = IdentityDigest d"
  proof (rule IdentityDigest_cong [OF ids])
    fix i assume "i \<in> fst ` set (Packs c)"
    then obtain p where "pack_of c i = Some p" by (auto simp: pack_of_def assms(1))
    with assms(3) [rule_format, of i]
    show "identity_json (the (map_of (Packs c) i)) = identity_json (the (map_of (Packs d) i))"
      by (cases "pack_of d i") (auto simp: pack_of_def)
  qed
  moreover have "length (Packs c) = length (Packs d)"
    using arg_cong [OF ids, of length] by simp
  moreover have "\<exists>lp. map_of (lf_Packs l) i = Some lp \<and> locks q lp" if "(i, q) \<in> set (Packs d)" for i q
  proof -
    have d: "pack_of d i = Some q" using that assms(2) by (simp add: pack_of_def)
    with assms(3) [rule_format, of i] obtain p where p: "pack_of c i = Some p" "identity_json p = identity_json q"
      by (cases "pack_of c i") auto
    then have "(i, p) \<in> set (Packs c)" by (auto simp: pack_of_def dest: map_of_SomeD)
    with assms(4) p(2) show ?thesis
      unfolding Matches_None by (fastforce simp: locks_def identity_json_def)
  qed
  ultimately show ?thesis using assms(4) by (auto simp: Matches_None)
qed

definition resized_sample :: config where
  "resized_sample = valid_sample\<lparr>Packs := [(''vanilla'', sample_pack\<lparr>DisplayName := ''Renamed'', MemoryMB := 3072\<rparr>)]\<rparr>"

theorem lock_survives_resource_changes_witness:
  "Matches sample_unicode sample_lock resized_sample = None"
proof (rule lock_survives_resource_changes [OF sample_distinct(2) _ _ sample_matches])
  show "distinct (map fst (Packs resized_sample))" by (simp add: resized_sample_def)
  show "\<forall>i. map_option identity_json (pack_of valid_sample i) = map_option identity_json (pack_of resized_sample i)"
    by (simp add: pack_of_def resized_sample_def valid_sample_def sample_config_def identity_json_def)
qed

subsection \<open>Locked identities never change\<close>

definition pack_utf8 :: "locked_pack \<Rightarrow> bool" where
  "pack_utf8 p = list_all valid_utf8 [lp_Provider p, lp_ProjectID p, lp_VersionID p, lp_Slug p,
     lp_Minecraft p, lp_Loader p, lp_ArtifactHash p, lp_IdentityDigest p]"

text \<open>The texts whose SHA-256 digests identify the packs of a lock.\<close>

definition identity_texts :: "lock_file \<Rightarrow> byte list set" where
  "identity_texts l = (\<lambda>ip. bytes_of (marshal (identity_json (locked_identity (snd ip))))) ` set (lf_Packs l)"

lemma identity_json_inj:
  "identity_json (locked_identity p) = identity_json (locked_identity q) \<Longrightarrow> locked_identity p = locked_identity q"
  by (simp add: identity_json_def locked_identity_def)

lemma ok_identity_json: "pack_utf8 p \<Longrightarrow> ok_json (identity_json (locked_identity p))"
  by (simp add: pack_utf8_def identity_json_def locked_identity_def is_ascii_valid_utf8 is_ascii_def code_of_def)

lemma LockFile_Validate_None:
  "LockFile_Validate u l = None \<longleftrightarrow>
     lf_Schema l = 1 \<and> length (lf_ConfigDigest l) = 64 \<and> (\<forall>ip\<in>set (lf_Packs l). locked_pack_error u ip = None)"
  by (auto simp: LockFile_Validate_def)

lemma locked_pack_error_None:
  "locked_pack_error u ip = None \<Longrightarrow> lp_IdentityDigest (snd ip) = packIdentityDigest (locked_identity (snd ip))"
  by (auto simp: locked_pack_error_def Let_def split: if_splits)

text \<open>
  C27. When \<open>CheckImmutable\<close> lets a new lock replace the previous one, every pack that was locked is
  still locked, for the same provider, project, version, file and Java version: unless SHA-256
  collides on the identities of the two locks, no world is ever handed to another pack version.
\<close>

theorem check_immutable_sound:
  assumes "LockFile_Validate u old = None" "LockFile_Validate u new = None" "CheckImmutable u old new = None"
    and "\<forall>ip\<in>set (lf_Packs old) \<union> set (lf_Packs new). pack_utf8 (snd ip)"
    and "inj_on sha256_hex (identity_texts old \<union> identity_texts new)"
  shows "\<forall>(i, p)\<in>set (lf_Packs old). \<exists>q. map_of (lf_Packs new) i = Some q \<and> locked_identity q = locked_identity p"
proof (intro ballI, clarify)
  fix i p assume p: "(i, p) \<in> set (lf_Packs old)"
  with assms(3) obtain q where q: "map_of (lf_Packs new) i = Some q"
    and dig: "lp_IdentityDigest p = lp_IdentityDigest q"
    by (fastforce simp: CheckImmutable_def split: option.splits if_splits)
  then have q': "(i, q) \<in> set (lf_Packs new)" by (auto dest: map_of_SomeD)
  let ?t = "\<lambda>x. marshal (identity_json (locked_identity x))"
  have "packIdentityDigest (locked_identity p) = packIdentityDigest (locked_identity q)"
    using dig p q' assms(1,2) by (metis LockFile_Validate_None locked_pack_error_None snd_conv)
  then have "sha256_hex (bytes_of (?t p)) = sha256_hex (bytes_of (?t q))"
    by (simp add: packIdentityDigest_def)
  moreover have "bytes_of (?t p) \<in> identity_texts old" "bytes_of (?t q) \<in> identity_texts new"
    using p q' by (force simp: identity_texts_def)+
  ultimately have "?t p = ?t q" using assms(5) by (metis UnCI bytes_of_eq_iff inj_onD)
  moreover have "pack_utf8 p" "pack_utf8 q" using bspec [OF assms(4)] p q' by (metis UnCI snd_conv)+
  ultimately have "identity_json (locked_identity p) = identity_json (locked_identity q)"
    by (metis ok_identity_json option.inject unmarshal_marshal)
  then show "\<exists>q. map_of (lf_Packs new) i = Some q \<and> locked_identity q = locked_identity p"
    using q identity_json_inj by metis
qed

lemma locked_pack_errorI:
  assumes "lp_Provider p = ''modrinth'' \<or> lp_Provider p = ''curseforge''" "lp_ProjectID p \<noteq> []"
    "lp_IdentityDigest p = packIdentityDigest (locked_identity p)"
  shows "locked_pack_error u (i, p) = None"
proof -
  have "packIdentityDigest q \<noteq> []" for q
    using length_sha256_hex [of "bytes_of (marshal (identity_json q))"]
    by (auto simp: packIdentityDigest_def simp del: length_sha256_hex)
  with assms show ?thesis by (auto simp: locked_pack_error_def Let_def)
qed

definition relocked_sample :: lock_file where
  "relocked_sample = sample_lock\<lparr>lf_Packs := [(''vanilla'', (snd (hd (lf_Packs sample_lock)))\<lparr>lp_Loader := ''quilt''\<rparr>)]\<rparr>"

theorem check_immutable_sound_witness:
  "\<exists>q. map_of (lf_Packs relocked_sample) ''vanilla'' = Some q
     \<and> locked_identity q = locked_identity (snd (hd (lf_Packs sample_lock)))"
proof -
  have id: "identity_json (locked_identity (sample_locked\<lparr>lp_Java := 21, lp_IdentityDigest := d, lp_Loader := x\<rparr>))
      = identity_json sample_pack" for d x
    by (simp add: sample_locked_def sample_pack_def locked_identity_def identity_json_def zero_locked_pack_def)
  have id': "identity_json (locked_identity (sample_locked\<lparr>lp_Java := 21, lp_IdentityDigest := d\<rparr>))
      = identity_json sample_pack" for d
    by (simp add: sample_locked_def sample_pack_def locked_identity_def identity_json_def zero_locked_pack_def)
  have e: "locked_pack_error sample_unicode (i, sample_locked\<lparr>lp_Java := 21, lp_IdentityDigest := packIdentityDigest sample_pack\<rparr>) = None"
    "locked_pack_error sample_unicode (i, sample_locked\<lparr>lp_Java := 21, lp_IdentityDigest := packIdentityDigest sample_pack,
       lp_Loader := x\<rparr>) = None" for i x
    by (rule locked_pack_errorI;
        (simp add: packIdentityDigest_def id id')?; simp add: sample_locked_def zero_locked_pack_def)+
  have v: "LockFile_Validate sample_unicode sample_lock = None" "LockFile_Validate sample_unicode relocked_sample = None"
    using e by (simp_all add: LockFile_Validate_None sample_lock_def relocked_sample_def IdentityDigest_def)
  have c: "CheckImmutable sample_unicode sample_lock relocked_sample = None"
    by (simp add: CheckImmutable_def sample_lock_def relocked_sample_def)
  have asc: "is_ascii (packIdentityDigest p)" for p
    by (simp add: packIdentityDigest_def is_ascii_sha256_hex)
  have w: "\<forall>ip\<in>set (lf_Packs sample_lock) \<union> set (lf_Packs relocked_sample). pack_utf8 (snd ip)"
    using is_ascii_valid_utf8 [OF asc, of sample_pack]
    by (simp add: sample_lock_def relocked_sample_def pack_utf8_def sample_locked_def zero_locked_pack_def code_of_def)
  have i: "inj_on sha256_hex (identity_texts sample_lock \<union> identity_texts relocked_sample)"
    by (simp add: identity_texts_def sample_lock_def relocked_sample_def id id')
  from check_immutable_sound [OF v c w i] show ?thesis by (simp add: sample_lock_def)
qed

subsection \<open>Writing and reading a lock file\<close>

definition int64_range :: "int \<Rightarrow> bool" where
  "int64_range i = (- (2 ^ 63) \<le> i \<and> i < 2 ^ 63)"

definition lock_wf :: "lock_file \<Rightarrow> bool" where
  "lock_wf l = (distinct (map fst (lf_Packs l)) \<and> int64_range (lf_Schema l) \<and> valid_utf8 (lf_ConfigDigest l)
     \<and> list_all (\<lambda>(i, p). valid_utf8 i \<and> pack_utf8 p \<and> int64_range (lp_FileID p) \<and> int64_range (lp_Java p)) (lf_Packs l))"

lemma find_field_exact: "map_of fs k = Some f \<Longrightarrow> find_field fs k = Some f"
  by (simp add: find_field_def)

lemma set_members_step:
  "map_of fs k = Some f \<Longrightarrow> set_members fs ((k, v) # kvs) x = and_then (f v x) (set_members fs kvs)"
  by (simp add: find_field_exact)

lemma decode_locked_pack:
  assumes "int64_range (lp_FileID p)" "int64_range (lp_Java p)"
  shows "decode_struct locked_pack_fields (locked_pack_json p) zero_locked_pack = Inr p"
  using assms
  by (simp add: decode_struct_def locked_pack_json_def locked_pack_fields_def omit_string_def omit_int_def
      set_members_step set_string_def set_int_def int64_range_def zero_locked_pack_def
      del: set_members.simps(2))

lemma decode_entries_map:
  assumes "distinct is" "set is \<inter> fst ` set m = {}" "\<And>i. i \<in> set is \<Longrightarrow> dec (js i) z = Inr (vs i)"
  shows "decode_entries dec z (map (\<lambda>i. (i, js i)) is) m = Inr (m @ map (\<lambda>i. (i, vs i)) is)"
  using assms
proof (induction "is" arbitrary: m)
  case (Cons i "is")
  then have "AList.update i (vs i) m = m @ [(i, vs i)]" by (intro update_new) auto
  moreover have "set is \<inter> fst ` set (m @ [(i, vs i)]) = {}" using Cons.prems(1,2) by auto
  ultimately show ?case using Cons by simp
qed simp

lemma valid_utf8_simps [simp]: "code_of c < 128 \<Longrightarrow> valid_utf8 (c # s) = valid_utf8 s"
  by simp

lemma ok_locked_pack_json: "pack_utf8 p \<Longrightarrow> ok_json (locked_pack_json p)"
  by (simp add: pack_utf8_def locked_pack_json_def omit_string_def omit_int_def is_ascii_valid_utf8 code_of_def)

lemma lock_entry:
  assumes "lock_wf l" "i \<in> fst ` set (lf_Packs l)"
  shows "valid_utf8 i" "pack_utf8 (the (map_of (lf_Packs l) i))"
    "int64_range (lp_FileID (the (map_of (lf_Packs l) i)))" "int64_range (lp_Java (the (map_of (lf_Packs l) i)))"
  using assms by (auto simp: lock_wf_def list_all_iff)

text \<open>White space after the text does not matter.\<close>

lemma LoadLock_Marshal:
  assumes wf: "lock_wf l" and r: "all_ws r"
  shows "\<exists>l'. LoadLock u (Inr (LockFile_Marshal l @ r)) = (Some l', LockFile_Validate u l')
    \<and> lf_Schema l' = lf_Schema l \<and> lf_ConfigDigest l' = lf_ConfigDigest l
    \<and> map fst (lf_Packs l') = sorted_ids (lf_Packs l) \<and> map_of (lf_Packs l') = map_of (lf_Packs l)"
proof -
  let ?ids = "sorted_ids (lf_Packs l)" and ?v = "\<lambda>i. the (map_of (lf_Packs l) i)"
  define new where "new = map (\<lambda>i. (i, ?v i)) ?ids"
  have ids: "i \<in> fst ` set (lf_Packs l)" if "i \<in> set ?ids" for i using that by simp
  have "ok_json (lock_file_json l)"
    using lock_entry [OF wf ids] wf
    by (auto simp: lock_file_json_def list_all_iff lock_wf_def is_ascii_valid_utf8 code_of_def intro!: ok_locked_pack_json)
  then have un: "unmarshal (LockFile_Marshal l @ r) = Some (lock_file_json l)"
    by (simp add: LockFile_Marshal_def MarshalIndent_def unmarshal_text [OF json_text_marshal_indent r])
  have "decode_entries (decode_struct locked_pack_fields) zero_locked_pack
      (map (\<lambda>i. (i, locked_pack_json (?v i))) ?ids) [] = Inr ([] @ new)"
    unfolding new_def
  proof (rule decode_entries_map)
    show "distinct ?ids" using wf by (simp add: lock_wf_def)
  qed (use lock_entry(3,4) [OF wf ids] decode_locked_pack in auto)
  then have "decode_struct lock_file_fields (lock_file_json l) zero_lock_file = Inr (l\<lparr>lf_Packs := new\<rparr>)"
    using wf
    by (simp add: decode_struct_def lock_file_fields_def lock_file_json_def set_members_step set_int_def set_string_def
        set_map_def lock_wf_def int64_range_def zero_lock_file_def del: set_members.simps(2))
  then have "LoadLock u (Inr (LockFile_Marshal l @ r)) = (Some (l\<lparr>lf_Packs := new\<rparr>), LockFile_Validate u (l\<lparr>lf_Packs := new\<rparr>))"
    by (simp add: LoadLock_def un)
  moreover have "map_of new = map_of (lf_Packs l)"
  proof
    fix i
    show "map_of new i = map_of (lf_Packs l) i"
    proof (cases "i \<in> fst ` set (lf_Packs l)")
      case True
      then have "(i, ?v i) \<in> set new" by (simp add: new_def)
      moreover have "distinct (map fst new)" using wf by (simp add: new_def comp_def lock_wf_def)
      ultimately have "map_of new i = Some (?v i)" by simp
      moreover have "map_of (lf_Packs l) i = Some (?v i)"
        using True by (metis map_of_eq_None_iff option.exhaust_sel)
      ultimately show ?thesis by simp
    next
      case False
      then have "map_of new i = None" by (simp add: new_def map_of_eq_None_iff image_image)
      moreover have "map_of (lf_Packs l) i = None" using False by (simp add: map_of_eq_None_iff)
      ultimately show ?thesis by (simp only:)
    qed
  qed
  ultimately show ?thesis by (intro exI [of _ "l\<lparr>lf_Packs := new\<rparr>"]) (simp add: new_def comp_def)
qed

text \<open>
  C28. Writing a lock file and loading it gives back the same lock: schema, digest and every locked
  pack, and with it the same validation verdict.
\<close>

theorem lock_round_trip:
  assumes "lock_wf l"
  shows "\<exists>l'. LoadLock u (Inr (LockFile_Marshal l)) = (Some l', LockFile_Validate u l')
    \<and> lf_Schema l' = lf_Schema l \<and> lf_ConfigDigest l' = lf_ConfigDigest l
    \<and> map fst (lf_Packs l') = sorted_ids (lf_Packs l) \<and> map_of (lf_Packs l') = map_of (lf_Packs l)"
  using LoadLock_Marshal [OF assms, of "[]" u] by simp

lemma sample_lock_wf: "lock_wf sample_lock"
proof -
  have "valid_utf8 (packIdentityDigest sample_pack)" "valid_utf8 (IdentityDigest valid_sample)"
    by (simp_all add: packIdentityDigest_def IdentityDigest_def is_ascii_valid_utf8 is_ascii_sha256_hex)
  then show ?thesis
    by (simp add: lock_wf_def sample_lock_def pack_utf8_def sample_locked_def zero_locked_pack_def int64_range_def code_of_def)
qed

theorem lock_round_trip_witness:
  "\<exists>l'. LoadLock sample_unicode (Inr (LockFile_Marshal sample_lock)) = (Some l', LockFile_Validate sample_unicode l')
     \<and> map_of (lf_Packs l') = map_of (lf_Packs sample_lock)"
  using lock_round_trip [OF sample_lock_wf] by blast

end
