(* ===== verification/Rcon.thy ===== *)
theory Rcon
  imports Go_Strings
begin

text \<open>
  The RCON client of \<open>internal/rcon/client.go\<close>: framing of packets, and the two exchanges of
  \<open>Command\<close> (log in, run the command) on a connection. The bytes of the game server are the input
  of the connection; a deadline that passes is an input that ends early.
\<close>

subsection \<open>Little-endian integers\<close>

definition put_le32 :: "int32 \<Rightarrow> byte list" where
  "put_le32 w = [ucast w, ucast (drop_bit 8 w), ucast (drop_bit 16 w), ucast (drop_bit 24 w)]"

definition get_le32 :: "byte list \<Rightarrow> int32" where
  "get_le32 bs = (ucast (bs ! 0) :: int32) OR push_bit 8 (ucast (bs ! 1)) OR push_bit 16 (ucast (bs ! 2))
     OR push_bit 24 (ucast (bs ! 3))"

subsection \<open>Packets\<close>

definition payload :: "int32 \<Rightarrow> int32 \<Rightarrow> string \<Rightarrow> byte list" where
  "payload pid kind body = put_le32 pid @ put_le32 kind @ bytes_of body @ [0, 0]"

text \<open>\<open>writePacket\<close>: the length prefix and the payload are two writes.\<close>

definition writePacket :: "conn \<Rightarrow> int32 \<Rightarrow> int32 \<Rightarrow> string \<Rightarrow> conn result" where
  "writePacket c pid kind body =
     (let p = payload pid kind body
      in and_then (conn_write c (put_le32 (word_of_nat (length p)))) (\<lambda>c'. conn_write c' p))"

definition readPacket :: "byte list \<Rightarrow> ((int32 \<times> int32 \<times> string) \<times> byte list) result" where
  "readPacket r =
     and_then (read_full 4 r) (\<lambda>(nb, r1).
       let n = sint (get_le32 nb) in
       if n < 10 \<or> n > 4 * 2 ^ 20 then Inl (Errorf (''invalid rcon packet length '' @ itoa n))
       else and_then (read_full (nat n) r1) (\<lambda>(b, r2).
         Inr ((get_le32 (take 4 b), get_le32 (take 4 (drop 4 b)), TrimRight (string_of (drop 8 b)) [CHR 0x00]), r2)))"

subsection \<open>Commands\<close>

record client =
  Address :: string
  Password :: string

text \<open>
  \<open>Command\<close> on the result of dialling the server: the connection as it is left, and the answer.
\<close>

definition Command :: "client \<Rightarrow> conn result \<Rightarrow> string \<Rightarrow> conn option \<times> string result" where
  "Command c dial command =
     (case dial of
        Inl e \<Rightarrow> (None, Inl e)
      | Inr k0 \<Rightarrow>
          (case writePacket k0 1 3 (Password c) of
             Inl e \<Rightarrow> (Some k0, Inl e)
           | Inr k1 \<Rightarrow>
               (case readPacket (conn_in k1) of
                  Inl e \<Rightarrow> (Some k1, Inl e)
                | Inr ((pid, _, _), r1) \<Rightarrow>
                    let k2 = k1\<lparr>conn_in := r1\<rparr> in
                    if pid = - 1 then (Some k2, Inl (Errorf ''rcon authentication failed''))
                    else (case writePacket k2 2 2 command of
                      Inl e \<Rightarrow> (Some k2, Inl e)
                    | Inr k3 \<Rightarrow>
                        (case readPacket (conn_in k3) of
                           Inl e \<Rightarrow> (Some k3, Inl e)
                         | Inr ((pid2, _, body), r2) \<Rightarrow>
                             let k4 = k3\<lparr>conn_in := r2\<rparr> in
                             if pid2 \<noteq> 2 then (Some k4, Inl (Errorf (''unexpected rcon response id '' @ itoa (sint pid2))))
                             else (Some k4, Inr body))))))"

subsection \<open>Packets survive the wire\<close>

lemma length_put_le32 [simp]: "length (put_le32 w) = 4"
  by (simp add: put_le32_def)

lemma get_put_le32 [simp]: "get_le32 (put_le32 w) = w"
proof (rule bit_word_eqI)
  fix n assume "n < LENGTH(32)"
  then have n: "n < 32" by simp
  consider "n < 8" | "8 \<le> n \<and> n < 16" | "16 \<le> n \<and> n < 24" | "24 \<le> n \<and> n < 32" using n by linarith
  then show "bit (get_le32 (put_le32 w)) n = bit w n"
    by cases (auto simp: get_le32_def put_le32_def bit_simps dest: bit_imp_le_length)
qed

text \<open>The bytes of one packet, and those a body may have to survive the removal of trailing NULs.\<close>

definition packet :: "int32 \<Rightarrow> int32 \<Rightarrow> string \<Rightarrow> byte list" where
  "packet pid kind body = put_le32 (word_of_nat (length (payload pid kind body))) @ payload pid kind body"

definition rcon_body :: "string \<Rightarrow> bool" where
  "rcon_body s = (length s + 10 \<le> 4 * 2 ^ 20 \<and> (s = [] \<or> last s \<noteq> CHR 0x00))"

lemma writePacket_Inr:
  "writePacket c pid kind body = Inr c' \<Longrightarrow>
     conn_out c' = conn_out c @ packet pid kind body \<and> conn_in c' = conn_in c"
  by (auto simp: writePacket_def Let_def and_then_eq_Inr packet_def dest!: conn_write_InrD)

lemma writePacket_ok:
  "2 \<le> conn_writes c \<Longrightarrow>
     writePacket c pid kind body
       = Inr (c\<lparr>conn_out := conn_out c @ packet pid kind body, conn_writes := conn_writes c - 2\<rparr>)"
  by (simp add: writePacket_def Let_def conn_write_ok packet_def)

lemma length_payload [simp]: "length (payload pid kind body) = length body + 10"
  by (simp add: payload_def)

lemma trim_body:
  assumes "s = [] \<or> last s \<noteq> CHR 0x00"
  shows "TrimRight (s @ [CHR 0x00, CHR 0x00]) [CHR 0x00] = s"
  using assms by (cases s rule: rev_cases) (auto simp: TrimRight_def trim_right_by_def)

lemma readPacket_packet:
  assumes "rcon_body body"
  shows "readPacket (packet pid kind body @ r) = Inr ((pid, kind, body), r)"
proof -
  let ?p = "payload pid kind body"
  have len: "length ?p \<le> 4 * 2 ^ 20" "10 \<le> length ?p" using assms by (simp_all add: rcon_body_def)
  have n: "sint (word_of_nat (length ?p) :: int32) = int (length ?p)"
    using len by (simp add: signed_of_nat signed_take_bit_int_eq_self del: length_payload)
  have "read_full 4 (packet pid kind body @ r) = Inr (put_le32 (word_of_nat (length ?p)), ?p @ r)"
    using read_full_append [of "put_le32 (word_of_nat (length ?p))" "?p @ r"] by (simp add: packet_def)
  moreover have "read_full (length ?p) (?p @ r) = Inr (?p, r)" by (rule read_full_append)
  moreover have "take 4 ?p = put_le32 pid" "take 4 (drop 4 ?p) = put_le32 kind" "drop 8 ?p = bytes_of body @ [0, 0]"
    by (simp_all add: payload_def)
  moreover have "string_of (bytes_of body @ [0, 0]) = body @ [CHR 0x00, CHR 0x00]"
  proof -
    have "char_of_byte 0 = CHR 0x00" by code_simp
    then show ?thesis by (simp add: string_of_def bytes_of_def comp_def)
  qed
  ultimately show ?thesis
    using len n trim_body [of body] assms by (simp add: readPacket_def Let_def rcon_body_def del: length_payload)
qed

text \<open>
  Every RCON packet the client writes is read back with its id, kind and body by a peer using the
  same framing, for every body of at most 4 MiB less the ten bytes of framing that does not end in
  NUL, and the bytes behind the packet are left for the next read.
\<close>

theorem rcon_packet_round_trip:
  assumes "rcon_body body" "writePacket c pid kind body = Inr c'"
  shows "\<exists>frame. conn_out c' = conn_out c @ frame \<and> (\<forall>r. readPacket (frame @ r) = Inr ((pid, kind, body), r))"
  using writePacket_Inr [OF assms(2)] readPacket_packet [OF assms(1)] by blast

definition sample_conn :: conn where
  "sample_conn = \<lparr>conn_in = [], conn_out = [], conn_writes = 9\<rparr>"

theorem rcon_packet_round_trip_witness:
  "\<exists>c'. writePacket sample_conn 2 2 ''save-all flush'' = Inr c'
     \<and> readPacket (conn_out c') = Inr ((2, 2, ''save-all flush''), [])"
proof -
  have ok: "rcon_body ''save-all flush''" by (simp add: rcon_body_def)
  obtain c' where c': "writePacket sample_conn 2 2 ''save-all flush'' = Inr c'"
    by (simp add: writePacket_ok sample_conn_def)
  from rcon_packet_round_trip [OF ok c'] obtain frame where
    f: "conn_out c' = frame" "\<forall>r. readPacket (frame @ r) = Inr ((2, 2, ''save-all flush''), r)"
    by (auto simp: sample_conn_def)
  have "readPacket (conn_out c') = Inr ((2, 2, ''save-all flush''), [])"
    using spec [OF f(2), of "[]"] by (simp add: f(1))
  with c' show ?thesis by blast
qed

text \<open>
  C33. \<open>Command\<close> against a server that answers the login with any id but -1 and the command with id 2
  returns the server's answer, having sent exactly the login and the command; a login refused with id
  -1 is an error, and the command is then never sent.
\<close>

theorem rcon_command_correct:
  assumes "4 \<le> conn_writes k" "rcon_body b0" "rcon_body b"
    and "conn_in k = packet pid0 kind0 b0 @ packet 2 kind b @ rest"
  shows "Command c (Inr k) command =
    (if pid0 = - 1
     then (Some (k\<lparr>conn_in := packet 2 kind b @ rest, conn_out := conn_out k @ packet 1 3 (Password c),
             conn_writes := conn_writes k - 2\<rparr>), Inl (Errorf ''rcon authentication failed''))
     else (Some (k\<lparr>conn_in := rest, conn_out := conn_out k @ packet 1 3 (Password c) @ packet 2 2 command,
             conn_writes := conn_writes k - 4\<rparr>), Inr b))"
  using assms readPacket_packet [OF assms(2)] readPacket_packet [OF assms(3)]
  by (simp add: Command_def writePacket_ok Let_def)

theorem rcon_command_correct_witness:
  "snd (Command \<lparr>Address = '':1'', Password = ''pw''\<rparr>
     (Inr (sample_conn\<lparr>conn_in := packet 1 2 [] @ packet 2 0 ''Saved''\<rparr>)) ''save-all'') = Inr ''Saved''"
proof -
  have ok: "4 \<le> conn_writes (sample_conn\<lparr>conn_in := packet 1 2 [] @ packet 2 0 ''Saved''\<rparr>)"
    "rcon_body []" "rcon_body ''Saved''"
    "conn_in (sample_conn\<lparr>conn_in := packet 1 2 [] @ packet 2 0 ''Saved''\<rparr>) = packet 1 2 [] @ packet 2 0 ''Saved'' @ []"
    by (simp_all add: sample_conn_def rcon_body_def)
  show ?thesis unfolding rcon_command_correct [OF ok] by simp
qed

end
