(* ===== verification/Log_Buffer.thy ===== *)
theory Log_Buffer
  imports Go_Strings "HOL-Library.Sublist"
begin

text \<open>
  The bounded log of \<open>internal/webui/logbuffer.go\<close>: the most recent lines in memory and in one
  rotated file.

  The disk is a map from paths to contents; \<open>os_fail op path\<close> is the error an operation meets, if
  any, and \<open>os_space\<close> the bytes that can still be written. The log file is written through a handle
  that is open, closed (a rotation that failed half way leaves it so) or nil (after \<open>Close\<close>).
\<close>

record log_os =
  disk :: "string \<Rightarrow> string option"
  os_fail :: "string \<Rightarrow> string \<Rightarrow> go_error option"
  os_space :: nat

datatype handle = Open_File | Closed_File | Nil_File

record log_buffer =
  lb_path :: string
  lb_file :: handle
  lb_entries :: "string list"
  lb_maxEntries :: int
  lb_maxBytes :: int
  lb_size :: int

subsection \<open>Files\<close>

definition os_read :: "log_os \<Rightarrow> string \<Rightarrow> string result" where
  "os_read os p =
     (case os_fail os ''open'' p of
        Some e \<Rightarrow> Inl e
      | None \<Rightarrow> (case disk os p of None \<Rightarrow> Inl (ErrNotExist (''open '' @ p)) | Some s \<Rightarrow> Inr s))"

definition os_remove :: "log_os \<Rightarrow> string \<Rightarrow> log_os result" where
  "os_remove os p =
     (case os_fail os ''remove'' p of
        Some e \<Rightarrow> Inl e
      | None \<Rightarrow> (case disk os p of
            None \<Rightarrow> Inl (ErrNotExist (''remove '' @ p))
          | Some _ \<Rightarrow> Inr (os\<lparr>disk := (disk os)(p := None)\<rparr>)))"

definition os_rename :: "log_os \<Rightarrow> string \<Rightarrow> string \<Rightarrow> log_os result" where
  "os_rename os p q =
     (case os_fail os ''rename'' p of
        Some e \<Rightarrow> Inl e
      | None \<Rightarrow> (case disk os p of
            None \<Rightarrow> Inl (ErrNotExist (''rename '' @ p))
          | Some s \<Rightarrow> Inr (os\<lparr>disk := (disk os)(p := None, q := Some s)\<rparr>)))"

text \<open>\<open>os.OpenFile\<close> with \<open>O_CREATE\<close>, and \<open>O_TRUNC\<close> when \<open>trunc\<close>.\<close>

definition os_create :: "log_os \<Rightarrow> bool \<Rightarrow> string \<Rightarrow> log_os result" where
  "os_create os trunc p =
     (case os_fail os ''create'' p of
        Some e \<Rightarrow> Inl e
      | None \<Rightarrow> Inr (os\<lparr>disk := (disk os)(p := Some (if trunc then [] else case disk os p of None \<Rightarrow> [] | Some s \<Rightarrow> s))\<rparr>))"

text \<open>\<open>os.File.Write\<close> at the end of the file: the bytes written and the error.\<close>

definition file_write :: "log_os \<Rightarrow> handle \<Rightarrow> string \<Rightarrow> string \<Rightarrow> log_os \<times> nat \<times> go_error option" where
  "file_write os h path p =
     (case h of
        Open_File \<Rightarrow>
          let n = min (length p) (os_space os);
              old = (case disk os path of None \<Rightarrow> [] | Some s \<Rightarrow> s)
          in (os\<lparr>disk := (disk os)(path := Some (old @ take n p)), os_space := os_space os - n\<rparr>, n,
              if n < length p then Some (Errorf ''no space left on device'') else None)
      | Closed_File \<Rightarrow> (os, 0, Some (Errorf ''file already closed''))
      | Nil_File \<Rightarrow> (os, 0, Some (Errorf ''invalid argument'')))"

definition file_close :: "log_os \<Rightarrow> handle \<Rightarrow> string \<Rightarrow> handle \<times> go_error option" where
  "file_close os h path =
     (case h of
        Open_File \<Rightarrow> (Closed_File, os_fail os ''close'' path)
      | Closed_File \<Rightarrow> (Closed_File, Some (Errorf ''file already closed''))
      | Nil_File \<Rightarrow> (Nil_File, Some (Errorf ''invalid argument'')))"

subsection \<open>The buffer\<close>

definition appendEntry :: "log_buffer \<Rightarrow> string \<Rightarrow> log_buffer" where
  "appendEntry b line =
     (let es = lb_entries b @ [line]
      in b\<lparr>lb_entries := if int (length es) > lb_maxEntries b then drop (length es - nat (lb_maxEntries b)) es else es\<rparr>)"

definition load_file :: "log_os \<Rightarrow> log_buffer \<Rightarrow> string \<Rightarrow> log_buffer result" where
  "load_file os b path =
     (case os_read os path of
        Inl e \<Rightarrow> if is_not_exist e then Inr b else Inl e
      | Inr s \<Rightarrow>
          (case snd (scan_lines 1048576 s) of
             Some e \<Rightarrow> Inl e
           | None \<Rightarrow> Inr (fold (\<lambda>l b. appendEntry b l) (fst (scan_lines 1048576 s)) b)))"

definition NewLogBuffer :: "log_os \<Rightarrow> string \<Rightarrow> int \<Rightarrow> int \<Rightarrow> (log_os \<times> log_buffer) result" where
  "NewLogBuffer os path maxEntries maxBytes =
     (if maxEntries \<le> 0 \<or> maxBytes \<le> 0 then Inl (Errorf ''log limits must be positive'')
      else case os_fail os ''mkdir'' path of
        Some e \<Rightarrow> Inl e
      | None \<Rightarrow>
          let b = \<lparr>lb_path = path, lb_file = Nil_File, lb_entries = [], lb_maxEntries = maxEntries,
                   lb_maxBytes = maxBytes, lb_size = 0\<rparr>
          in and_then (load_file os b (path @ ''.1'')) (\<lambda>b1.
             and_then (load_file os b1 path) (\<lambda>b2.
             and_then (os_create os False path) (\<lambda>os'.
               Inr (os', b2\<lparr>lb_file := Open_File,
                 lb_size := (if os_fail os ''stat'' path = None
                             then (case disk os' path of None \<Rightarrow> 0 | Some s \<Rightarrow> int (length s)) else 0)\<rparr>)))))"

text \<open>The pattern \<open>err != nil && !errors.Is(err, os.ErrNotExist)\<close>.\<close>

definition unless_missing :: "log_os \<Rightarrow> log_os result \<Rightarrow> log_os result" where
  "unless_missing os r =
     (case r of Inl e \<Rightarrow> if is_not_exist e then Inr os else Inl e | Inr os' \<Rightarrow> Inr os')"

definition rotate_log :: "log_os \<Rightarrow> log_buffer \<Rightarrow> log_os \<times> log_buffer \<times> go_error option" where
  "rotate_log os b =
     (let (h, cerr) = file_close os (lb_file b) (lb_path b); b1 = b\<lparr>lb_file := h\<rparr>; p = lb_path b in
      case cerr of
        Some e \<Rightarrow> (os, b1, Some e)
      | None \<Rightarrow>
          (case unless_missing os (os_remove os (p @ ''.1'')) of
             Inl e \<Rightarrow> (os, b1, Some e)
           | Inr os1 \<Rightarrow>
               (case unless_missing os1 (os_rename os1 p (p @ ''.1'')) of
                  Inl e \<Rightarrow> (os1, b1, Some e)
                | Inr os2 \<Rightarrow>
                    (case os_create os2 True p of
                       Inl e \<Rightarrow> (os2, b1, Some e)
                     | Inr os3 \<Rightarrow> (os3, b1\<lparr>lb_file := Open_File, lb_size := 0\<rparr>, None)))))"

definition entry_lines :: "string \<Rightarrow> string list" where
  "entry_lines p = filter (\<lambda>l. l \<noteq> []) (split_on newline (TrimSuffix p [newline]))"

definition log_append :: "log_os \<Rightarrow> log_buffer \<Rightarrow> string \<Rightarrow> log_os \<times> log_buffer \<times> nat \<times> go_error option" where
  "log_append os b p =
     (let (os', n, err) = file_write os (lb_file b) (lb_path b) p;
          b' = b\<lparr>lb_size := lb_size b + int n\<rparr>
      in (os', fold (\<lambda>l b. appendEntry b l) (entry_lines (take n p)) b', n, err))"

definition LogBuffer_Write :: "log_os \<Rightarrow> log_buffer \<Rightarrow> string \<Rightarrow> log_os \<times> log_buffer \<times> nat \<times> go_error option" where
  "LogBuffer_Write os b p =
     (if lb_size b + int (length p) > lb_maxBytes b then
        (case rotate_log os b of
           (os1, b1, Some e) \<Rightarrow> (os1, b1, 0, Some e)
         | (os1, b1, None) \<Rightarrow> log_append os1 b1 p)
      else log_append os b p)"

definition Recent :: "log_buffer \<Rightarrow> int \<Rightarrow> string list" where
  "Recent b limit =
     (let n = (if limit \<le> 0 \<or> limit > int (length (lb_entries b)) then length (lb_entries b) else nat limit)
      in drop (length (lb_entries b) - n) (lb_entries b))"

definition LogBuffer_Close :: "log_os \<Rightarrow> log_buffer \<Rightarrow> log_buffer \<times> go_error option" where
  "LogBuffer_Close os b =
     (if lb_file b = Nil_File then (b, None)
      else let (h, err) = file_close os (lb_file b) (lb_path b) in (b\<lparr>lb_file := Nil_File\<rparr>, err))"

subsection \<open>The last lines\<close>

definition lastn :: "nat \<Rightarrow> 'a list \<Rightarrow> 'a list" where
  "lastn n xs = drop (length xs - n) xs"

lemma lastn_rev: "lastn n xs = rev (take n (rev xs))"
  by (simp add: lastn_def rev_take)

lemma lastn_append_lastn [simp]: "lastn n (lastn n xs @ ys) = lastn n (xs @ ys)"
  by (simp add: lastn_rev min_def)

lemma length_lastn: "length (lastn n xs) = min n (length xs)"
  by (simp add: lastn_def)

lemma suffix_lastn: "suffix (lastn n xs) xs"
  by (simp add: lastn_def suffix_drop)

lemma lastn_all [simp]: "length xs \<le> n \<Longrightarrow> lastn n xs = xs"
  by (simp add: lastn_def)

lemma appendEntry_lastn:
  "0 < lb_maxEntries b \<Longrightarrow> appendEntry b l = b\<lparr>lb_entries := lastn (nat (lb_maxEntries b)) (lb_entries b @ [l])\<rparr>"
  by (auto simp: appendEntry_def Let_def lastn_def)

lemma fold_appendEntry:
  assumes "0 < lb_maxEntries b" "int (length (lb_entries b)) \<le> lb_maxEntries b"
  shows "fold (\<lambda>l b. appendEntry b l) ls b = b\<lparr>lb_entries := lastn (nat (lb_maxEntries b)) (lb_entries b @ ls)\<rparr>"
  using assms
proof (induction ls arbitrary: b)
  case Nil
  then have "lastn (nat (lb_maxEntries b)) (lb_entries b) = lb_entries b" by (intro lastn_all) linarith
  then show ?case by simp
next
  case (Cons l ls)
  let ?n = "nat (lb_maxEntries b)"
  let ?b = "appendEntry b l"
  have b: "?b = b\<lparr>lb_entries := lastn ?n (lb_entries b @ [l])\<rparr>"
    using Cons.prems(1) by (rule appendEntry_lastn)
  have "fold (\<lambda>l b. appendEntry b l) ls ?b
      = ?b\<lparr>lb_entries := lastn (nat (lb_maxEntries ?b)) (lb_entries ?b @ ls)\<rparr>"
    by (rule Cons.IH) (use Cons.prems b in \<open>simp_all add: length_lastn\<close>)
  then show ?case using lastn_append_lastn [of ?n "lb_entries b @ [l]" ls] by (simp add: b)
qed

subsection \<open>The invariant\<close>

text \<open>
  Positive limits, at most \<open>maxEntries\<close> lines in memory, and a recorded size that is the size of the
  open file.
\<close>

definition log_inv :: "log_os \<Rightarrow> log_buffer \<Rightarrow> bool" where
  "log_inv os b =
     (0 < lb_maxEntries b \<and> 0 < lb_maxBytes b \<and> int (length (lb_entries b)) \<le> lb_maxEntries b
      \<and> (lb_file b = Open_File \<longrightarrow> (\<exists>s. disk os (lb_path b) = Some s \<and> lb_size b = int (length s))))"

lemma log_append_inv:
  assumes "log_inv os b" "log_append os b p = (os', b', n, err)"
  shows "log_inv os' b' \<and> n \<le> length p \<and> lb_size b' = lb_size b + int n \<and> lb_file b' = lb_file b
    \<and> lb_path b' = lb_path b \<and> lb_maxBytes b' = lb_maxBytes b \<and> lb_maxEntries b' = lb_maxEntries b
    \<and> disk os' (lb_path b @ ''.1'') = disk os (lb_path b @ ''.1'')
    \<and> lb_entries b' = lastn (nat (lb_maxEntries b)) (lb_entries b @ entry_lines (take n p))"
proof -
  obtain os'' n' err' where fw0: "file_write os (lb_file b) (lb_path b) p = (os'', n', err')"
    by (cases "file_write os (lb_file b) (lb_path b) p")
  then have fw: "file_write os (lb_file b) (lb_path b) p = (os', n', err')"
    using assms(2) by (simp add: log_append_def Let_def)
  let ?b = "b\<lparr>lb_size := lb_size b + int n'\<rparr>"
  have b': "n = n'" "b' = ?b\<lparr>lb_entries := lastn (nat (lb_maxEntries b)) (lb_entries b @ entry_lines (take n p))\<rparr>"
    using assms fold_appendEntry [of ?b "entry_lines (take n' p)"] by (auto simp: log_append_def fw log_inv_def)
  have n: "n' \<le> length p" "disk os' (lb_path b @ ''.1'') = disk os (lb_path b @ ''.1'')"
    using fw by (auto simp: file_write_def Let_def split: handle.splits)
  have "\<exists>s. disk os' (lb_path b) = Some s \<and> lb_size b + int n' = int (length s)" if "lb_file b = Open_File"
    using fw that assms(1) by (auto simp: file_write_def Let_def log_inv_def)
  then show ?thesis using assms(1) n by (auto simp: b' log_inv_def length_lastn)
qed

lemma unless_missing_Inr:
  "unless_missing os r = Inr os' \<Longrightarrow> r = Inr os' \<or> (os' = os \<and> (\<exists>e. r = Inl e \<and> is_not_exist e))"
  by (auto simp: unless_missing_def split: sum.splits if_splits)

lemma path_neq_backup [simp]: "p \<noteq> p @ ''.1''" "p @ ''.1'' \<noteq> p"
  by simp_all

lemma rotate_log_None:
  assumes "rotate_log os b = (os', b', None)"
  shows "b' = b\<lparr>lb_file := Open_File, lb_size := 0\<rparr>" "lb_file b = Open_File" "disk os' (lb_path b) = Some []"
    "\<And>s. os_fail os ''rename'' (lb_path b) = None \<Longrightarrow> disk os (lb_path b) = Some s \<Longrightarrow>
       disk os' (lb_path b @ ''.1'') = Some s"
    "os_fail os' = os_fail os" "os_space os' = os_space os"
proof -
  let ?p = "lb_path b"
  have open': "lb_file b = Open_File"
    using assms by (cases "lb_file b") (auto simp: rotate_log_def file_close_def)
  then obtain os1 os2 where o1: "unless_missing os (os_remove os (?p @ ''.1'')) = Inr os1"
    and o2: "unless_missing os1 (os_rename os1 ?p (?p @ ''.1'')) = Inr os2"
    and o3: "os_create os2 True ?p = Inr os'" and b': "b' = b\<lparr>lb_file := Open_File, lb_size := 0\<rparr>"
    using assms by (auto simp: rotate_log_def file_close_def Let_def split: option.splits sum.splits)
  have r1: "disk os1 ?p = disk os ?p \<and> os_fail os1 = os_fail os \<and> os_space os1 = os_space os"
    using unless_missing_Inr [OF o1] by (auto simp: os_remove_def split: option.splits)
  have r2: "(os_fail os1 ''rename'' ?p = None \<longrightarrow> (\<forall>s. disk os1 ?p = Some s \<longrightarrow> disk os2 (?p @ ''.1'') = Some s)) \<and> os_fail os2 = os_fail os1
      \<and> os_space os2 = os_space os1"
    using unless_missing_Inr [OF o2] by (auto simp: os_rename_def split: option.splits)
  have r3: "disk os' ?p = Some []" "disk os' (?p @ ''.1'') = disk os2 (?p @ ''.1'')" "os_fail os' = os_fail os2"
    "os_space os' = os_space os2"
    using o3 by (auto simp: os_create_def split: option.splits)
  show "b' = b\<lparr>lb_file := Open_File, lb_size := 0\<rparr>" "lb_file b = Open_File" "disk os' ?p = Some []"
    "os_fail os' = os_fail os" "os_space os' = os_space os"
    using b' open' r1 r2 r3 by simp_all
  show "disk os' (?p @ ''.1'') = Some s" if "os_fail os ''rename'' ?p = None" "disk os ?p = Some s" for s
    using that r1 r2 r3 by simp
qed

lemma rotate_log_Some:
  assumes "rotate_log os b = (os', b', Some e)"
  shows "lb_file b' \<noteq> Open_File" "\<exists>h. b' = b\<lparr>lb_file := h\<rparr>"
  using assms
  by (auto simp: rotate_log_def file_close_def Let_def split: handle.splits option.splits sum.splits)


definition sample_os :: log_os where
  "sample_os = \<lparr>disk = (\<lambda>p. if p = ''log'' then Some ''abcdef'' else None), os_fail = (\<lambda>_ _. None), os_space = 100\<rparr>"

definition sample_log :: log_buffer where
  "sample_log = \<lparr>lb_path = ''log'', lb_file = Open_File, lb_entries = [], lb_maxEntries = 2, lb_maxBytes = 8, lb_size = 6\<rparr>"


subsection \<open>What a reader sees, before and after a restart\<close>

text \<open>The lines one record leaves on disk, as the program's JSON log handler writes them.\<close>

definition log_line :: "string \<Rightarrow> bool" where
  "log_line l = (l \<noteq> [] \<and> newline \<notin> set l \<and> last l \<noteq> CHR 0x0D \<and> length l < 1048576)"

definition log_text :: "string list \<Rightarrow> string" where
  "log_text ls = concat (map (\<lambda>l. l @ [newline]) ls)"

fun log_writes :: "log_os \<Rightarrow> log_buffer \<Rightarrow> string list \<Rightarrow> log_os \<times> log_buffer" where
  "log_writes os b [] = (os, b)"
| "log_writes os b (l # ls) = (case LogBuffer_Write os b (l @ [newline]) of (os', b', _, _) \<Rightarrow> log_writes os' b' ls)"

lemma log_text_simps [simp]: "log_text [] = []" "log_text (l # ls) = l @ newline # log_text ls"
  "log_text (ls @ ms) = log_text ls @ log_text ms"
  by (simp_all add: log_text_def)

lemma split_log_text: "\<forall>l\<in>set ls. log_line l \<Longrightarrow> split_on newline (log_text ls) = ls @ [[]]"
  by (induction ls) (auto simp: split_on_append split_on_single log_line_def)

lemma scan_log_text:
  assumes "\<forall>l\<in>set ls. log_line l"
  shows "scan_lines 1048576 (log_text ls) = (ls, None)"
proof -
  have "raw_lines (log_text ls) = ls" by (simp add: raw_lines_def split_log_text [OF assms])
  moreover have "takeWhile (\<lambda>l. length l < 1048576) ls = ls"
    using assms by (auto simp: takeWhile_eq_all_conv log_line_def)
  moreover have "map strip_cr ls = ls"
    using assms by (auto simp: strip_cr_def log_line_def intro: map_idI)
  ultimately show ?thesis by (simp only: scan_lines_def Let_def) simp
qed

lemma entry_lines_record: "log_line l \<Longrightarrow> entry_lines (l @ [newline]) = [l]"
  by (simp add: entry_lines_def log_line_def split_on_single)

text \<open>
  The relation between the buffer, the disk and the lines written so far: the rotated file holds
  \<open>A\<close>, the current file \<open>B\<close>, and \<open>A @ B\<close> are the most recent lines.
\<close>

definition backup_holds :: "log_os \<Rightarrow> string \<Rightarrow> string list \<Rightarrow> bool" where
  "backup_holds os p A = (disk os (p @ ''.1'') = Some (log_text A) \<or> disk os (p @ ''.1'') = None \<and> A = [])"

definition log_rel :: "string list \<Rightarrow> string list \<Rightarrow> string list \<Rightarrow> log_os \<Rightarrow> log_buffer \<Rightarrow> bool" where
  "log_rel lines A B os b =
     (log_inv os b \<and> lb_file b = Open_File \<and> os_fail os = (\<lambda>_ _. None)
      \<and> backup_holds os (lb_path b) A \<and> disk os (lb_path b) = Some (log_text B)
      \<and> suffix (A @ B) lines \<and> (lines \<noteq> [] \<longrightarrow> B \<noteq> [])
      \<and> (int (length (log_text lines)) \<le> lb_maxBytes b \<longrightarrow> A @ B = lines \<and> A = [])
      \<and> lb_entries b = lastn (nat (lb_maxEntries b)) lines)"

lemma rotate_log_ok:
  assumes "log_inv os b" "lb_file b = Open_File" "os_fail os = (\<lambda>_ _. None)"
  shows "\<exists>os'. rotate_log os b = (os', b\<lparr>lb_file := Open_File, lb_size := 0\<rparr>, None)"
  using assms
  by (cases "disk os (lb_path b @ ''.1'')")
     (auto simp: rotate_log_def Let_def file_close_def os_remove_def os_rename_def os_create_def unless_missing_def log_inv_def)

lemma file_write_ok:
  "length p \<le> os_space os \<Longrightarrow> disk os path = Some s \<Longrightarrow>
     file_write os Open_File path p
       = (os\<lparr>disk := (disk os)(path := Some (s @ p)), os_space := os_space os - length p\<rparr>, length p, None)"
  by (simp add: file_write_def Let_def)

lemma log_append_rel:
  assumes "log_inv os b" "lb_file b = Open_File" "os_fail os = (\<lambda>_ _. None)" "disk os (lb_path b) = Some (log_text B)"
    "log_line l" "length l < os_space os" "lb_entries b = lastn (nat (lb_maxEntries b)) lines"
  shows "\<exists>os' b'. log_append os b (l @ [newline]) = (os', b', length l + 1, None) \<and> log_inv os' b'
    \<and> lb_file b' = Open_File \<and> lb_path b' = lb_path b \<and> os_fail os' = (\<lambda>_ _. None)
    \<and> disk os' (lb_path b @ ''.1'') = disk os (lb_path b @ ''.1'')
    \<and> disk os' (lb_path b) = Some (log_text (B @ [l])) \<and> os_space os' = os_space os - (length l + 1)
    \<and> lb_maxBytes b' = lb_maxBytes b \<and> lb_maxEntries b' = lb_maxEntries b
    \<and> lb_entries b' = lastn (nat (lb_maxEntries b)) (lines @ [l])"
proof -
  obtain os' b' where ap: "log_append os b (l @ [newline]) = (os', b', length l + 1, None)"
    and os': "os' = os\<lparr>disk := (disk os)(lb_path b := Some (log_text (B @ [l]))), os_space := os_space os - (length l + 1)\<rparr>"
    using file_write_ok [of "l @ [newline]" os "lb_path b" "log_text B"] assms(2,4,6) by (auto simp: log_append_def)
  note inv = log_append_inv [OF assms(1) ap]
  then have "lb_entries b' = lastn (nat (lb_maxEntries b)) (lines @ [l])"
    using assms(7) entry_lines_record [OF assms(5)] by simp
  with inv ap os' assms(2,3) show ?thesis by (intro exI [of _ os'] exI [of _ b']) simp
qed

lemma log_write_rel:
  assumes R: "log_rel lines A B os b" and l: "log_line l" and sp: "length l < os_space os"
  shows "\<exists>os' b' A' B'. LogBuffer_Write os b (l @ [newline]) = (os', b', length l + 1, None)
    \<and> log_rel (lines @ [l]) A' B' os' b' \<and> os_space os' = os_space os - (length l + 1)
    \<and> lb_path b' = lb_path b \<and> lb_maxBytes b' = lb_maxBytes b \<and> lb_maxEntries b' = lb_maxEntries b"
proof (cases "lb_size b + int (length (l @ [newline])) > lb_maxBytes b")
  case False
  then have w: "LogBuffer_Write os b (l @ [newline]) = log_append os b (l @ [newline])"
    by (simp add: LogBuffer_Write_def)
  obtain os' b' where "log_append os b (l @ [newline]) = (os', b', length l + 1, None)"
    and f: "log_inv os' b'" "lb_file b' = Open_File" "lb_path b' = lb_path b" "os_fail os' = (\<lambda>_ _. None)"
      "disk os' (lb_path b @ ''.1'') = disk os (lb_path b @ ''.1'')" "disk os' (lb_path b) = Some (log_text (B @ [l]))"
      "os_space os' = os_space os - (length l + 1)" "lb_maxBytes b' = lb_maxBytes b" "lb_maxEntries b' = lb_maxEntries b"
      "lb_entries b' = lastn (nat (lb_maxEntries b)) (lines @ [l])"
    using log_append_rel [of os b B l lines] R l sp by (auto simp: log_rel_def)
  moreover have "log_rel (lines @ [l]) A (B @ [l]) os' b'"
    using R f by (auto simp: log_rel_def backup_holds_def suffix_def)
  ultimately show ?thesis unfolding w by blast
next
  case True
  obtain os1 where rot: "rotate_log os b = (os1, b\<lparr>lb_file := Open_File, lb_size := 0\<rparr>, None)"
    using rotate_log_ok R unfolding log_rel_def by blast
  note r = rotate_log_None [OF rot]
  let ?b = "b\<lparr>lb_file := Open_File, lb_size := 0\<rparr>"
  have one: "disk os1 (lb_path b @ ''.1'') = Some (log_text B)" using r(4) R by (simp add: log_rel_def)
  have inv: "log_inv os1 ?b" using R r(3) by (auto simp: log_rel_def log_inv_def)
  have w: "LogBuffer_Write os b (l @ [newline]) = log_append os1 ?b (l @ [newline])"
    using True rot by (simp add: LogBuffer_Write_def)
  have "\<exists>os' b'. log_append os1 ?b (l @ [newline]) = (os', b', length l + 1, None) \<and> log_inv os' b'
    \<and> lb_file b' = Open_File \<and> lb_path b' = lb_path ?b \<and> os_fail os' = (\<lambda>_ _. None)
    \<and> disk os' (lb_path ?b @ ''.1'') = disk os1 (lb_path ?b @ ''.1'')
    \<and> disk os' (lb_path ?b) = Some (log_text ([] @ [l])) \<and> os_space os' = os_space os1 - (length l + 1)
    \<and> lb_maxBytes b' = lb_maxBytes ?b \<and> lb_maxEntries b' = lb_maxEntries ?b
    \<and> lb_entries b' = lastn (nat (lb_maxEntries ?b)) (lines @ [l])"
    by (rule log_append_rel [OF inv]) (use R r(3,5,6) l sp in \<open>simp_all add: log_rel_def\<close>)
  then obtain os' b' where ap: "log_append os1 ?b (l @ [newline]) = (os', b', length l + 1, None)"
    and f: "log_inv os' b'" "lb_file b' = Open_File" "lb_path b' = lb_path b" "os_fail os' = (\<lambda>_ _. None)"
      "disk os' (lb_path b @ ''.1'') = Some (log_text B)" "disk os' (lb_path b) = Some (log_text [l])"
      "os_space os' = os_space os - (length l + 1)" "lb_maxBytes b' = lb_maxBytes b" "lb_maxEntries b' = lb_maxEntries b"
      "lb_entries b' = lastn (nat (lb_maxEntries b)) (lines @ [l])"
    using one r(6) by auto
  have sz: "lb_size b = int (length (log_text B))" using R by (auto simp: log_rel_def log_inv_def)
  have sfx: "suffix (B @ [l]) (lines @ [l])" using R by (auto simp: log_rel_def suffix_def)
  have "\<not> int (length (log_text (lines @ [l]))) \<le> lb_maxBytes b"
  proof
    obtain pre where "lines = pre @ B" using sfx by (auto simp: suffix_def)
    moreover assume "int (length (log_text (lines @ [l]))) \<le> lb_maxBytes b"
    ultimately show False using True sz by simp
  qed
  then have "log_rel (lines @ [l]) B [l] os' b'"
    using f sfx by (simp add: log_rel_def backup_holds_def)
  with ap f show ?thesis unfolding w by blast
qed

lemma log_writes_rel:
  assumes "log_rel lines A B os b" "\<forall>l\<in>set new. log_line l" "length (log_text new) \<le> os_space os"
  shows "\<exists>A' B'. log_rel (lines @ new) A' B' (fst (log_writes os b new)) (snd (log_writes os b new))
    \<and> lb_path (snd (log_writes os b new)) = lb_path b
    \<and> lb_maxBytes (snd (log_writes os b new)) = lb_maxBytes b
    \<and> lb_maxEntries (snd (log_writes os b new)) = lb_maxEntries b"
  using assms
proof (induction new arbitrary: lines A B os b)
  case (Cons l new)
  then have "log_line l" "length l < os_space os" by simp_all
  from log_write_rel [OF Cons.prems(1) this] obtain os' b' A' B'
    where w: "LogBuffer_Write os b (l @ [newline]) = (os', b', length l + 1, None)"
      and R: "log_rel (lines @ [l]) A' B' os' b'" and sp: "os_space os' = os_space os - (length l + 1)"
      and k: "lb_path b' = lb_path b" "lb_maxBytes b' = lb_maxBytes b" "lb_maxEntries b' = lb_maxEntries b"
    by blast
  have "length (log_text new) \<le> os_space os'" using Cons.prems(3) sp by simp
  from Cons.IH [OF R _ this] Cons.prems(2) k show ?case by (simp add: w)
qed auto

lemma load_log_text:
  assumes "disk os p = Some (log_text ls) \<or> disk os p = None \<and> ls = []" "\<forall>l\<in>set ls. log_line l"
    "os_fail os = (\<lambda>_ _. None)" "0 < lb_maxEntries b" "int (length (lb_entries b)) \<le> lb_maxEntries b"
  shows "load_file os b p = Inr (b\<lparr>lb_entries := lastn (nat (lb_maxEntries b)) (lb_entries b @ ls)\<rparr>)"
proof -
  have e: "b\<lparr>lb_entries := lastn (nat (lb_maxEntries b)) (lb_entries b)\<rparr> = b"
    using assms(5) lastn_all [of "lb_entries b" "nat (lb_maxEntries b)"] by simp
  show ?thesis
    using assms scan_log_text [OF assms(2)] e by (auto simp: load_file_def os_read_def fold_appendEntry)
qed

lemma NewLogBuffer_rel:
  assumes "0 < m" "0 < k" "os_fail os = (\<lambda>_ _. None)" "backup_holds os p A"
    "disk os p = Some (log_text B) \<or> disk os p = None \<and> B = []" "\<forall>l\<in>set (A @ B). log_line l"
  shows "\<exists>os' b. NewLogBuffer os p m k = Inr (os', b) \<and> lb_entries b = lastn (nat m) (A @ B)
    \<and> log_inv os' b \<and> lb_file b = Open_File \<and> lb_path b = p \<and> lb_maxBytes b = k \<and> lb_maxEntries b = m
    \<and> os_fail os' = (\<lambda>_ _. None) \<and> disk os' = (disk os)(p := Some (log_text B)) \<and> os_space os' = os_space os"
proof -
  let ?b = "\<lparr>lb_path = p, lb_file = Nil_File, lb_entries = [], lb_maxEntries = m, lb_maxBytes = k, lb_size = 0\<rparr>"
  let ?b1 = "?b\<lparr>lb_entries := lastn (nat m) A\<rparr>"
  have l1: "load_file os ?b (p @ ''.1'') = Inr ?b1"
    using load_log_text [of os "p @ ''.1''" A ?b] assms by (simp add: backup_holds_def)
  have l2: "load_file os ?b1 p = Inr (?b\<lparr>lb_entries := lastn (nat m) (A @ B)\<rparr>)"
    using load_log_text [of os p B ?b1] assms by (simp add: length_lastn)
  show ?thesis
    using assms l1 l2 by (auto simp: NewLogBuffer_def Let_def os_create_def log_inv_def length_lastn)
qed

lemma Recent_all [simp]: "Recent b 0 = lb_entries b"
  by (simp add: Recent_def)

text \<open>
  The log survives a restart. Starting without a log file, after any sequence of log records
  written while the disk had room, \<open>Recent\<close> returns exactly the last \<open>maxEntries\<close> lines; and a new
  process opening the same file reads back the last \<open>maxEntries\<close> of the lines still kept on disk,
  which are the most recent ones: always the newest, and all of them while they fit \<open>maxBytes\<close>.
\<close>

theorem log_survives_restart:
  assumes "0 < m" "0 < k" "os_fail os0 = (\<lambda>_ _. None)" "disk os0 p = None" "disk os0 (p @ ''.1'') = None"
    and "\<forall>l\<in>set lines. log_line l" "length (log_text lines) \<le> os_space os0"
    and "NewLogBuffer os0 p m k = Inr (os1, b1)" "log_writes os1 b1 lines = (os2, b2)"
  shows "Recent b2 0 = lastn (nat m) lines
    \<and> (\<exists>kept os3 b3. NewLogBuffer os2 p m k = Inr (os3, b3) \<and> Recent b3 0 = lastn (nat m) kept
        \<and> suffix kept lines \<and> (lines \<noteq> [] \<longrightarrow> kept \<noteq> []) \<and> (int (length (log_text lines)) \<le> k \<longrightarrow> kept = lines))"
proof -
  have "backup_holds os0 p []" using assms(5) by (simp add: backup_holds_def)
  with NewLogBuffer_rel [OF assms(1-3), of p "[]" "[]"] assms(4,5,8)
  have b1: "log_inv os1 b1" "lb_file b1 = Open_File" "lb_path b1 = p" "lb_maxBytes b1 = k" "lb_maxEntries b1 = m"
    "os_fail os1 = (\<lambda>_ _. None)" "disk os1 = (disk os0)(p := Some [])" "os_space os1 = os_space os0" "lb_entries b1 = []"
    by auto
  then have "log_rel [] [] [] os1 b1" using assms(5) by (simp add: log_rel_def backup_holds_def)
  from log_writes_rel [OF this assms(6)] assms(7,9) b1 obtain A B where
    R: "log_rel lines A B os2 b2" and k: "lb_path b2 = p" "lb_maxBytes b2 = k" "lb_maxEntries b2 = m"
    by auto
  have "\<forall>l\<in>set (A @ B). log_line l" using R assms(6) by (auto simp: log_rel_def suffix_def)
  with NewLogBuffer_rel [OF assms(1,2), of os2 p A B] R k obtain os3 b3 where
    "NewLogBuffer os2 p m k = Inr (os3, b3)" "lb_entries b3 = lastn (nat m) (A @ B)"
    by (auto simp: log_rel_def)
  moreover have "suffix (A @ B) lines" "lines \<noteq> [] \<longrightarrow> A @ B \<noteq> []" "int (length (log_text lines)) \<le> k \<longrightarrow> A @ B = lines"
    using R k by (auto simp: log_rel_def)
  moreover have "Recent b2 0 = lastn (nat m) lines" using R k by (simp add: log_rel_def)
  ultimately show ?thesis by auto
qed

definition empty_os :: log_os where
  "empty_os = \<lparr>disk = (\<lambda>_. None), os_fail = (\<lambda>_ _. None), os_space = 100\<rparr>"

theorem log_survives_restart_witness:
  "\<exists>os1 b1 os2 b2 os3 b3. NewLogBuffer empty_os ''log'' 2 100 = Inr (os1, b1)
     \<and> log_writes os1 b1 [''a'', ''b'', ''c''] = (os2, b2) \<and> NewLogBuffer os2 ''log'' 2 100 = Inr (os3, b3)
     \<and> Recent b3 0 = [''b'', ''c'']"
proof -
  have h: "os_fail empty_os = (\<lambda>_ _. None)" "disk empty_os ''log'' = None" "disk empty_os (''log'' @ ''.1'') = None"
    "\<forall>l\<in>set [''a'', ''b'', ''c'']. log_line l" "length (log_text [''a'', ''b'', ''c'']) \<le> os_space empty_os"
    by (simp_all add: empty_os_def log_line_def)
  obtain os1 b1 where n: "NewLogBuffer empty_os ''log'' 2 100 = Inr (os1, b1)"
    using NewLogBuffer_rel [of 2 100 empty_os "''log''" "[]" "[]"] h by (auto simp: backup_holds_def)
  obtain os2 b2 where w: "log_writes os1 b1 [''a'', ''b'', ''c''] = (os2, b2)" by (cases "log_writes os1 b1 [''a'', ''b'', ''c'']")
  from log_survives_restart [OF _ _ h n w] n w show ?thesis
    by (auto simp: lastn_def)
qed

end
