(* ===== verification/Ip_Limiter.thy ===== *)
theory Ip_Limiter
  imports Prelude
begin

text \<open>
  The connection limiter of \<open>internal/router/server.go\<close> (\<open>ipLimiter\<close>): one fixed one-minute window
  per remote address, and the removal of windows older than two minutes.

  A \<open>time.Time\<close> is its nanoseconds since Go's zero time; \<open>Sub\<close> saturates at the range of a
  \<open>Duration\<close>. The lock makes every call of \<open>allow\<close> one step.
\<close>

definition minute :: int where
  "minute = 60 * 10 ^ 9"

definition duration_sub :: "int \<Rightarrow> int \<Rightarrow> int" where
  "duration_sub t u = max (- (2 ^ 63)) (min (2 ^ 63 - 1) (t - u))"

record ip_bucket =
  bk_start :: int
  bk_count :: int

record ip_limiter =
  il_limit :: int
  il_ips :: "string \<Rightarrow> ip_bucket option"

definition newIPLimiter :: "int \<Rightarrow> ip_limiter" where
  "newIPLimiter limit = \<lparr>il_limit = limit, il_ips = (\<lambda>_. None)\<rparr>"

definition allow :: "int \<Rightarrow> ip_limiter \<Rightarrow> string \<Rightarrow> ip_limiter \<times> bool" where
  "allow now l ip =
     (let b = (case il_ips l ip of Some b \<Rightarrow> b | None \<Rightarrow> \<lparr>bk_start = 0, bk_count = 0\<rparr>);
          b1 = (if duration_sub now (bk_start b) \<ge> minute then \<lparr>bk_start = now, bk_count = 0\<rparr> else b);
          b2 = (if bk_start b1 = 0 then b1\<lparr>bk_start := now\<rparr> else b1);
          b3 = b2\<lparr>bk_count := bk_count b2 + 1\<rparr>;
          ips = (il_ips l)(ip := Some b3);
          ips' = (\<lambda>k. case ips k of
                    Some v \<Rightarrow> if duration_sub now (bk_start v) > 2 * minute then None else Some v
                  | None \<Rightarrow> None)
      in (l\<lparr>il_ips := ips'\<rparr>, bk_count b3 \<le> il_limit l))"

text \<open>The decisions on a sequence of connections, each with its time and address.\<close>

fun allow_all :: "ip_limiter \<Rightarrow> (int \<times> string) list \<Rightarrow> bool list" where
  "allow_all l [] = []"
| "allow_all l ((now, ip) # rs) = (let (l', ok) = allow now l ip in ok # allow_all l' rs)"

subsection \<open>The specification: one window per address\<close>

text \<open>
  The limiter one address would have to itself: a window that opens with the first connection after
  the previous one has lasted a minute, and a count that nothing ever deletes.
\<close>

definition window_step :: "int \<Rightarrow> ip_bucket option \<Rightarrow> ip_bucket" where
  "window_step now w =
     (case w of
        Some b \<Rightarrow> if now - bk_start b \<ge> minute then \<lparr>bk_start = now, bk_count = 1\<rparr> else b\<lparr>bk_count := bk_count b + 1\<rparr>
      | None \<Rightarrow> \<lparr>bk_start = now, bk_count = 1\<rparr>)"

fun window_all :: "int \<Rightarrow> ip_bucket option \<Rightarrow> int list \<Rightarrow> bool list" where
  "window_all limit w [] = []"
| "window_all limit w (now # ts) =
     (let b = window_step now w in (bk_count b \<le> limit) # window_all limit (Some b) ts)"

definition expired :: "int \<Rightarrow> ip_bucket \<Rightarrow> bool" where
  "expired now b = (bk_start b + minute \<le> now)"

text \<open>What the shared limiter stores for an address, against the address's own window.\<close>

definition represents :: "int \<Rightarrow> ip_bucket option \<Rightarrow> ip_bucket option \<Rightarrow> bool" where
  "represents now stored w =
     (case w of
        None \<Rightarrow> stored = None
      | Some b \<Rightarrow> minute \<le> bk_start b \<and> bk_start b \<le> now \<and> (stored = Some b \<or> stored = None \<and> expired now b))"

lemma minute_pos: "0 < minute" "minute < 2 ^ 63 - 1" "2 * minute < 2 ^ 63 - 1"
  by (simp_all add: minute_def)

lemma duration_sub_ge: "duration_sub t u \<ge> minute \<longleftrightarrow> t - u \<ge> minute"
  using minute_pos by (auto simp: duration_sub_def)

lemma duration_sub_gt2: "duration_sub t u > 2 * minute \<longleftrightarrow> t - u > 2 * minute"
  using minute_pos by (auto simp: duration_sub_def)

lemma represents_later: "represents t s w \<Longrightarrow> t \<le> now \<Longrightarrow> represents now s w"
  by (auto simp: represents_def expired_def split: option.splits)

lemma allow_own:
  assumes "represents now (il_ips l ip) w" "minute \<le> now"
  shows "snd (allow now l ip) = (bk_count (window_step now w) \<le> il_limit l)"
    and "represents now (il_ips (fst (allow now l ip)) ip) (Some (window_step now w))"
proof -
  let ?b = "case il_ips l ip of Some b \<Rightarrow> b | None \<Rightarrow> \<lparr>bk_start = 0, bk_count = 0\<rparr>"
  define b1 where "b1 = (if duration_sub now (bk_start ?b) \<ge> minute then \<lparr>bk_start = now, bk_count = 0\<rparr> else ?b)"
  have pos: "0 < now" using assms(2) minute_pos(1) by linarith
  have st: "bk_start b1 \<noteq> 0"
    using assms pos minute_pos(1) by (auto simp: b1_def represents_def duration_sub_ge split: option.splits)
  have w: "b1\<lparr>bk_count := bk_count b1 + 1\<rparr> = window_step now w"
    using assms
    by (auto simp: b1_def represents_def window_step_def duration_sub_ge expired_def split: option.splits)
  have r: "minute \<le> bk_start (window_step now w)" "bk_start (window_step now w) \<le> now"
    "now - bk_start (window_step now w) \<le> 2 * minute"
    using assms minute_pos(1) by (auto simp: represents_def window_step_def split: option.splits)
  have al: "allow now l ip = (l\<lparr>il_ips := (\<lambda>k. case ((il_ips l)(ip := Some (window_step now w))) k of
        Some v \<Rightarrow> if duration_sub now (bk_start v) > 2 * minute then None else Some v
      | None \<Rightarrow> None)\<rparr>, bk_count (window_step now w) \<le> il_limit l)"
    unfolding w [symmetric] using st by (simp add: allow_def b1_def [symmetric])
  show "snd (allow now l ip) = (bk_count (window_step now w) \<le> il_limit l)"
    by (simp add: al)
  show "represents now (il_ips (fst (allow now l ip)) ip) (Some (window_step now w))"
    using r by (simp add: al represents_def duration_sub_gt2)
qed

lemma allow_other:
  assumes "represents now (il_ips l k) w" "k \<noteq> ip"
  shows "represents now (il_ips (fst (allow now l ip)) k) w"
  using assms minute_pos(1)
  by (auto simp: allow_def Let_def represents_def expired_def duration_sub_gt2 split: option.splits)

lemma allow_limit [simp]: "il_limit (fst (allow now l ip)) = il_limit l"
  by (simp add: allow_def Let_def)

text \<open>The decisions the trace contains about one address.\<close>

definition decisions :: "ip_limiter \<Rightarrow> (int \<times> string) list \<Rightarrow> string \<Rightarrow> bool list" where
  "decisions l rs ip = map snd (filter (\<lambda>(r, ok). snd r = ip) (zip rs (allow_all l rs)))"

definition times_of :: "(int \<times> string) list \<Rightarrow> string \<Rightarrow> int list" where
  "times_of rs ip = map fst (filter (\<lambda>r. snd r = ip) rs)"

lemma decisions_window:
  assumes "represents t (il_ips l ip) w" "sorted (t # map fst rs)" "minute \<le> t"
  shows "decisions l rs ip = window_all (il_limit l) w (times_of rs ip)"
  using assms
proof (induction rs arbitrary: t l w)
  case (Cons r rs)
  obtain now k where r: "r = (now, k)" by (cases r)
  have rep: "represents now (il_ips l ip) w" and now: "minute \<le> now"
    using Cons.prems represents_later r by auto
  let ?l = "fst (allow now l k)"
  have srt: "sorted (now # map fst rs)" using Cons.prems(2) r by simp
  have all: "allow_all l (r # rs) = snd (allow now l k) # allow_all ?l rs"
    by (simp add: r case_prod_unfold Let_def)
  show ?case
  proof (cases "k = ip")
    case True
    with allow_own [OF rep now] Cons.IH [OF _ srt now, of ?l "Some (window_step now w)"] all show ?thesis
      by (simp add: decisions_def times_of_def r Let_def)
  next
    case False
    with allow_other [OF rep, of k] Cons.IH [OF _ srt now, of ?l w] all show ?thesis
      by (simp add: decisions_def times_of_def r)
  qed
qed (simp_all add: decisions_def times_of_def)

text \<open>
  C29. Addresses do not influence each other: over any sequence of connections in time order, the
  shared limiter, with its periodic deletions, decides about every address exactly as if that
  address had a one-minute window of its own.
\<close>

theorem limiter_refines_windows:
  assumes "sorted (map fst rs)" "\<forall>r\<in>set rs. minute \<le> fst r"
  shows "decisions (newIPLimiter limit) rs ip = window_all limit None (times_of rs ip)"
proof (cases rs)
  case Nil
  then show ?thesis by (simp add: decisions_def times_of_def)
next
  case (Cons r rs')
  have "represents (fst r) (il_ips (newIPLimiter limit) ip) None"
    by (simp add: represents_def newIPLimiter_def)
  moreover have "sorted (fst r # map fst rs)" using assms(1) Cons by simp
  moreover have "minute \<le> fst r" using assms(2) Cons by simp
  ultimately show ?thesis using decisions_window by (simp add: newIPLimiter_def)
qed

definition sample_trace :: "(int \<times> string) list" where
  "sample_trace = [(10 ^ 12, ''a''), (10 ^ 12 + 1, ''b''), (10 ^ 12 + 2, ''a''), (2 * 10 ^ 12, ''a'')]"

lemma sample_trace_ok: "sorted (map fst sample_trace)" "\<forall>r\<in>set sample_trace. minute \<le> fst r"
  by (simp_all add: sample_trace_def minute_def)

theorem limiter_refines_windows_witness:
  "decisions (newIPLimiter 1) sample_trace ''a'' = [True, False, True]"
proof -
  have "window_all 1 None (times_of sample_trace ''a'') = [True, False, True]" by code_simp
  with limiter_refines_windows [OF sample_trace_ok] show ?thesis by simp
qed

subsection \<open>How many connections get through\<close>

definition allowed_in :: "int \<Rightarrow> int list \<Rightarrow> bool list \<Rightarrow> nat" where
  "allowed_in t ts oks = length (filter (\<lambda>(now, ok). ok \<and> t \<le> now \<and> now < t + minute) (zip ts oks))"

text \<open>What the window \<open>b\<close> leaves room for after a connection at time \<open>u\<close>.\<close>

definition room :: "int \<Rightarrow> int \<Rightarrow> int \<Rightarrow> ip_bucket \<Rightarrow> nat" where
  "room t limit u b =
     (let rest = nat limit - nat (bk_count b) in
      if bk_start b < t then (if u < t then 2 * nat limit else rest + nat limit)
      else if bk_start b < t + minute then rest else 0)"

lemma allowed_in_room:
  assumes "0 \<le> bk_count b" "0 \<le> limit" "bk_start b \<le> u" "sorted (u # ts)"
  shows "allowed_in t ts (window_all limit (Some b) ts) \<le> room t limit u b"
  using assms
proof (induction ts arbitrary: b u)
  case (Cons now ts)
  let ?b = "window_step now (Some b)"
  have start: "u \<le> now" "bk_start b \<le> now" and srt: "sorted (now # ts)" using Cons.prems(3,4) by simp_all
  have "bk_start ?b \<le> now" "0 \<le> bk_count ?b" using Cons.prems start by (simp_all add: window_step_def)
  then have IH: "allowed_in t ts (window_all limit (Some ?b) ts) \<le> room t limit now ?b"
    using Cons.IH Cons.prems(2) srt by blast
  have step: "(if bk_count ?b \<le> limit \<and> t \<le> now \<and> now < t + minute then 1 else 0) + room t limit now ?b \<le> room t limit u b"
  proof (cases "now - bk_start b \<ge> minute")
    case True
    then have b: "?b = \<lparr>bk_start = now, bk_count = 1\<rparr>" by (simp add: window_step_def)
    show ?thesis unfolding b using True Cons.prems(1-3) start minute_pos(1) by (simp add: room_def Let_def)
  next
    case False
    then have b: "?b = b\<lparr>bk_count := bk_count b + 1\<rparr>" by (simp add: window_step_def)
    have "nat (bk_count b + 1) = Suc (nat (bk_count b))" "bk_count b + 1 \<le> limit \<longrightarrow> nat (bk_count b) < nat limit"
      using Cons.prems(1,2) by linarith+
    then show ?thesis unfolding b using Cons.prems(1-3) start minute_pos(1) by (auto simp: room_def Let_def)
  qed
  have "allowed_in t (now # ts) (window_all limit (Some b) (now # ts))
      = (if bk_count ?b \<le> limit \<and> t \<le> now \<and> now < t + minute then 1 else 0)
        + allowed_in t ts (window_all limit (Some ?b) ts)"
    by (simp add: allowed_in_def Let_def)
  with IH step show ?case by linarith
qed (simp add: allowed_in_def)

text \<open>
  C30. The rate limit: whatever an address tries, at most twice \<open>connections_per_minute\<close> of its
  connections are admitted within any minute (the last of one window and the first of the next), and
  a connection after a minute of silence is always admitted.
\<close>

theorem limiter_bounds_rate:
  assumes "sorted (map fst rs)" "\<forall>r\<in>set rs. minute \<le> fst r" "0 < limit"
  shows "allowed_in t (times_of rs ip) (decisions (newIPLimiter limit) rs ip) \<le> 2 * nat limit
    \<and> (\<forall>now. minute \<le> now \<longrightarrow> (\<forall>r\<in>set rs. fst r + minute \<le> now) \<longrightarrow>
         decisions (newIPLimiter limit) (rs @ [(now, ip)]) ip = decisions (newIPLimiter limit) rs ip @ [True])"
proof
  note w = limiter_refines_windows [OF assms(1,2), of limit ip]
  show "allowed_in t (times_of rs ip) (decisions (newIPLimiter limit) rs ip) \<le> 2 * nat limit"
  proof (cases "times_of rs ip")
    case Nil
    then show ?thesis by (simp add: allowed_in_def)
  next
    case (Cons now ts)
    have "sorted (times_of rs ip)" using assms(1) by (simp add: times_of_def sorted_wrt_map sorted_wrt_filter)
    then have "sorted (now # ts)" using Cons by simp
    then have "allowed_in t ts (window_all limit (Some \<lparr>bk_start = now, bk_count = 1\<rparr>) ts)
        \<le> room t limit now \<lparr>bk_start = now, bk_count = 1\<rparr>"
      using assms(3) by (intro allowed_in_room) auto
    moreover have "(if t \<le> now \<and> now < t + minute then 1 else 0) + room t limit now \<lparr>bk_start = now, bk_count = 1\<rparr> \<le> 2 * nat limit"
      using assms(3) by (auto simp: room_def Let_def)
    ultimately show ?thesis
      unfolding w using Cons assms(3) by (auto simp: window_step_def allowed_in_def Let_def)
  qed
  show "\<forall>now. minute \<le> now \<longrightarrow> (\<forall>r\<in>set rs. fst r + minute \<le> now) \<longrightarrow>
      decisions (newIPLimiter limit) (rs @ [(now, ip)]) ip = decisions (newIPLimiter limit) rs ip @ [True]"
  proof (intro allI impI)
    fix now assume now: "minute \<le> now" "\<forall>r\<in>set rs. fst r + minute \<le> now"
    have srt: "sorted (map fst (rs @ [(now, ip)]))"
      using assms(1) now minute_pos(1) by (fastforce simp: sorted_append)
    have late: "\<forall>x\<in>set (times_of rs ip). x + minute \<le> now" using now(2) by (auto simp: times_of_def)
    have append: "window_all limit v (ts @ [now]) = window_all limit v ts @ [True]"
      if "\<forall>x\<in>set ts. x + minute \<le> now" "\<forall>b. v = Some b \<longrightarrow> bk_start b + minute \<le> now" for v ts
      using that
    proof (induction ts arbitrary: v)
      case (Cons x ts)
      have "bk_start (window_step x v) + minute \<le> now"
        using Cons.prems by (auto simp: window_step_def split: option.splits)
      with Cons show ?case by (simp add: Let_def)
    qed (use assms(3) in \<open>auto simp: window_step_def Let_def split: option.splits\<close>)
    have "decisions (newIPLimiter limit) (rs @ [(now, ip)]) ip = window_all limit None (times_of rs ip @ [now])"
      using limiter_refines_windows [OF srt, of limit ip] assms(2) now(1) by (auto simp: times_of_def)
    with append [OF late, of None] w
    show "decisions (newIPLimiter limit) (rs @ [(now, ip)]) ip = decisions (newIPLimiter limit) rs ip @ [True]" by simp
  qed
qed

theorem limiter_bounds_rate_witness:
  "allowed_in (10 ^ 12) (times_of sample_trace ''a'') (decisions (newIPLimiter 1) sample_trace ''a'') \<le> 2"
  using limiter_bounds_rate [OF sample_trace_ok, of 1 "10 ^ 12" "''a''"] by simp

end
