(* ===== verification/Go_Path.thy ===== *)
theory Go_Path
  imports Go_Strings
begin

text \<open>
  Go's \<open>path/filepath\<close> on a Unix system (and \<open>path\<close>, which agrees with it there): lexical
  processing of slash-separated paths. \<open>comps p\<close> are the components \<open>filepath.Clean\<close> leaves.
\<close>

abbreviation slash :: char where "slash \<equiv> CHR ''/''"

definition IsAbs :: "string \<Rightarrow> bool" where
  "IsAbs p = HasPrefix p ''/''"

text \<open>One component met by \<open>Clean\<close>: empty and \<open>.\<close> vanish, \<open>..\<close> cancels what precedes it.\<close>

definition clean_step :: "bool \<Rightarrow> string \<Rightarrow> string list \<Rightarrow> string list" where
  "clean_step rooted c st =
     (if c = [] \<or> c = ''.'' then st
      else if c = ''..'' then
        (if st \<noteq> [] \<and> last st \<noteq> ''..'' then butlast st else if rooted then st else st @ [c])
      else st @ [c])"

definition comps :: "string \<Rightarrow> string list" where
  "comps p = fold (clean_step (IsAbs p)) (split_on slash p) []"

definition path_text :: "bool \<Rightarrow> string list \<Rightarrow> string" where
  "path_text rooted cs =
     (if rooted then slash # Join cs [slash] else if cs = [] then ''.'' else Join cs [slash])"

definition Clean :: "string \<Rightarrow> string" where
  "Clean p = path_text (IsAbs p) (comps p)"

definition path_join :: "string list \<Rightarrow> string" where
  "path_join es =
     (let ne = filter (\<lambda>e. e \<noteq> []) es in if ne = [] then [] else Clean (Join ne [slash]))"

definition path_dir :: "string \<Rightarrow> string" where
  "path_dir p = (case last_index slash p of None \<Rightarrow> ''.'' | Some i \<Rightarrow> Clean (take (Suc i) p))"

definition path_base :: "string \<Rightarrow> string" where
  "path_base p =
     (if p = [] then ''.''
      else let q = trim_right_by (\<lambda>c. c = slash) p
        in if q = [] then ''/'' else last (split_on slash q))"

fun common_rest :: "'a list \<Rightarrow> 'a list \<Rightarrow> 'a list \<times> 'a list" where
  "common_rest (x # xs) (y # ys) = (if x = y then common_rest xs ys else (x # xs, y # ys))"
| "common_rest xs ys = (xs, ys)"

text \<open>\<open>filepath.Rel\<close>: it fails when only one path is rooted, or when the base climbs out of sight.\<close>

definition path_rel :: "string \<Rightarrow> string \<Rightarrow> string result" where
  "path_rel base target =
     (if IsAbs base \<noteq> IsAbs target then Inl (Errorf ''Rel: can't make path relative'')
      else let (b, t) = common_rest (comps base) (comps target)
        in if ''..'' \<in> set b then Inl (Errorf ''Rel: can't make path relative'')
           else Inr (path_text False (replicate (length b) ''..'' @ t)))"

subsection \<open>Ordinary names\<close>

text \<open>A name that can occur in a directory.\<close>

definition name_ok :: "string \<Rightarrow> bool" where
  "name_ok c = (c \<noteq> [] \<and> c \<noteq> ''.'' \<and> c \<noteq> ''..'' \<and> slash \<notin> set c)"

lemma clean_step_name [simp]: "name_ok c \<Longrightarrow> clean_step r c st = st @ [c]"
  by (simp add: clean_step_def name_ok_def)

lemma fold_clean_names: "\<forall>c\<in>set cs. name_ok c \<Longrightarrow> fold (clean_step r) cs st = st @ cs"
  by (induction cs arbitrary: st) simp_all

lemma split_names: "\<forall>c\<in>set cs. name_ok c \<Longrightarrow> cs \<noteq> [] \<Longrightarrow> split_on slash (Join cs [slash]) = cs"
  by (rule split_on_Join) (auto simp: name_ok_def)

lemma names_not_abs:
  assumes "\<forall>c\<in>set cs. name_ok c" "cs \<noteq> []"
  shows "\<not> IsAbs (Join cs [slash])"
proof -
  obtain c ds where cs: "cs = c # ds" using assms(2) by (cases cs) auto
  obtain x xs where "c = x # xs" "x \<noteq> slash" using assms(1) cs by (cases c) (auto simp: name_ok_def)
  then show ?thesis by (auto simp: cs Join_Cons IsAbs_def HasPrefix_def)
qed

lemma comps_names:
  assumes "\<forall>c\<in>set cs. name_ok c"
  shows "comps (Join cs [slash]) = cs" "comps (slash # Join cs [slash]) = cs"
proof -
  show "comps (Join cs [slash]) = cs"
  proof (cases "cs = []")
    case True
    then show ?thesis by (simp add: comps_def clean_step_def)
  next
    case False
    then show ?thesis by (simp add: comps_def split_names [OF assms False] fold_clean_names [OF assms])
  qed
  show "comps (slash # Join cs [slash]) = cs"
  proof (cases "cs = []")
    case True
    then show ?thesis by (simp add: comps_def clean_step_def)
  next
    case False
    then show ?thesis
      by (simp add: comps_def split_names [OF assms False] fold_clean_names [OF assms] clean_step_def)
  qed
qed

lemma Clean_names: "\<forall>c\<in>set cs. name_ok c \<Longrightarrow> cs \<noteq> [] \<Longrightarrow> Clean (Join cs [slash]) = Join cs [slash]"
  by (simp add: Clean_def comps_names names_not_abs path_text_def)

text \<open>What \<open>Clean\<close> leaves: names, after some \<open>..\<close> when the path is relative.\<close>

definition clean_comps :: "bool \<Rightarrow> string list \<Rightarrow> bool" where
  "clean_comps rooted cs =
     (\<exists>n ds. cs = replicate n ''..'' @ ds \<and> (\<forall>c\<in>set ds. name_ok c) \<and> (rooted \<longrightarrow> n = 0))"

lemma dotdot_not_name [simp]: "\<not> name_ok ''..''"
  by (simp add: name_ok_def)

lemma clean_comps_snoc_up: "clean_comps r cs \<Longrightarrow> cs = [] \<or> last cs = ''..'' \<Longrightarrow> \<not> r \<Longrightarrow> clean_comps r (cs @ [''..''])"
proof -
  assume a: "clean_comps r cs" "cs = [] \<or> last cs = ''..''" "\<not> r"
  then obtain n ds where cs: "cs = replicate n ''..'' @ ds" "\<forall>c\<in>set ds. name_ok c" by (auto simp: clean_comps_def)
  have "ds = []"
  proof (rule ccontr)
    assume ne: "ds \<noteq> []"
    then have "last cs = last ds" "cs \<noteq> []" using cs(1) by simp_all
    then have "name_ok ''..''" using a(2) cs(2) ne last_in_set [OF ne] by metis
    then show False by simp
  qed
  then have "cs @ [''..''] = replicate (Suc n) ''..'' @ []" using cs(1) by (simp add: replicate_append_same)
  then show ?thesis unfolding clean_comps_def using a(3) by (intro exI [of _ "Suc n"] exI [of _ "[]"]) simp
qed

lemma clean_comps_butlast:
  assumes "clean_comps r cs" "cs \<noteq> []" "last cs \<noteq> ''..''"
  shows "clean_comps r (butlast cs)"
proof -
  obtain n ds where cs: "cs = replicate n ''..'' @ ds" "\<forall>c\<in>set ds. name_ok c" "r \<longrightarrow> n = 0"
    using assms(1) by (auto simp: clean_comps_def)
  have "ds \<noteq> []"
  proof
    assume "ds = []"
    then have "cs = replicate n ''..''" using cs(1) by simp
    then show False using assms(2,3) by (metis empty_replicate last_replicate)
  qed
  then have "butlast cs = replicate n ''..'' @ butlast ds" using cs(1) by (simp add: butlast_append)
  moreover have "\<forall>c\<in>set (butlast ds). name_ok c" using cs(2) by (auto dest: in_set_butlastD)
  ultimately show ?thesis using cs(3) by (auto simp: clean_comps_def)
qed

lemma clean_step_clean:
  assumes "clean_comps r st" "slash \<notin> set c"
  shows "clean_comps r (clean_step r c st)"
proof -
  have "clean_comps r (st @ [c])" if "name_ok c"
  proof -
    obtain n ds where "st = replicate n ''..'' @ ds" "\<forall>c\<in>set ds. name_ok c" "r \<longrightarrow> n = 0"
      using assms(1) by (auto simp: clean_comps_def)
    then show ?thesis unfolding clean_comps_def using that by (intro exI [of _ n] exI [of _ "ds @ [c]"]) simp
  qed
  moreover have "name_ok c" if "c \<noteq> []" "c \<noteq> ''.''" "c \<noteq> ''..''" using that assms(2) by (simp add: name_ok_def)
  ultimately show ?thesis
    using clean_comps_snoc_up [OF assms(1)] clean_comps_butlast [OF assms(1)] assms(1)
    by (cases "c = ''..''"; cases "st = []") (auto simp: clean_step_def)
qed

lemma comps_clean: "clean_comps (IsAbs p) (comps p)"
proof -
  have "clean_comps r (fold (clean_step r) cs st)" if "clean_comps r st" "\<forall>c\<in>set cs. slash \<notin> set c" for r cs st
    using that by (induction cs arbitrary: st) (auto simp: clean_step_clean)
  moreover have "clean_comps r []" for r by (auto simp: clean_comps_def)
  ultimately show ?thesis unfolding comps_def using split_on_no_sep by blast
qed

text \<open>Joining a relative name path below a directory.\<close>

lemma IsAbs_append: "p \<noteq> [] \<Longrightarrow> IsAbs (p @ q) = IsAbs p"
  by (cases p) (auto simp: IsAbs_def HasPrefix_def)

lemma comps_join:
  assumes "p \<noteq> []" "\<forall>c\<in>set cs. name_ok c" "cs \<noteq> []"
  shows "comps (p @ [slash] @ Join cs [slash]) = comps p @ cs"
  using assms
  by (simp add: comps_def split_on_append split_names IsAbs_append fold_clean_names)

lemma path_text_comps:
  assumes "clean_comps r cs"
  shows "comps (path_text r cs) = cs" "IsAbs (path_text r cs) = r"
proof -
  obtain n ds where cs: "cs = replicate n ''..'' @ ds" "\<forall>c\<in>set ds. name_ok c" "r \<longrightarrow> n = 0"
    using assms by (auto simp: clean_comps_def)
  have ups: "fold (clean_step False) (replicate n ''..'') (replicate k ''..'') = replicate (k + n) ''..''" for n k
  proof (induction n arbitrary: k)
    case (Suc n)
    have "clean_step False ''..'' (replicate k ''..'') = replicate (Suc k) ''..''"
      by (cases "k = 0") (simp_all add: clean_step_def replicate_append_same)
    with Suc [of "Suc k"] show ?case by simp
  qed simp
  have sl: "\<forall>c\<in>set cs. slash \<notin> set c \<and> c \<noteq> []"
  proof
    fix c assume "c \<in> set cs"
    then consider "c = ''..''" | "name_ok c" using cs(1,2) by fastforce
    then show "slash \<notin> set c \<and> c \<noteq> []" by cases (simp_all add: name_ok_def)
  qed
  have "comps (path_text r cs) = cs \<and> IsAbs (path_text r cs) = r"
  proof (cases "cs = []")
    case True
    then show ?thesis
      by (cases r) (simp_all add: path_text_def comps_def clean_step_def IsAbs_def HasPrefix_def)
  next
    case False
    have sp: "split_on slash (Join cs [slash]) = cs" using split_on_Join [OF False] sl by blast
    show ?thesis
    proof (cases r)
      case True
      with cs have "\<forall>c\<in>set cs. name_ok c" by simp
      with True show ?thesis by (simp add: path_text_def comps_names IsAbs_def HasPrefix_def)
    next
      case nr: False
      obtain c cs' where c: "cs = c # cs'" using False by (cases cs) auto
      have "c \<noteq> [] \<and> slash \<notin> set c" using sl c by simp
      then have abs: "\<not> IsAbs (Join cs [slash])"
        by (cases c) (auto simp: c Join_Cons IsAbs_def HasPrefix_def)
      have "fold (clean_step False) cs [] = cs"
        using ups [of n 0] fold_clean_names [OF cs(2), of False "replicate n ''..''"] cs(1) by simp
      with nr False abs sp show ?thesis by (simp add: path_text_def comps_def)
    qed
  qed
  then show "comps (path_text r cs) = cs" "IsAbs (path_text r cs) = r" by auto
qed

lemma comps_Clean [simp]: "comps (Clean p) = comps p" "IsAbs (Clean p) = IsAbs p"
  by (simp_all add: Clean_def path_text_comps comps_clean)

lemma comps_path_join:
  assumes "p \<noteq> []" "\<forall>c\<in>set cs. name_ok c" "cs \<noteq> []"
  shows "comps (path_join [p, Join cs [slash]]) = comps p @ cs" "IsAbs (path_join [p, Join cs [slash]]) = IsAbs p"
proof -
  have "Join cs [slash] \<noteq> []" using assms(2,3) by (cases cs) (auto simp: Join_Cons name_ok_def)
  then have "path_join [p, Join cs [slash]] = Clean (p @ [slash] @ Join cs [slash])"
    using assms(1) by (simp add: path_join_def)
  with assms show "comps (path_join [p, Join cs [slash]]) = comps p @ cs"
    "IsAbs (path_join [p, Join cs [slash]]) = IsAbs p"
    by (simp_all add: comps_join [simplified] IsAbs_append)
qed

lemma path_text_inj: "clean_comps r cs \<Longrightarrow> clean_comps r ds \<Longrightarrow> path_text r cs = path_text r ds \<Longrightarrow> cs = ds"
  by (metis path_text_comps(1))

lemma common_rest_append: "common_rest (xs @ ys) (xs @ zs) = common_rest ys zs"
  by (induction xs) auto

lemma common_rest_Nil [simp]: "common_rest [] ys = ([], ys)"
  by (cases ys) auto

subsection \<open>Parents and trailing slashes\<close>

lemma comps_trailing_slash: "p \<noteq> [] \<Longrightarrow> comps (p @ [slash]) = comps p"
  by (simp add: comps_def split_on_append [of slash p "[]", simplified] IsAbs_append clean_step_def)

lemma path_text_not_Nil [simp]: "clean_comps r cs \<Longrightarrow> path_text r cs \<noteq> []"
proof
  assume a: "clean_comps r cs" "path_text r cs = []"
  then have "\<not> r" "cs \<noteq> []" "Join cs [slash] = []" by (auto simp: path_text_def split: if_splits)
  then obtain c ds where "cs = c # ds" "c = []" by (cases cs) (auto simp: Join_Cons split: if_splits)
  moreover have "c \<noteq> []" if c: "c \<in> set cs" for c
  proof -
    obtain n ds where "cs = replicate n ''..'' @ ds" "\<forall>c\<in>set ds. name_ok c" using a(1) by (auto simp: clean_comps_def)
    with c consider "c = ''..''" | "name_ok c" by fastforce
    then show ?thesis by cases (simp_all add: name_ok_def)
  qed
  ultimately show False by (metis list.set_intros(1))
qed

lemma Clean_not_Nil [simp]: "Clean p \<noteq> []"
  by (simp add: Clean_def comps_clean)

lemma path_dir_not_Nil [simp]: "path_dir p \<noteq> []"
  by (simp add: path_dir_def split: option.splits)

lemma Join_append: "cs \<noteq> [] \<Longrightarrow> ds \<noteq> [] \<Longrightarrow> Join (cs @ ds) sep = Join cs sep @ sep @ Join ds sep"
  by (induction cs) (auto simp: Join_Cons)

lemma Join_snoc: "cs \<noteq> [] \<Longrightarrow> Join (cs @ [c]) sep = Join cs sep @ sep @ c"
  by (induction cs) (auto simp: Join_Cons)

lemma comps_path_dir:
  assumes "clean_comps r (cs @ [c])" "clean_comps r cs" "slash \<notin> set c"
  shows "comps (path_dir (path_text r (cs @ [c]))) = cs"
proof (cases "cs = []")
  case True
  have "last_index slash (slash # c) = Some 0"
    using assms(3) last_index_append [of slash c "[]"] by simp
  moreover have "last_index slash c = None" using assms(3) by (simp add: last_index_None)
  ultimately show ?thesis using True
    by (cases r) (simp_all add: path_text_def path_dir_def, simp_all add: comps_def clean_step_def)
next
  case False
  have t: "path_text r (cs @ [c]) = path_text r cs @ slash # c"
    using False by (simp add: path_text_def Join_snoc)
  have "path_dir (path_text r (cs @ [c])) = Clean (path_text r cs @ [slash])"
    using last_index_append [OF assms(3), of "path_text r cs"] by (simp add: path_dir_def t)
  then show ?thesis using comps_trailing_slash assms(2) by (simp add: path_text_comps)
qed

lemma clean_comps_append:
  "clean_comps r cs \<Longrightarrow> \<forall>c\<in>set ds. name_ok c \<Longrightarrow> clean_comps r (cs @ ds)"
proof -
  assume a: "clean_comps r cs" "\<forall>c\<in>set ds. name_ok c"
  then obtain n es where "cs = replicate n ''..'' @ es" "\<forall>c\<in>set es. name_ok c" "r \<longrightarrow> n = 0"
    by (auto simp: clean_comps_def)
  with a(2) show ?thesis unfolding clean_comps_def by (intro exI [of _ n] exI [of _ "es @ ds"]) auto
qed

lemma path_join_text:
  assumes "p \<noteq> []" "\<forall>c\<in>set cs. name_ok c" "cs \<noteq> []"
  shows "path_join [p, Join cs [slash]] = path_text (IsAbs p) (comps p @ cs)"
proof -
  have "Join cs [slash] \<noteq> []" using assms(2,3) by (cases cs) (auto simp: Join_Cons name_ok_def)
  then have "path_join [p, Join cs [slash]] = Clean (p @ [slash] @ Join cs [slash])"
    using assms(1) by (simp add: path_join_def)
  then show ?thesis
    using comps_join [OF assms] by (simp add: Clean_def IsAbs_append assms(1))
qed

lemma comps_dir_join:
  assumes "p \<noteq> []" "\<forall>c\<in>set cs. name_ok c" "cs \<noteq> []"
  shows "comps (path_dir (path_join [p, Join cs [slash]])) = comps p @ butlast cs"
proof -
  obtain ds c where cs: "cs = ds @ [c]" using assms(3) by (cases cs rule: rev_cases) auto
  have "clean_comps (IsAbs p) ((comps p @ ds) @ [c])" "clean_comps (IsAbs p) (comps p @ ds)"
    using clean_comps_append [OF comps_clean [of p], of "ds @ [c]"] clean_comps_append [OF comps_clean [of p], of ds]
      assms(2) cs by simp_all
  moreover have "slash \<notin> set c" using assms(2) cs by (simp add: name_ok_def)
  ultimately show ?thesis
    using comps_path_dir [of "IsAbs p" "comps p @ ds" c] path_join_text [OF assms] cs by simp
qed

end
