(* ===== verification/File_System.thy ===== *)
theory File_System
  imports Go_Path "HOL-Library.AList"
begin

text \<open>
  The part of a Unix file system the program uses: a tree of directories, regular files and symbolic
  links, and the operations of Go's \<open>os\<close> package on it.

  Paths are cleaned as Go's \<open>filepath\<close> does; the root of the tree is both \<open>/\<close> and the working
  directory. Symbolic links are not followed. \<open>w_fault op path\<close> is the error an operation meets
  before it does anything, if any; \<open>w_rand\<close> are the random names \<open>os.MkdirTemp\<close> and
  \<open>os.CreateTemp\<close> try in turn; \<open>w_umask\<close> is the process's file mode mask. Ownership and times are not
  modelled.
\<close>

unbundle bit_operations_syntax

type_synonym mode = "32 word"

datatype node =
    File (node_mode: mode) (content: "byte list")
  | Dir (node_mode: mode) (entries: "(string \<times> node) list")
  | Symlink (target: string)

record world =
  w_root :: node
  w_fault :: "string \<Rightarrow> string \<Rightarrow> go_error option"
  w_rand :: "string list"
  w_umask :: mode

primrec is_dir :: "node \<Rightarrow> bool" where
  "is_dir (File m c) = False"
| "is_dir (Dir m es) = True"
| "is_dir (Symlink t) = False"

subsection \<open>Trees\<close>

fun lookup :: "string list \<Rightarrow> node \<Rightarrow> node option" where
  "lookup [] n = Some n"
| "lookup (c # cs) (Dir m es) = (case map_of es c of None \<Rightarrow> None | Some n \<Rightarrow> lookup cs n)"
| "lookup (c # cs) n = None"

text \<open>
  \<open>change cs f n\<close> replaces what is at path \<open>cs\<close> (\<open>None\<close> for nothing) by what \<open>f\<close> makes of it, where
  the parent is a directory; otherwise nothing happens.
\<close>

fun change :: "string list \<Rightarrow> (node option \<Rightarrow> node option) \<Rightarrow> node \<Rightarrow> node" where
  "change [] f n = (case f (Some n) of Some n' \<Rightarrow> n' | None \<Rightarrow> n)"
| "change [c] f (Dir m es) =
     Dir m (case f (map_of es c) of Some n' \<Rightarrow> AList.update c n' es | None \<Rightarrow> AList.delete c es)"
| "change (c # d # cs) f (Dir m es) =
     (case map_of es c of
        None \<Rightarrow> Dir m es
      | Some n \<Rightarrow> Dir m (AList.update c (change (d # cs) f n) es))"
| "change (c # cs) f n = n"

definition parent_ok :: "string list \<Rightarrow> node \<Rightarrow> bool" where
  "parent_ok cs n = (cs \<noteq> [] \<and> (case lookup (butlast cs) n of Some d \<Rightarrow> is_dir d | None \<Rightarrow> False))"

lemma parent_ok_Cons2 [simp]:
  "parent_ok (c # d # cs) (Dir m es) = (case map_of es c of None \<Rightarrow> False | Some n \<Rightarrow> parent_ok (d # cs) n)"
  by (auto simp: parent_ok_def split: option.splits)

lemma parent_ok_single [simp]: "parent_ok [c] n = is_dir n"
  by (simp add: parent_ok_def)

lemma parent_ok_simps [simp]: "\<not> parent_ok [] n" "\<not> parent_ok (c # cs) (File m b)" "\<not> parent_ok (c # cs) (Symlink t)"
  by (cases cs; simp add: parent_ok_def)+

lemma lookup_change_same: "parent_ok cs n \<Longrightarrow> lookup cs (change cs f n) = f (lookup cs n)"
proof (induction cs f n rule: change.induct)
  case (2 c f m es)
  then show ?case by (cases "f (map_of es c)") (auto simp: update_conv' delete_conv' split: option.splits)
next
  case (3 c d cs f m es)
  then show ?case by (cases "map_of es c") (auto simp: update_conv')
qed auto

lemma lookup_append: "lookup (cs @ ds) n = (case lookup cs n of None \<Rightarrow> None | Some x \<Rightarrow> lookup ds x)"
  by (induction cs n rule: lookup.induct) (auto split: option.splits)

lemma lookup_not_dir: "\<not> is_dir n \<Longrightarrow> ds \<noteq> [] \<Longrightarrow> lookup ds n = None"
  by (cases ds; cases n) auto

text \<open>A change is invisible at every path it does not lie on or above.\<close>

lemma lookup_change_other:
  assumes "\<And>es. ds \<noteq> cs @ es" "\<And>es. cs \<noteq> ds @ es"
  shows "lookup ds (change cs f n) = lookup ds n"
  using assms
proof (induction cs f n arbitrary: ds rule: change.induct)
  case (2 c f m es)
  obtain x ds' where ds: "ds = x # ds'" using 2(2) [of "[c]"] by (cases ds) auto
  have "x \<noteq> c" using 2(1) [of ds'] ds by auto
  then show ?case
    by (cases "f (map_of es c)") (auto simp: ds update_conv' delete_conv' split: option.splits)
next
  case (3 c d cs f m es)
  obtain x ds' where ds: "ds = x # ds'" using 3(3) [of "c # d # cs"] by (cases ds) auto
  show ?case
  proof (cases "x = c \<and> map_of es c \<noteq> None")
    case True
    then obtain n where n: "map_of es c = Some n" by blast
    have "lookup ds' (change (d # cs) f n) = lookup ds' n"
      using 3(1) [OF n] 3(2) 3(3) ds True by auto
    with True n show ?thesis by (simp add: ds update_conv')
  next
    case False
    then show ?thesis by (cases "map_of es c") (auto simp: ds update_conv')
  qed
qed auto

text \<open>Above the change there stays a directory (or whatever there was).\<close>

lemma is_dir_change: "parent_ok cs n \<Longrightarrow> is_dir (change cs f n) = is_dir n"
  by (induction cs f n rule: change.induct) (auto split: option.splits)

lemma lookup_change_above:
  assumes "parent_ok cs n" "cs = ds @ es" "es \<noteq> []"
  shows "\<exists>x y. lookup ds n = Some x \<and> is_dir x \<and> lookup ds (change cs f n) = Some y \<and> is_dir y \<and> y = change es f x"
  using assms
proof (induction ds arbitrary: cs n)
  case Nil
  then have "is_dir n" by (cases n; cases es; cases "tl es") (auto simp: neq_Nil_conv)
  with Nil show ?case using is_dir_change [OF Nil.prems(1)] by simp
next
  case (Cons c ds)
  obtain m xs where n: "n = Dir m xs" using Cons.prems by (cases n; cases "ds @ es") auto
  obtain d cs' where t: "ds @ es = d # cs'" using Cons.prems(3) by (cases "ds @ es") auto
  then obtain k where k: "map_of xs c = Some k" "parent_ok (ds @ es) k"
    using Cons.prems n by (auto split: option.splits)
  from Cons.IH [OF k(2) refl Cons.prems(3)] k(1) t show ?case
    unfolding Cons.prems(2) n by (auto simp: update_conv')
qed

subsection \<open>What is visible at a path\<close>

datatype shape = SDir mode | SFile mode "byte list" | SLink string

primrec shape_of :: "node \<Rightarrow> shape" where
  "shape_of (File m c) = SFile m c"
| "shape_of (Dir m es) = SDir m"
| "shape_of (Symlink t) = SLink t"

definition stat_at :: "string list \<Rightarrow> node \<Rightarrow> shape option" where
  "stat_at cs n = map_option shape_of (lookup cs n)"

lemma stat_at_Nil [simp]: "stat_at [] n = Some (shape_of n)"
  by (simp add: stat_at_def)

lemma shape_change: "parent_ok cs n \<Longrightarrow> shape_of (change cs f n) = shape_of n"
  by (induction cs f n rule: change.induct) (auto split: option.splits)

lemma append_cases:
  obtains (below) es where "ds = cs @ es" | (above) es where "cs = ds @ es" "es \<noteq> []"
    | (other) "\<And>es. ds \<noteq> cs @ es" "\<And>es. cs \<noteq> ds @ es"
  by (metis append_Nil2)

lemma stat_change:
  assumes "parent_ok cs n"
  shows "stat_at ds (change cs f n) =
    (if take (length cs) ds = cs
     then (case f (lookup cs n) of None \<Rightarrow> None | Some x \<Rightarrow> stat_at (drop (length cs) ds) x)
     else stat_at ds n)"
proof (cases ds cs rule: append_cases)
  case (below es)
  then show ?thesis
    by (auto simp: stat_at_def lookup_append lookup_change_same [OF assms] split: option.splits)
next
  case (above es)
  have "length ds < length cs" using above by (cases es) auto
  then have "take (length cs) ds \<noteq> cs" by (metis length_take min.absorb2 nat_less_le order_refl take_all_iff)
  moreover obtain x where "lookup ds n = Some x" "lookup ds (change cs f n) = Some (change es f x)" "parent_ok es x"
    using lookup_change_above [OF assms above] lookup_append [of ds "butlast es" n] assms above
    by (auto simp: parent_ok_def butlast_append split: option.splits)
  ultimately show ?thesis by (simp add: stat_at_def shape_change)
next
  case other
  then have "take (length cs) ds \<noteq> cs" by (metis append_take_drop_id)
  then show ?thesis using lookup_change_other [OF other] by (simp add: stat_at_def)
qed

subsection \<open>Operations on the tree\<close>

definition ENOTDIR :: go_error where "ENOTDIR = Errorf ''not a directory''"
definition EISDIR :: go_error where "EISDIR = Errorf ''is a directory''"
definition EEXIST :: go_error where "EEXIST = Errorf ''file exists''"
definition ENOTEMPTY :: go_error where "ENOTEMPTY = Errorf ''directory not empty''"

text \<open>Looking for a path: a file in the middle of it is an error other than \<open>ErrNotExist\<close>.\<close>

fun find_node :: "string list \<Rightarrow> node \<Rightarrow> node result" where
  "find_node [] n = Inr n"
| "find_node (c # cs) (Dir m es) =
     (case map_of es c of None \<Rightarrow> Inl (ErrNotExist ''no such file or directory'') | Some n \<Rightarrow> find_node cs n)"
| "find_node (c # cs) n = Inl ENOTDIR"

lemma find_node_lookup:
  "find_node cs n = Inr x \<longleftrightarrow> lookup cs n = Some x"
  by (induction cs n rule: find_node.induct) (auto split: option.splits)

fun fresh_dirs :: "mode \<Rightarrow> string list \<Rightarrow> node" where
  "fresh_dirs m [] = Dir m []"
| "fresh_dirs m (c # cs) = Dir m [(c, fresh_dirs m cs)]"

fun mkdirs :: "mode \<Rightarrow> string list \<Rightarrow> node \<Rightarrow> node result" where
  "mkdirs m [] n = (if is_dir n then Inr n else Inl ENOTDIR)"
| "mkdirs m (c # cs) (Dir md es) =
     (case map_of es c of
        None \<Rightarrow> Inr (Dir md (AList.update c (fresh_dirs m cs) es))
      | Some n \<Rightarrow> and_then (mkdirs m cs n) (\<lambda>n'. Inr (Dir md (AList.update c n' es))))"
| "mkdirs m (c # cs) n = Inl ENOTDIR"

text \<open>
  \<open>place cs f w\<close> changes the tree at a path whose parent must be a directory; the error is the one
  of looking for the parent.
\<close>

definition place :: "string list \<Rightarrow> (node option \<Rightarrow> node option) \<Rightarrow> node \<Rightarrow> node result" where
  "place cs f n =
     (if cs = [] then Inl EEXIST
      else and_then (find_node (butlast cs) n) (\<lambda>d. if is_dir d then Inr (change cs f n) else Inl ENOTDIR))"

lemma place_Inr: "place cs f n = Inr n' \<longleftrightarrow> parent_ok cs n \<and> n' = change cs f n"
  by (auto simp: place_def parent_ok_def and_then_eq_Inr find_node_lookup split: option.splits if_splits)

definition masked :: "world \<Rightarrow> mode \<Rightarrow> mode" where
  "masked w m = m AND NOT (w_umask w)"

text \<open>Run an operation on the tree unless it meets a fault.\<close>

definition on_tree :: "string \<Rightarrow> string \<Rightarrow> (node \<Rightarrow> node result) \<Rightarrow> world \<Rightarrow> world result" where
  "on_tree op path f w =
     (case w_fault w op path of
        Some e \<Rightarrow> Inl e
      | None \<Rightarrow> and_then (f (w_root w)) (\<lambda>n. Inr (w\<lparr>w_root := n\<rparr>)))"

definition os_Stat :: "world \<Rightarrow> string \<Rightarrow> node result" where
  "os_Stat w p = (case w_fault w ''stat'' p of Some e \<Rightarrow> Inl e | None \<Rightarrow> find_node (comps p) (w_root w))"

definition os_ReadFile :: "world \<Rightarrow> string \<Rightarrow> byte list result" where
  "os_ReadFile w p =
     (case w_fault w ''open'' p of
        Some e \<Rightarrow> Inl e
      | None \<Rightarrow> and_then (find_node (comps p) (w_root w))
          (\<lambda>n. case n of File _ c \<Rightarrow> Inr c | Dir _ _ \<Rightarrow> Inl EISDIR | Symlink _ \<Rightarrow> Inl (Errorf ''too many levels of symbolic links'')))"

definition os_MkdirAll :: "world \<Rightarrow> string \<Rightarrow> mode \<Rightarrow> world result" where
  "os_MkdirAll w p m = on_tree ''mkdir'' p (mkdirs (masked w m) (comps p)) w"

text \<open>\<open>os.OpenFile(p, O_CREATE|O_TRUNC|O_WRONLY, m)\<close> and writing the whole content.\<close>

definition write_node :: "mode \<Rightarrow> byte list \<Rightarrow> string list \<Rightarrow> node \<Rightarrow> node result" where
  "write_node m c cs n =
     (case lookup cs n of
        Some (Dir _ _) \<Rightarrow> Inl EISDIR
      | Some (File m0 _) \<Rightarrow> place cs (\<lambda>_. Some (File m0 c)) n
      | Some (Symlink _) \<Rightarrow> Inl (Errorf ''too many levels of symbolic links'')
      | None \<Rightarrow> place cs (\<lambda>_. Some (File m c)) n)"

definition os_WriteFile :: "world \<Rightarrow> string \<Rightarrow> mode \<Rightarrow> byte list \<Rightarrow> world result" where
  "os_WriteFile w p m c = on_tree ''create'' p (write_node (masked w m) c (comps p)) w"

definition remove_node :: "string list \<Rightarrow> node \<Rightarrow> node result" where
  "remove_node cs n =
     (if cs = [] then Inl (Errorf ''invalid argument'')
      else if lookup cs n = None then Inr n else place cs (\<lambda>_. None) n)"

definition os_RemoveAll :: "world \<Rightarrow> string \<Rightarrow> world result" where
  "os_RemoveAll w p = on_tree ''removeall'' p (remove_node (comps p)) w"

text \<open>\<open>os.Rename\<close>: a directory replaces only nothing or an empty directory, a file no directory.\<close>

definition rename_node :: "string list \<Rightarrow> string list \<Rightarrow> node \<Rightarrow> node result" where
  "rename_node cs ds n =
     and_then (find_node cs n) (\<lambda>x.
       if cs = [] \<or> ds = [] \<or> take (length cs) ds = cs \<and> cs \<noteq> ds then Inl (Errorf ''invalid argument'')
       else (case lookup ds n of
          Some (Dir _ es) \<Rightarrow>
            if \<not> is_dir x then Inl EEXIST
            else if cs = ds then Inr n
            else if es \<noteq> [] then Inl ENOTEMPTY
            else and_then (place cs (\<lambda>_. None) n) (place ds (\<lambda>_. Some x))
        | Some _ \<Rightarrow>
            if is_dir x then Inl ENOTDIR
            else if cs = ds then Inr n
            else and_then (place cs (\<lambda>_. None) n) (place ds (\<lambda>_. Some x))
        | None \<Rightarrow> and_then (place cs (\<lambda>_. None) n) (place ds (\<lambda>_. Some x))))"

definition os_Rename :: "world \<Rightarrow> string \<Rightarrow> string \<Rightarrow> world result" where
  "os_Rename w p q = on_tree ''rename'' p (rename_node (comps p) (comps q)) w"

text \<open>\<open>os.MkdirTemp\<close>: the first random name that is not taken.\<close>

fun pick_temp :: "node \<Rightarrow> string \<Rightarrow> string \<Rightarrow> string list \<Rightarrow> string option" where
  "pick_temp n dir pre [] = None"
| "pick_temp n dir pre (r # rs) =
     (let p = path_join [dir, pre @ r] in if lookup (comps p) n = None then Some p else pick_temp n dir pre rs)"

definition os_MkdirTemp :: "world \<Rightarrow> string \<Rightarrow> string \<Rightarrow> (world \<times> string) result" where
  "os_MkdirTemp w dir pre =
     (case w_fault w ''mkdirtemp'' dir of
        Some e \<Rightarrow> Inl e
      | None \<Rightarrow>
          (case pick_temp (w_root w) dir pre (w_rand w) of
             None \<Rightarrow> Inl EEXIST
           | Some p \<Rightarrow> and_then (place (comps p) (\<lambda>_. Some (Dir (masked w 0x1C0) [])) (w_root w))
                        (\<lambda>n. Inr (w\<lparr>w_root := n\<rparr>, p))))"

text \<open>\<open>filepath.WalkDir\<close>: the tree in lexical order, a directory before its entries.\<close>

function walk :: "string list \<Rightarrow> node \<Rightarrow> (string list \<times> node) list" where
  "walk cs (File m c) = [(cs, File m c)]"
| "walk cs (Symlink t) = [(cs, Symlink t)]"
| "walk cs (Dir m es) = (cs, Dir m es) # concat (map (\<lambda>(c, k). walk (cs @ [c]) k) (sort_key fst es))"
  by pat_completeness auto
termination
proof (relation "measure (size \<circ> snd)")
  fix cs m es x c k
  assume "x \<in> set (sort_key fst (es :: (string \<times> node) list))" "(c, k) = x"
  then have "(c, k) \<in> set es" by auto
  then have "size k < Suc (size_list (\<lambda>p. size_prod (\<lambda>_. 0) size p) es)"
    by (induction es) auto
  then show "((cs @ [c], k), cs, Dir m es) \<in> measure (size \<circ> snd)"
    by (simp add: size_list_conv_sum_list)
qed simp

subsection \<open>Well-formed trees\<close>

text \<open>Every directory has distinct, ordinary names.\<close>

fun node_wf :: "node \<Rightarrow> bool" where
  "node_wf (File m c) = True"
| "node_wf (Symlink t) = True"
| "node_wf (Dir m es) = (distinct (map fst es) \<and> list_all (\<lambda>(c, k). name_ok c \<and> node_wf k) es)"

lemma node_wf_entry: "node_wf (Dir m es) \<Longrightarrow> map_of es c = Some k \<Longrightarrow> name_ok c \<and> node_wf k"
  by (auto simp: list_all_iff dest!: map_of_SomeD)

lemma node_wf_lookup: "node_wf n \<Longrightarrow> lookup cs n = Some k \<Longrightarrow> node_wf k \<and> (\<forall>c\<in>set cs. name_ok c)"
  by (induction cs n rule: lookup.induct) (auto split: option.splits dest!: node_wf_entry simp del: node_wf.simps)

lemma node_wf_update:
  assumes "node_wf (Dir m es)" "name_ok c" "node_wf k"
  shows "node_wf (Dir m (AList.update c k es))"
proof -
  have "distinct (map fst (AList.update c k es))"
    using assms(1) distinct_update [of es c k] by simp
  moreover have "set (AList.update c k es) \<subseteq> insert (c, k) (set es)"
    by (induction es) auto
  ultimately show ?thesis using assms by (fastforce simp: list_all_iff)
qed

lemma set_delete_subset: "set (AList.delete c es) \<subseteq> set es"
  by (induction es) auto

lemma node_wf_delete: "node_wf (Dir m es) \<Longrightarrow> node_wf (Dir m (AList.delete c es))"
  using distinct_delete [of es c] set_delete_subset [of c es] by (auto simp: list_all_iff)

lemma node_wf_change:
  assumes "node_wf n" "\<forall>c\<in>set cs. name_ok c" "\<And>x k. (x = None \<or> (\<exists>y. x = Some y \<and> node_wf y)) \<Longrightarrow> f x = Some k \<Longrightarrow> node_wf k"
  shows "node_wf (change cs f n)"
  using assms
proof (induction cs f n rule: change.induct)
  case (1 f n)
  then show ?case by (auto split: option.splits)
next
  case (2 c f m es)
  have "map_of es c = None \<or> (\<exists>y. map_of es c = Some y \<and> node_wf y)"
    using node_wf_entry [OF 2(1)] by (cases "map_of es c") auto
  then show ?case using 2(1,2) 2(3) [of "map_of es c"] node_wf_update [of m es c] node_wf_delete [of m es c]
    by (auto split: option.splits simp del: node_wf.simps)
next
  case (3 c d cs f m es)
  show ?case
  proof (cases "map_of es c")
    case None
    then show ?thesis using 3(2) by simp
  next
    case (Some n)
    then have "node_wf (change (d # cs) f n)" using 3 node_wf_entry [OF 3(2) Some] by auto
    then show ?thesis using Some 3(2,3) node_wf_update [of m es c] by (simp del: node_wf.simps)
  qed
qed auto

text \<open>A walk visits exactly the paths of the tree.\<close>

lemma walk_lookup:
  assumes "node_wf n"
  shows "(ds, k) \<in> set (walk cs n) \<longleftrightarrow> (\<exists>es. ds = cs @ es \<and> lookup es n = Some k)"
  using assms
proof (induction cs n arbitrary: ds k rule: walk.induct)
  case (1 cs m c)
  have "lookup es (File m c) = Some k \<longleftrightarrow> es = [] \<and> k = File m c" for es by (cases es) auto
  then show ?case by auto
next
  case (2 cs t)
  have "lookup es (Symlink t) = Some k \<longleftrightarrow> es = [] \<and> k = Symlink t" for es by (cases es) auto
  then show ?case by auto
next
  case (3 cs m es)
  have d: "distinct (map fst es)" using 3(2) by simp
  have IH: "(ds, k) \<in> set (walk (cs @ [c]) x) \<longleftrightarrow> (\<exists>fs. ds = cs @ c # fs \<and> lookup fs x = Some k)"
    if "(c, x) \<in> set es" for c x
    using 3(1) [of "(c, x)" c x ds k] that 3(2) by (auto simp: list_all_iff)
  have "(ds, k) \<in> set (walk cs (Dir m es)) \<longleftrightarrow>
      (ds = cs \<and> k = Dir m es) \<or> (\<exists>c x. (c, x) \<in> set es \<and> (ds, k) \<in> set (walk (cs @ [c]) x))"
    by (auto simp del: append_assoc)
  also have "\<dots> \<longleftrightarrow> (ds = cs \<and> k = Dir m es) \<or> (\<exists>c x fs. (c, x) \<in> set es \<and> ds = cs @ c # fs \<and> lookup fs x = Some k)"
    using IH by blast
  also have "\<dots> \<longleftrightarrow> (\<exists>fs. ds = cs @ fs \<and> lookup fs (Dir m es) = Some k)"
  proof
    assume "(ds = cs \<and> k = Dir m es) \<or> (\<exists>c x fs. (c, x) \<in> set es \<and> ds = cs @ c # fs \<and> lookup fs x = Some k)"
    then show "\<exists>fs. ds = cs @ fs \<and> lookup fs (Dir m es) = Some k"
    proof
      assume "\<exists>c x fs. (c, x) \<in> set es \<and> ds = cs @ c # fs \<and> lookup fs x = Some k"
      then obtain c x fs where "(c, x) \<in> set es" "ds = cs @ c # fs" "lookup fs x = Some k" by blast
      then show ?thesis using d by (intro exI [of _ "c # fs"]) simp
    qed (auto intro: exI [of _ "[]"])
  next
    assume "\<exists>fs. ds = cs @ fs \<and> lookup fs (Dir m es) = Some k"
    then obtain fs where fs: "ds = cs @ fs" "lookup fs (Dir m es) = Some k" by blast
    show "(ds = cs \<and> k = Dir m es) \<or> (\<exists>c x fs. (c, x) \<in> set es \<and> ds = cs @ c # fs \<and> lookup fs x = Some k)"
    proof (cases fs)
      case (Cons c gs)
      then obtain x where "map_of es c = Some x" "lookup gs x = Some k" using fs(2) by (auto split: option.splits)
      then show ?thesis using fs(1) Cons by (auto dest: map_of_SomeD)
    qed (use fs in auto)
  qed
  finally show ?case .
qed

subsection \<open>Creating directories\<close>

lemma update_same: "map_of es c = Some x \<Longrightarrow> AList.update c x es = es"
  by (induction es) (auto split: if_splits)

lemma mkdirs_existing: "lookup cs n = Some (Dir m' es) \<Longrightarrow> mkdirs m cs n = Inr n"
  by (induction m cs n rule: mkdirs.induct) (auto split: option.splits simp: update_same)

lemma stat_fresh_dirs: "stat_at ds (fresh_dirs m cs) = (if take (length ds) cs = ds then Some (SDir m) else None)"
proof (induction cs arbitrary: ds)
  case Nil
  then show ?case by (cases ds) (simp_all add: stat_at_def)
next
  case (Cons c cs)
  show ?case
  proof (cases ds)
    case (Cons d ds')
    then show ?thesis using Cons.IH [of ds'] by (auto simp: stat_at_def split: if_splits)
  qed simp
qed

text \<open>\<open>MkdirAll\<close> adds the missing directories of the path and changes nothing else.\<close>

lemma mkdirs_stat:
  "mkdirs m cs n = Inr n' \<Longrightarrow>
     stat_at ds n' = (if take (length ds) cs = ds \<and> stat_at ds n = None then Some (SDir m) else stat_at ds n)"
proof (induction m cs n arbitrary: n' ds rule: mkdirs.induct)
  case (2 m c cs md es)
  show ?case
  proof (cases ds)
    case Nil
    then show ?thesis using 2(2) by (auto simp: and_then_eq_Inr split: option.splits)
  next
    case (Cons d ds')
    show ?thesis
    proof (cases "map_of es c")
      case None
      then have n': "n' = Dir md (AList.update c (fresh_dirs m cs) es)" using 2(2) by simp
      show ?thesis
        using None stat_fresh_dirs [of ds' m cs] unfolding n' Cons
        by (cases "d = c") (auto simp: stat_at_def update_conv' split: option.splits)
    next
      case (Some k)
      then obtain k' where k': "mkdirs m cs k = Inr k'" "n' = Dir md (AList.update c k' es)"
        using 2(2) by (auto simp: and_then_eq_Inr)
      show ?thesis
        using Some 2(1) [OF Some k'(1), of ds'] unfolding k'(2) Cons
        by (cases "d = c") (auto simp: stat_at_def update_conv')
    qed
  qed
qed (auto split: if_splits)

lemma mkdirs_dir: "mkdirs m cs n = Inr n' \<Longrightarrow> \<exists>m' es. lookup cs n' = Some (Dir m' es)"
proof (induction m cs n arbitrary: n' rule: mkdirs.induct)
  case (1 m n)
  then show ?case by (cases n) auto
next
  case (2 m c cs md es)
  have "\<exists>m' es'. lookup cs (fresh_dirs m cs) = Some (Dir m' es')" for cs m
    by (induction cs) auto
  with 2 show ?case by (auto simp: update_conv' and_then_eq_Inr split: option.splits)
qed simp_all

lemma mkdirs_wf:
  "mkdirs m cs n = Inr n' \<Longrightarrow> node_wf n \<Longrightarrow> \<forall>c\<in>set cs. name_ok c \<Longrightarrow> node_wf n'"
proof (induction m cs n arbitrary: n' rule: mkdirs.induct)
  case (2 m c cs md es)
  have fresh: "\<forall>c\<in>set cs. name_ok c \<Longrightarrow> node_wf (fresh_dirs m cs)" for cs m
    by (induction cs) auto
  show ?case
  proof (cases "map_of es c")
    case None
    then show ?thesis using 2(2-4) fresh [of cs m] node_wf_update [OF 2(3), of c] by (auto simp del: node_wf.simps)
  next
    case (Some k)
    then obtain k' where "mkdirs m cs k = Inr k'" "n' = Dir md (AList.update c k' es)"
      using 2(2) by (auto simp: and_then_eq_Inr)
    then show ?thesis
      using 2(1) [OF Some] 2(3,4) node_wf_entry [OF 2(3) Some] node_wf_update [OF 2(3), of c k']
      by (auto simp del: node_wf.simps)
  qed
qed (auto split: if_splits)

text \<open>It succeeds when no file is in the way.\<close>

definition no_file_on :: "string list \<Rightarrow> node \<Rightarrow> bool" where
  "no_file_on cs n = (\<forall>k \<le> length cs. \<forall>x. lookup (take k cs) n = Some x \<longrightarrow> is_dir x)"

lemma no_file_on_Cons: "no_file_on (c # cs) (Dir m es) \<Longrightarrow> map_of es c = Some n \<Longrightarrow> no_file_on cs n"
  unfolding no_file_on_def
proof (intro allI impI)
  fix k x
  assume a: "\<forall>k\<le>length (c # cs). \<forall>x. lookup (take k (c # cs)) (Dir m es) = Some x \<longrightarrow> is_dir x"
    "map_of es c = Some n" "k \<le> length cs" "lookup (take k cs) n = Some x"
  from a(1) [rule_format, of "Suc k" x] a(2-4) show "is_dir x" by simp
qed

lemma no_file_on_root: "no_file_on cs n \<Longrightarrow> is_dir n"
  unfolding no_file_on_def by (metis lookup.simps(1) take0 zero_le)

lemma mkdirs_succeeds: "no_file_on cs n \<Longrightarrow> \<exists>n'. mkdirs m cs n = Inr n'"
proof (induction m cs n rule: mkdirs.induct)
  case (1 m n)
  then show ?case by (auto simp: no_file_on_def)
next
  case (2 m c cs md es)
  show ?case
  proof (cases "map_of es c")
    case (Some k)
    with 2(1) [OF Some no_file_on_Cons [OF 2(2) Some]] show ?thesis by auto
  qed simp
qed (auto dest: no_file_on_root)

end
