(* ===== verification/Archive_Store.thy ===== *)
theory Archive_Store
  imports File_System Json_Parse Sha256
begin

text \<open>
  The backup store of \<open>internal/store/store.go\<close>: immutable generations of a pack's directory, each
  an archive and a manifest kept in a \<open>Backend\<close>.

  A \<open>backend\<close> is the Go interface of that name as a record of functions over a state \<open>'s\<close>. The
  archive format (tar inside zstd, two libraries) is the argument \<open>codec\<close>. A \<open>time.Time\<close> is its
  RFC 3339 text.
\<close>

subsection \<open>Backends\<close>

text \<open>
  An opened object: its bytes, the error that ends reading it early, and the error of \<open>Close\<close>. What
  \<open>Put\<close> reads is the bytes of a stream, or the error that aborts the stream; it answers with the new
  state, its error, and whether it read the stream to the end.
\<close>

record reader =
  rd_data :: "byte list"
  rd_err :: "go_error option"
  rd_close :: "go_error option"

record 's backend =
  be_List :: "'s \<Rightarrow> string \<Rightarrow> string list result"
  be_Open :: "'s \<Rightarrow> string \<Rightarrow> reader result"
  be_Put :: "'s \<Rightarrow> string \<Rightarrow> byte list result \<Rightarrow> 's \<times> go_error option \<times> bool"

subsection \<open>Manifests\<close>

record manifest =
  ID :: string
  Generation :: uint64
  SHA256 :: string
  Size :: int
  PackLockDigest :: string
  CreatedAt :: string

definition zero_manifest :: manifest where
  "zero_manifest = \<lparr>ID = [], Generation = 0, SHA256 = [], Size = 0, PackLockDigest = [], CreatedAt = ''0001-01-01T00:00:00Z''\<rparr>"

text \<open>The strict RFC 3339 syntax \<open>time.Time.UnmarshalJSON\<close> accepts.\<close>

definition two_digits :: "string \<Rightarrow> nat option" where
  "two_digits s = (if length s = 2 then parse_digits 0 s else None)"

definition in_bounds :: "nat \<Rightarrow> nat \<Rightarrow> nat option \<Rightarrow> bool" where
  "in_bounds lo hi n = (case n of None \<Rightarrow> False | Some k \<Rightarrow> lo \<le> k \<and> k \<le> hi)"

definition days_in :: "nat \<Rightarrow> nat \<Rightarrow> nat" where
  "days_in y m =
     (if m = 2 then (if y mod 4 = 0 \<and> (y mod 100 \<noteq> 0 \<or> y mod 400 = 0) then 29 else 28)
      else if m \<in> {4, 6, 9, 11} then 30 else 31)"

definition zone_ok :: "string \<Rightarrow> bool" where
  "zone_ok z =
     (z = ''Z'' \<or> length z = 6 \<and> (hd z = CHR ''+'' \<or> hd z = CHR ''-'') \<and> z ! 3 = CHR '':''
        \<and> in_bounds 0 23 (two_digits (take 2 (drop 1 z))) \<and> in_bounds 0 59 (two_digits (drop 4 z)))"

definition rfc3339 :: "string \<Rightarrow> bool" where
  "rfc3339 s =
     (20 \<le> length s \<and> s ! 4 = CHR ''-'' \<and> s ! 7 = CHR ''-'' \<and> s ! 10 = CHR ''T'' \<and> s ! 13 = CHR '':'' \<and> s ! 16 = CHR '':''
      \<and> (case parse_digits 0 (take 4 s) of
           None \<Rightarrow> False
         | Some y \<Rightarrow> in_bounds 1 12 (two_digits (take 2 (drop 5 s)))
             \<and> in_bounds 1 (days_in y (the (two_digits (take 2 (drop 5 s))))) (two_digits (take 2 (drop 8 s))))
      \<and> in_bounds 0 23 (two_digits (take 2 (drop 11 s))) \<and> in_bounds 0 59 (two_digits (take 2 (drop 14 s)))
      \<and> in_bounds 0 59 (two_digits (take 2 (drop 17 s)))
      \<and> (let rest = drop 19 s in
           if hd rest = CHR ''.'' then
             takeWhile is_digit (tl rest) \<noteq> [] \<and> zone_ok (dropWhile is_digit (tl rest))
           else zone_ok rest))"

definition set_time :: "(string \<Rightarrow> 'a \<Rightarrow> 'a) \<Rightarrow> 'a setter" where
  "set_time upd j x =
     (case j of JStr s \<Rightarrow> if rfc3339 s then Inr (upd s x) else Inl type_error | JNull \<Rightarrow> Inr x | _ \<Rightarrow> Inl type_error)"

definition manifest_fields :: "(string \<times> manifest setter) list" where
  "manifest_fields =
     [(''id'', set_string (\<lambda>s m. m\<lparr>ID := s\<rparr>)),
      (''generation'', set_uint64 (\<lambda>g m. m\<lparr>Generation := g\<rparr>)),
      (''sha256'', set_string (\<lambda>s m. m\<lparr>SHA256 := s\<rparr>)),
      (''size'', set_int (\<lambda>i m. m\<lparr>Size := i\<rparr>)),
      (''packLockDigest'', set_string (\<lambda>s m. m\<lparr>PackLockDigest := s\<rparr>)),
      (''createdAt'', set_time (\<lambda>s m. m\<lparr>CreatedAt := s\<rparr>))]"

definition manifest_json :: "manifest \<Rightarrow> json" where
  "manifest_json m =
     JObj [(''id'', JStr (ID m)), (''generation'', JNum (uint (Generation m))), (''sha256'', JStr (SHA256 m)),
           (''size'', JNum (Size m)), (''packLockDigest'', JStr (PackLockDigest m)), (''createdAt'', JStr (CreatedAt m))]"

definition decode_manifest :: "byte list \<Rightarrow> manifest result" where
  "decode_manifest b = decode_first (decode_struct manifest_fields) (string_of b) zero_manifest"

text \<open>The object names: \<open>fmt.Sprintf("%s/saves/%020d.tar.zst", id, gen)\<close> and \<open>\<dots>.json\<close>.\<close>

definition saves_prefix :: "string \<Rightarrow> string" where
  "saves_prefix i = i @ ''/saves/''"

definition archive_key :: "string \<Rightarrow> uint64 \<Rightarrow> string" where
  "archive_key i g = saves_prefix i @ pad_zeros 20 (unat g) @ ''.tar.zst''"

definition manifest_key :: "string \<Rightarrow> uint64 \<Rightarrow> string" where
  "manifest_key i g = saves_prefix i @ pad_zeros 20 (unat g) @ ''.json''"

subsection \<open>Head\<close>

text \<open>
  The manifest behind one key, if it belongs to \<open>id\<close>, has a generation, and its archive is there with
  the recorded size and digest.
\<close>

definition complete_manifest :: "'s backend \<Rightarrow> 's \<Rightarrow> string \<Rightarrow> string \<Rightarrow> manifest option" where
  "complete_manifest be s i key =
     (case be_Open be s key of
        Inl _ \<Rightarrow> None
      | Inr r \<Rightarrow>
          (case decode_manifest (rd_data r) of
             Inl _ \<Rightarrow> None
           | Inr m \<Rightarrow>
               if ID m = i \<and> Generation m > 0 then
                 (case be_Open be s (archive_key i (Generation m)) of
                    Inl _ \<Rightarrow> None
                  | Inr a \<Rightarrow>
                      if rd_err a = None \<and> rd_close a = None \<and> int (length (rd_data a)) = Size m
                         \<and> sha256_hex (rd_data a) = SHA256 m
                      then Some m else None)
               else None))"

fun first_complete :: "('k \<Rightarrow> 'm option) \<Rightarrow> 'k list \<Rightarrow> 'm option" where
  "first_complete f [] = None"
| "first_complete f (k # ks) = (case f k of Some m \<Rightarrow> Some m | None \<Rightarrow> first_complete f ks)"

definition Head :: "'s backend \<Rightarrow> 's \<Rightarrow> string \<Rightarrow> manifest option result" where
  "Head be s i =
     and_then (be_List be s (saves_prefix i)) (\<lambda>keys.
       Inr (first_complete (complete_manifest be s i) (rev (sort (filter (\<lambda>k. HasSuffix k ''.json'') keys)))))"

subsection \<open>Archives\<close>

datatype typeflag = TypeReg | TypeDir | TypeSymlink | TypeOther

record tar_entry =
  hdr_Name :: string
  hdr_Typeflag :: typeflag
  hdr_Mode :: mode
  hdr_Data :: "byte list"

text \<open>
  Writing the entries through tar and zstd gives the bytes of the archive, or an error; reading gives
  the entries until the end or an error, and the bytes read on the way.
\<close>

record codec =
  cd_encode :: "tar_entry list \<Rightarrow> byte list result"
  cd_decode :: "byte list \<Rightarrow> tar_entry list \<times> go_error option \<times> byte list"

primrec node_entry :: "string \<Rightarrow> node \<Rightarrow> tar_entry" where
  "node_entry nm (File m c) = \<lparr>hdr_Name = nm, hdr_Typeflag = TypeReg, hdr_Mode = m, hdr_Data = c\<rparr>"
| "node_entry nm (Dir m es) = \<lparr>hdr_Name = nm, hdr_Typeflag = TypeDir, hdr_Mode = m, hdr_Data = []\<rparr>"
| "node_entry nm (Symlink t) = \<lparr>hdr_Name = nm, hdr_Typeflag = TypeSymlink, hdr_Mode = 0x1FF, hdr_Data = []\<rparr>"

text \<open>The callback of \<open>WalkDir\<close> on one path below the source, and the names it leaves out.\<close>

definition skipped :: "string \<Rightarrow> bool" where
  "skipped rel = (rel = ''.'' \<or> rel = ''.rcon-cli.env'' \<or> rel = ''.rcon-cli.yaml'' \<or> HasPrefix rel ''logs/'')"

definition rel_text :: "string list \<Rightarrow> string" where
  "rel_text cs = path_text False cs"

definition visit_entry :: "world \<Rightarrow> string \<Rightarrow> string list \<times> node \<Rightarrow> tar_entry list result" where
  "visit_entry w source e =
     (let rel = rel_text (fst e); path = path_join [source, rel] in
      case (if is_dir (snd e) then w_fault w ''readdir'' path else None) of
        Some err \<Rightarrow> Inl err
      | None \<Rightarrow>
          if skipped rel then Inr []
          else (case w_fault w ''lstat'' path of
            Some err \<Rightarrow> Inl err
          | None \<Rightarrow>
              (case (snd e, w_fault w ''open'' path) of
                 (File _ _, Some err) \<Rightarrow> Inl err
               | _ \<Rightarrow> Inr [node_entry rel (snd e)])))"

fun collect :: "('a \<Rightarrow> 'b list result) \<Rightarrow> 'a list \<Rightarrow> 'b list result" where
  "collect f [] = Inr []"
| "collect f (x # xs) = and_then (f x) (\<lambda>a. and_then (collect f xs) (\<lambda>b. Inr (a @ b)))"

definition writeArchive :: "codec \<Rightarrow> world \<Rightarrow> string \<Rightarrow> byte list result" where
  "writeArchive cd w source =
     and_then (os_Stat w source) (\<lambda>n.
       and_then (collect (visit_entry w source) (walk [] n)) (cd_encode cd))"

subsection \<open>Commit\<close>

text \<open>
  The archive goroutine and \<open>Put\<close> meet at a pipe: a \<open>Put\<close> that stops reading makes the archive fail
  with the error of \<open>Put\<close>, or, if \<open>Put\<close> succeeded, with that of a closed pipe.
\<close>

definition archive_error :: "byte list result \<Rightarrow> go_error option \<Rightarrow> bool \<Rightarrow> go_error option" where
  "archive_error stream uploadErr drained =
     (case stream of
        Inl e \<Rightarrow> Some e
      | Inr _ \<Rightarrow>
          if drained then None
          else Some (case uploadErr of Some e \<Rightarrow> e | None \<Rightarrow> Errorf ''io: read/write on closed pipe''))"

definition verify_commit :: "'s backend \<Rightarrow> 's \<Rightarrow> string \<Rightarrow> manifest \<Rightarrow> manifest result" where
  "verify_commit be s i m =
     (case Head be s i of
        Inl e \<Rightarrow> Inl (Wrap ''verify backup generation'' e)
      | Inr None \<Rightarrow> Inl (Errorf (''backup generation '' @ nat_to_string (unat (Generation m)) @ '' could not be verified''))
      | Inr (Some v) \<Rightarrow>
          if Generation v \<noteq> Generation m \<or> SHA256 v \<noteq> SHA256 m \<or> Size v \<noteq> Size m
          then Inl (Errorf (''backup generation '' @ nat_to_string (unat (Generation m)) @ '' could not be verified''))
          else Inr v)"

definition conflicts :: "manifest option \<Rightarrow> uint64 \<Rightarrow> bool" where
  "conflicts head expected = (case head of Some h \<Rightarrow> Generation h \<noteq> expected | None \<Rightarrow> expected \<noteq> 0)"

definition new_manifest :: "(string \<Rightarrow> string) option \<Rightarrow> string \<Rightarrow> string \<Rightarrow> uint64 \<Rightarrow> byte list \<Rightarrow> manifest" where
  "new_manifest lockDigest now i gen b =
     \<lparr>ID = i, Generation = gen, SHA256 = sha256_hex b, Size = int (length b),
      PackLockDigest = (case lockDigest of Some f \<Rightarrow> f i | None \<Rightarrow> []), CreatedAt = now\<rparr>"

text \<open>The second half of a commit: the manifest of the uploaded archive, and the verification.\<close>

definition publish_manifest :: "'s backend \<Rightarrow> 's \<Rightarrow> string \<Rightarrow> manifest \<Rightarrow> 's \<times> manifest result" where
  "publish_manifest be s i m =
     (let (s2, putErr, _) = be_Put be s (manifest_key i (Generation m)) (Inr (bytes_of (MarshalIndent (manifest_json m))))
      in case putErr of Some e \<Rightarrow> (s2, Inl e) | None \<Rightarrow> (s2, verify_commit be s2 i m))"

definition upload_generation ::
    "'s backend \<Rightarrow> (string \<Rightarrow> string) option \<Rightarrow> string \<Rightarrow> 's \<Rightarrow> string \<Rightarrow> uint64 \<Rightarrow> byte list result \<Rightarrow> 's \<times> manifest result" where
  "upload_generation be lockDigest now s i gen stream =
     (let (s1, uploadErr, drained) = be_Put be s (archive_key i gen) stream
      in case archive_error stream uploadErr drained of
           Some e \<Rightarrow> (s1, Inl (Wrap ''create backup archive'' e))
         | None \<Rightarrow>
             (case uploadErr of
                Some e \<Rightarrow> (s1, Inl (Wrap ''upload backup archive'' e))
              | None \<Rightarrow>
                  publish_manifest be s1 i
                    (new_manifest lockDigest now i gen (case stream of Inr b \<Rightarrow> b | Inl _ \<Rightarrow> []))))"

definition Commit ::
    "'s backend \<Rightarrow> codec \<Rightarrow> (string \<Rightarrow> string) option \<Rightarrow> string \<Rightarrow> world \<Rightarrow> 's \<Rightarrow> string \<Rightarrow> string \<Rightarrow> uint64
     \<Rightarrow> 's \<times> manifest result" where
  "Commit be cd lockDigest now w s i source expected =
     (case Head be s i of
        Inl e \<Rightarrow> (s, Inl e)
      | Inr head \<Rightarrow>
          if conflicts head expected then (s, Inl ErrGenerationConflict)
          else upload_generation be lockDigest now s i (expected + 1) (writeArchive cd w source))"

subsection \<open>Restore\<close>

definition perm :: "mode \<Rightarrow> mode" where
  "perm m = m AND 0x1FF"

definition extract_entry :: "unicode \<Rightarrow> string \<Rightarrow> world \<Rightarrow> tar_entry \<Rightarrow> world result" where
  "extract_entry u tmp w h =
     (let clean = Clean (hdr_Name h) in
      if clean = ''.'' \<or> IsAbs clean \<or> HasPrefix clean ''../''
      then Inl (Errorf (''unsafe archive path '' @ Quote u (hdr_Name h)))
      else let target = path_join [tmp, clean] in
        if \<not> HasPrefix target (tmp @ ''/'') then Inl (Errorf ''archive path escaped destination'')
        else (case hdr_Typeflag h of
            TypeDir \<Rightarrow> os_MkdirAll w target (perm (hdr_Mode h))
          | TypeReg \<Rightarrow> and_then (os_MkdirAll w (path_dir target) 0x1E8)
              (\<lambda>w1. os_WriteFile w1 target (perm (hdr_Mode h)) (hdr_Data h))
          | TypeSymlink \<Rightarrow> Inl (Errorf ''symlinks are not accepted in backups'')
          | TypeOther \<Rightarrow> Inl (Errorf (''unsupported archive entry '' @ Quote u (hdr_Name h)))))"

text \<open>The extraction loop: the world it leaves behind, and the error that stopped it.\<close>

fun extract_all :: "unicode \<Rightarrow> string \<Rightarrow> world \<Rightarrow> tar_entry list \<Rightarrow> world \<times> go_error option" where
  "extract_all u tmp w [] = (w, None)"
| "extract_all u tmp w (h # hs) =
     (case extract_entry u tmp w h of Inl e \<Rightarrow> (w, Some e) | Inr w' \<Rightarrow> extract_all u tmp w' hs)"

text \<open>The deferred \<open>os.RemoveAll(tmp)\<close>, whose error is ignored.\<close>

definition cleanup :: "world \<Rightarrow> string \<Rightarrow> world" where
  "cleanup w tmp = (case os_RemoveAll w tmp of Inl _ \<Rightarrow> w | Inr w' \<Rightarrow> w')"

definition install_restored :: "world \<Rightarrow> string \<Rightarrow> string \<Rightarrow> manifest \<Rightarrow> world \<times> manifest result" where
  "install_restored w tmp destination m =
     (case os_Stat w destination of
        Inr _ \<Rightarrow> (w, Inl (Errorf ''restore destination already exists''))
      | Inl e \<Rightarrow>
          if \<not> is_not_exist e then (w, Inl e)
          else (case os_Rename w tmp destination of
              Inl e \<Rightarrow> (w, Inl e)
            | Inr w' \<Rightarrow> (w', Inr m)))"

definition restore_archive ::
    "unicode \<Rightarrow> codec \<Rightarrow> world \<Rightarrow> string \<Rightarrow> string \<Rightarrow> manifest \<Rightarrow> byte list \<Rightarrow> world \<times> manifest result" where
  "restore_archive u cd w tmp destination m b =
     (let (hs, decodeErr, consumed) = cd_decode cd b;
          (w1, extractErr) = extract_all u tmp w hs
      in case (case extractErr of Some e \<Rightarrow> Some e | None \<Rightarrow> decodeErr) of
           Some e \<Rightarrow> (w1, Inl e)
         | None \<Rightarrow>
             if sha256_hex consumed \<noteq> SHA256 m
             then (w1, Inl (Errorf (''backup checksum mismatch: got '' @ sha256_hex consumed)))
             else install_restored w1 tmp destination m)"

definition Restore ::
    "'s backend \<Rightarrow> unicode \<Rightarrow> codec \<Rightarrow> 's \<Rightarrow> world \<Rightarrow> string \<Rightarrow> string \<Rightarrow> world \<times> manifest result" where
  "Restore be u cd s w i destination =
     (case Head be s i of
        Inl e \<Rightarrow> (w, Inl e)
      | Inr None \<Rightarrow> (w, Inl (ErrNotExist ''file does not exist''))
      | Inr (Some m) \<Rightarrow>
          (case be_Open be s (archive_key i (Generation m)) of
             Inl e \<Rightarrow> (w, Inl e)
           | Inr r \<Rightarrow>
               (case os_MkdirAll w (path_dir destination) 0x1E8 of
                  Inl e \<Rightarrow> (w, Inl e)
                | Inr w1 \<Rightarrow>
                    (case os_MkdirTemp w1 (path_dir destination) ''.restore-'' of
                       Inl e \<Rightarrow> (w1, Inl e)
                     | Inr (w2, tmp) \<Rightarrow>
                         let (w3, res) = restore_archive u cd w2 tmp destination m (rd_data r)
                         in (cleanup w3 tmp, res)))))"

subsection \<open>The interface of a backend\<close>

text \<open>
  The objects the store publishes: archives and manifests directly below \<open>id/saves/\<close>.
\<close>

definition published :: "string \<Rightarrow> bool" where
  "published x = (name_ok x \<and> (HasSuffix x ''.json'' \<or> HasSuffix x ''.tar.zst''))"

definition object_key :: "string \<Rightarrow> string \<Rightarrow> string" where
  "object_key i x = saves_prefix i @ x"

lemma object_key_inj:
  assumes "name_ok i" "name_ok j" "object_key i x = object_key j y"
  shows "i = j \<and> x = y"
proof -
  have tw: "takeWhile (\<lambda>c. c \<noteq> slash) (k @ ''/saves/'' @ z) = k" if "name_ok k" for k z
    using that by (auto simp: name_ok_def takeWhile_append)
  have "i = j" using arg_cong [OF assms(3), of "takeWhile (\<lambda>c. c \<noteq> slash)"] assms(1,2)
    by (simp only: object_key_def saves_prefix_def append_assoc tw)
  then show ?thesis using assms(3) by (simp add: object_key_def)
qed

definition archive_name :: "uint64 \<Rightarrow> string" where
  "archive_name g = pad_zeros 20 (unat g) @ ''.tar.zst''"

definition manifest_name :: "uint64 \<Rightarrow> string" where
  "manifest_name g = pad_zeros 20 (unat g) @ ''.json''"

text \<open>
  What the store relies on. \<open>view s i x\<close> is the published object \<open>x\<close> of pack \<open>i\<close>; \<open>wf\<close> states are
  those a backend can be in at all, \<open>good\<close> ones those in which nothing fails. A \<open>Put\<close> either publishes
  the whole object or leaves what was there, and never touches another object; when it fails, either may be
  the case. The supervisor may also commit for the empty id: this must not touch the objects of a pack.
\<close>

locale backend_laws =
  fixes be :: "'s backend"
    and view :: "'s \<Rightarrow> string \<Rightarrow> string \<Rightarrow> byte list option"
    and wf :: "'s \<Rightarrow> bool"
    and good :: "'s \<Rightarrow> bool"
  assumes good_wf: "good s \<Longrightarrow> wf s"
    and list_law: "good s \<Longrightarrow> name_ok i \<Longrightarrow>
      \<exists>ks. be_List be s (saves_prefix i) = Inr ks \<and>
        (\<forall>k. HasSuffix k ''.json'' \<longrightarrow> (k \<in> set ks \<longleftrightarrow> (\<exists>x. k = object_key i x \<and> view s i x \<noteq> None)))"
    and open_some: "good s \<Longrightarrow> name_ok i \<Longrightarrow> published x \<Longrightarrow> view s i x = Some b \<Longrightarrow>
      be_Open be s (object_key i x) = Inr \<lparr>rd_data = b, rd_err = None, rd_close = None\<rparr>"
    and open_none: "good s \<Longrightarrow> name_ok i \<Longrightarrow> published x \<Longrightarrow> view s i x = None \<Longrightarrow>
      \<exists>e. be_Open be s (object_key i x) = Inl e"
    and view_published: "view s i x \<noteq> None \<Longrightarrow> published x"
    and put_any: "wf s \<Longrightarrow> name_ok i \<Longrightarrow> published x \<Longrightarrow> be_Put be s (object_key i x) st = (s', e, d) \<Longrightarrow>
      wf s' \<and> (\<forall>j y. name_ok j \<longrightarrow> (j, y) \<noteq> (i, x) \<longrightarrow> view s' j y = view s j y)
      \<and> (case e of None \<Rightarrow> \<exists>b. st = Inr b \<and> view s' i x = Some b 
            | Some _ \<Rightarrow> view s' i x = view s i x \<or> (\<exists>b. st = Inr b \<and> view s' i x = Some b))"
    and put_good: "good s \<Longrightarrow> name_ok i \<Longrightarrow> published x \<Longrightarrow>
      \<exists>s'. be_Put be s (object_key i x) (Inr b) = (s', None, True) \<and> good s'"
    and put_bad: "good s \<Longrightarrow> name_ok i \<Longrightarrow> published x \<Longrightarrow> be_Put be s (object_key i x) (Inl err) = (s', e, d) \<Longrightarrow> good s'"
    and put_anonymous: "wf s \<Longrightarrow> x = archive_name g \<or> x = manifest_name g \<Longrightarrow> be_Put be s (object_key [] x) st = (s', e, d) \<Longrightarrow>
      wf s' \<and> (\<forall>j y. name_ok j \<longrightarrow> view s' j y = view s j y)"
    and good_anonymous: "good s \<Longrightarrow> x = archive_name g \<or> x = manifest_name g \<Longrightarrow> be_Put be s (object_key [] x) st = (s', e, d) \<Longrightarrow> good s'"

subsection \<open>Names and manifests\<close>

lemma keys: "archive_key i g = object_key i (archive_name g)" "manifest_key i g = object_key i (manifest_name g)"
  by (simp_all add: archive_key_def manifest_key_def object_key_def archive_name_def manifest_name_def)

lemma name_ok_pad:
  assumes "set t \<inter> {slash} = {}" "3 \<le> length t"
  shows "name_ok (pad_zeros w n @ t)"
proof -
  have "slash \<notin> set (pad_zeros w n)" using set_pad_zeros [of slash w n] by (auto simp: code_of_def)
  moreover have "pad_zeros w n @ t \<noteq> ''.''" "pad_zeros w n @ t \<noteq> ''..''"
    by (rule notI, drule arg_cong [of _ _ length], use assms(2) in simp)+
  ultimately show ?thesis using assms by (auto simp: name_ok_def)
qed

lemma published_names [simp]: "published (archive_name g)" "published (manifest_name g)"
  by (simp_all add: published_def archive_name_def manifest_name_def name_ok_pad)

lemma name_neq [simp]: "archive_name g \<noteq> manifest_name h" "manifest_name h \<noteq> archive_name g"
proof -
  have "last (archive_name g) = CHR ''t''" "last (manifest_name h) = CHR ''n''"
    by (simp_all add: archive_name_def manifest_name_def)
  then show "archive_name g \<noteq> manifest_name h" "manifest_name h \<noteq> archive_name g" by auto
qed

lemma names_inj [simp]:
  "archive_name g = archive_name h \<longleftrightarrow> g = h" "manifest_name g = manifest_name h \<longleftrightarrow> g = h"
  by (auto simp: archive_name_def manifest_name_def word_unat_eq_iff)

text \<open>The manifest a commit writes reads back as itself.\<close>

definition manifest_wf :: "manifest \<Rightarrow> bool" where
  "manifest_wf m = (valid_utf8 (ID m) \<and> valid_utf8 (SHA256 m) \<and> valid_utf8 (PackLockDigest m) \<and> is_ascii (CreatedAt m)
     \<and> rfc3339 (CreatedAt m) \<and> 0 \<le> Size m \<and> Size m < 2 ^ 63)"

lemma decode_manifest_json:
  assumes "manifest_wf m"
  shows "decode_manifest (bytes_of (MarshalIndent (manifest_json m))) = Inr m"
proof -
  have "ok_json (manifest_json m)"
    using assms by (simp add: manifest_json_def manifest_wf_def is_ascii_valid_utf8 code_of_def)
  then have "json_text (manifest_json m) (MarshalIndent (manifest_json m))"
    unfolding MarshalIndent_def by (rule json_text_marshal_indent)
  then have "parse_json (MarshalIndent (manifest_json m) @ []) = Some (manifest_json m, [])"
    by (rule parse_json_text) simp
  moreover have "skip_ws (MarshalIndent (manifest_json m)) \<noteq> []"
    by (simp add: MarshalIndent_def manifest_json_def json_ws_def code_of_def)
  moreover have "decode_struct manifest_fields (manifest_json m) zero_manifest = Inr m"
    using assms unsigned_less [of "Generation m", where ?'a = int]
    by (simp add: decode_struct_def manifest_json_def manifest_fields_def find_field_def set_string_def
        set_uint64_def set_int_def set_time_def manifest_wf_def zero_manifest_def)
  ultimately show ?thesis by (simp add: decode_manifest_def decode_first_def)
qed

text \<open>Whatever a manifest holds, its text is read back with its own generation, or not at all.\<close>

lemma decode_manifest_generation:
  assumes "decode_manifest (bytes_of (MarshalIndent (manifest_json m))) = Inr m'"
  shows "Generation m' = Generation m"
proof -
  have nf: "no_frac (manifest_json m)" by (simp add: manifest_json_def)
  have "parse_json (MarshalIndent (manifest_json m) @ []) = Some (read_back (manifest_json m), [])"
    unfolding MarshalIndent_def by (rule parse_json_text [OF json_text_read_back_indent [OF nf]]) simp
  moreover have "skip_ws (MarshalIndent (manifest_json m)) \<noteq> []"
    by (simp add: MarshalIndent_def manifest_json_def json_ws_def code_of_def)
  ultimately have dec: "decode_struct manifest_fields (read_back (manifest_json m)) zero_manifest = Inr m'"
    using assms by (simp add: decode_manifest_def decode_first_def)
  have keys: "sanitize ''id'' = ''id''" "sanitize ''generation'' = ''generation''" "sanitize ''sha256'' = ''sha256''"
    "sanitize ''size'' = ''size''" "sanitize ''packLockDigest'' = ''packLockDigest''" "sanitize ''createdAt'' = ''createdAt''"
    by (simp_all add: sanitize_valid is_ascii_valid_utf8 code_of_def)
  have g: "uint (Generation m) < 2 ^ 64" using unsigned_less [of "Generation m", where ?'a = int] by simp
  show ?thesis
    using dec g
    by (auto simp: decode_struct_def manifest_json_def manifest_fields_def keys find_field_def set_string_def set_uint64_def
        set_int_def set_time_def and_then_eq_Inr zero_manifest_def split: if_splits simp del: sanitize.simps(2))
qed

subsection \<open>Commits on any backend\<close>

lemma Commit_cases:
  assumes "Commit be cd dg now w s i source expected = (s', r)"
  obtains (head_error) e where "Head be s i = Inl e" "s' = s" "r = Inl e"
  | (conflict) head where "Head be s i = Inr head" "conflicts head expected" "s' = s" "r = Inl ErrGenerationConflict"
  | (archive) head s1 ue d e where "Head be s i = Inr head" "\<not> conflicts head expected"
      "be_Put be s (archive_key i (expected + 1)) (writeArchive cd w source) = (s1, ue, d)"
      "s' = s1" "r = Inl e"
  | (manifest) head s1 b d2 e where "Head be s i = Inr head" "\<not> conflicts head expected"
      "writeArchive cd w source = Inr b"
      "be_Put be s (archive_key i (expected + 1)) (Inr b) = (s1, None, True)"
      "be_Put be s1 (manifest_key i (expected + 1))
         (Inr (bytes_of (MarshalIndent (manifest_json (new_manifest dg now i (expected + 1) b))))) = (s', Some e, d2)"
      "r = Inl e"
  | (verified) head s1 b d2 where "Head be s i = Inr head" "\<not> conflicts head expected"
      "writeArchive cd w source = Inr b"
      "be_Put be s (archive_key i (expected + 1)) (Inr b) = (s1, None, True)"
      "be_Put be s1 (manifest_key i (expected + 1))
         (Inr (bytes_of (MarshalIndent (manifest_json (new_manifest dg now i (expected + 1) b))))) = (s', None, d2)"
      "r = verify_commit be s' i (new_manifest dg now i (expected + 1) b)"
proof (cases "Head be s i")
  case (Inl e)
  with assms have "s' = s" "r = Inl e" by (simp_all add: Commit_def)
  with Inl show ?thesis by (rule head_error)
next
  case (Inr head)
  show ?thesis
  proof (cases "conflicts head expected")
    case True
    with assms Inr have "s' = s" "r = Inl ErrGenerationConflict" by (simp_all add: Commit_def)
    with Inr True show ?thesis by (rule conflict)
  next
    case False
    obtain s1 ue d where put: "be_Put be s (archive_key i (expected + 1)) (writeArchive cd w source) = (s1, ue, d)"
      by (cases "be_Put be s (archive_key i (expected + 1)) (writeArchive cd w source)")
    have eq: "(s', r) = upload_generation be dg now s i (expected + 1) (writeArchive cd w source)"
      using assms Inr False by (simp add: Commit_def)
    show ?thesis
    proof (cases "archive_error (writeArchive cd w source) ue d = None \<and> ue = None")
      case True
      then obtain b where b: "writeArchive cd w source = Inr b" "d" "ue = None"
        by (auto simp: archive_error_def split: sum.splits if_splits)
      let ?m = "new_manifest dg now i (expected + 1) b"
      have gm: "Generation ?m = expected + 1" by (simp add: new_manifest_def)
      obtain s2 pe d2 where put2: "be_Put be s1 (manifest_key i (expected + 1))
          (Inr (bytes_of (MarshalIndent (manifest_json ?m)))) = (s2, pe, d2)"
        by (cases "be_Put be s1 (manifest_key i (expected + 1)) (Inr (bytes_of (MarshalIndent (manifest_json ?m))))")
      have pb: "be_Put be s (archive_key i (expected + 1)) (Inr b) = (s1, None, True)" using put b by simp
      have sr: "(s', r) = (case pe of Some e \<Rightarrow> (s2, Inl e) | None \<Rightarrow> (s2, verify_commit be s2 i ?m))"
        using put2 by (simp add: eq b(1) upload_generation_def publish_manifest_def gm pb archive_error_def split: option.split)
      show ?thesis
      proof (cases pe)
        case None
        with sr have "s' = s2" "r = verify_commit be s' i ?m" by simp_all
        with verified [OF Inr False b(1) pb] put2 None show ?thesis by blast
      next
        case (Some e)
        with sr have "s' = s2" "r = Inl e" by simp_all
        with manifest [OF Inr False b(1) pb] put2 Some show ?thesis by blast
      qed
    next
      case no: False
      have "\<exists>e. (s', r) = (s1, Inl e)"
        unfolding eq upload_generation_def put using no by (cases ue) (auto split: option.splits)
      then show ?thesis using archive [OF Inr False put] by blast
    qed
  qed
qed

lemma verify_commit_Inr:
  "verify_commit be s i m = Inr v \<Longrightarrow>
     Head be s i = Inr (Some v) \<and> Generation v = Generation m \<and> SHA256 v = SHA256 m \<and> Size v = Size m"
  by (auto simp: verify_commit_def split: sum.splits option.splits if_splits)

lemma first_complete_Some: "first_complete f ks = Some m \<Longrightarrow> \<exists>k\<in>set ks. f k = Some m"
  by (induction ks) (auto split: option.splits)

lemma Head_ID: "Head be s i = Inr (Some m) \<Longrightarrow> ID m = i \<and> 0 < Generation m"
  by (auto simp: Head_def and_then_eq_Inr complete_manifest_def dest!: first_complete_Some
      split: sum.splits if_splits)

text \<open>
  What the client of a backend can rely on, whatever fails on the way: commits add objects and never
  damage any.
\<close>

context backend_laws
begin

lemma commit_keeps_objects:
  assumes "wf s" "name_ok i" "Commit be cd dg now w s i source expected = (s', r)"
  shows "wf s' \<and> (\<forall>j y. name_ok j \<longrightarrow> (j, y) \<notin> {(i, archive_name (expected + 1)), (i, manifest_name (expected + 1))} \<longrightarrow>
      view s' j y = view s j y)"
  using assms(3)
proof (cases rule: Commit_cases)
  case (archive head s1 ue d e)
  show ?thesis using put_any [OF assms(1,2) published_names(1) archive(3) [unfolded keys]] archive(4) by auto
next
  case (manifest head s1 b d2 e)
  have 1: "wf s1 \<and> (\<forall>j y. name_ok j \<longrightarrow> (j, y) \<noteq> (i, archive_name (expected + 1)) \<longrightarrow> view s1 j y = view s j y)"
    using put_any [OF assms(1,2) published_names(1) manifest(4) [unfolded keys]] by blast
  show ?thesis using put_any [OF _ assms(2) published_names(2) manifest(5) [unfolded keys]] 1 by auto
next
  case (verified head s1 b d2)
  have 1: "wf s1 \<and> (\<forall>j y. name_ok j \<longrightarrow> (j, y) \<noteq> (i, archive_name (expected + 1)) \<longrightarrow> view s1 j y = view s j y)"
    using put_any [OF assms(1,2) published_names(1) verified(4) [unfolded keys]] by blast
  show ?thesis using put_any [OF _ assms(2) published_names(2) verified(5) [unfolded keys]] 1 by auto
qed (use assms in auto)

lemma commit_sound:
  assumes "wf s" "name_ok i" "Commit be cd dg now w s i source expected = (s', Inr m)"
  shows "\<exists>b. writeArchive cd w source = Inr b \<and> view s' i (archive_name (expected + 1)) = Some b
    \<and> Head be s' i = Inr (Some m) \<and> ID m = i \<and> Generation m = expected + 1 \<and> 0 < Generation m
    \<and> SHA256 m = sha256_hex b \<and> Size m = int (length b)"
  using assms(3)
proof (cases rule: Commit_cases)
  case (verified head s1 b d2)
  have 1: "wf s1" "view s1 i (archive_name (expected + 1)) = Some b"
    using put_any [OF assms(1,2) published_names(1) verified(4) [unfolded keys]] by auto
  have "view s' i (archive_name (expected + 1)) = Some b"
    using put_any [OF 1(1) assms(2) published_names(2) verified(5) [unfolded keys]] 1(2) assms(2) by auto
  moreover note v = verify_commit_Inr [OF verified(6) [symmetric]]
  ultimately show ?thesis using verified(3) Head_ID [of be s' i m] by (simp add: new_manifest_def)
qed auto

end

subsection \<open>The specification of the newest generation\<close>

text \<open>
  On the published objects of one pack: the manifest in object \<open>x\<close>, if it is this pack's, numbered,
  and its archive has the recorded size and digest.
\<close>

definition intact :: "(string \<Rightarrow> byte list option) \<Rightarrow> string \<Rightarrow> string \<Rightarrow> manifest option" where
  "intact v i x =
     (case v x of
        None \<Rightarrow> None
      | Some mb \<Rightarrow>
          (case decode_manifest mb of
             Inl _ \<Rightarrow> None
           | Inr m \<Rightarrow>
               (case v (archive_name (Generation m)) of
                  None \<Rightarrow> None
                | Some a \<Rightarrow>
                    if ID m = i \<and> 0 < Generation m \<and> int (length a) = Size m \<and> sha256_hex a = SHA256 m
                    then Some m else None)))"

text \<open>Manifests are filed under their own generation.\<close>

definition filed :: "(string \<Rightarrow> byte list option) \<Rightarrow> string \<Rightarrow> bool" where
  "filed v i = (\<forall>x mb m. v x = Some mb \<longrightarrow> HasSuffix x ''.json'' \<longrightarrow> decode_manifest mb = Inr m \<longrightarrow> ID m = i \<longrightarrow>
     x = manifest_name (Generation m))"

text \<open>The newest intact generation.\<close>

definition newest :: "(string \<Rightarrow> byte list option) \<Rightarrow> string \<Rightarrow> manifest option \<Rightarrow> bool" where
  "newest v i h =
     (case h of
        None \<Rightarrow> \<forall>g. intact v i (manifest_name g) = None
      | Some m \<Rightarrow> intact v i (manifest_name (Generation m)) = Some m
          \<and> (\<forall>g. Generation m < g \<longrightarrow> intact v i (manifest_name g) = None))"

lemma manifest_name_less: "manifest_name g < manifest_name h \<longleftrightarrow> g < h"
proof -
  have "unat x < 10 ^ 20" for x :: uint64
    using unsigned_less [of x, where ?'a = nat] by simp
  then show ?thesis
    by (simp add: manifest_name_def pad_zeros_less word_less_nat_alt)
qed

lemma intact_SomeD:
  assumes "intact v i x = Some m"
  obtains mb a where "v x = Some mb" "decode_manifest mb = Inr m" "v (archive_name (Generation m)) = Some a"
    "ID m = i" "0 < Generation m" "int (length a) = Size m" "sha256_hex a = SHA256 m"
  using assms by (auto simp: intact_def split: option.splits sum.splits if_splits)

lemma HasSuffix_last: "HasSuffix s p \<Longrightarrow> p \<noteq> [] \<Longrightarrow> last s = last p"
  by (auto simp: HasSuffix_iff)

lemma word_less_plus_1:
  fixes x :: uint64
  assumes "0 < x + 1"
  shows "x < x + 1"
proof -
  have "unat (x + 1) = (unat x + 1) mod 2 ^ 64" by (simp add: unat_word_ariths)
  moreover have "unat (x + 1) \<noteq> 0" using assms by (simp add: unat_eq_0 word_neq_0_conv)
  moreover have "unat x < 2 ^ 64" using unsigned_less [of x, where ?'a = nat] by simp
  ultimately have "unat x < unat (x + 1)" by (cases "unat x + 1 = 2 ^ 64") auto
  then show ?thesis by (simp add: word_less_nat_alt)
qed

lemma first_complete_sorted:
  assumes "first_complete f ks = Some m" "sorted (rev ks)"
  shows "\<exists>k\<in>set ks. f k = Some m \<and> (\<forall>k'\<in>set ks. k < k' \<longrightarrow> f k' = None)"
  using assms
proof (induction ks)
  case (Cons k ks)
  have hi: "\<forall>k'\<in>set ks. k' \<le> k" using Cons.prems(2) by (simp add: sorted_append)
  show ?case
  proof (cases "f k")
    case None
    then obtain k0 where "k0\<in>set ks" "f k0 = Some m" "\<forall>k'\<in>set ks. k0 < k' \<longrightarrow> f k' = None"
      using Cons by (auto simp: sorted_append)
    then show ?thesis using None by auto
  next
    case (Some m')
    then show ?thesis using Cons.prems(1) hi by (intro bexI [of _ k]) auto
  qed
qed simp

lemma first_complete_None: "first_complete f ks = None \<longleftrightarrow> (\<forall>k\<in>set ks. f k = None)"
  by (induction ks) (auto split: option.splits)

lemma object_key_less [simp]: "object_key i x < object_key i y \<longleftrightarrow> x < y"
proof -
  have "p @ a < p @ b \<longleftrightarrow> a < b" for p a b :: string by (induction p) auto
  then show ?thesis by (simp add: object_key_def)
qed

context backend_laws
begin

lemma complete_intact:
  assumes "good s" "name_ok i" "published x"
  shows "complete_manifest be s i (object_key i x) = intact (view s i) i x"
proof (cases "view s i x")
  case None
  with open_none [OF assms] show ?thesis by (auto simp: complete_manifest_def intact_def)
next
  case (Some mb)
  note o1 = open_some [OF assms Some]
  show ?thesis
  proof (cases "decode_manifest mb")
    case (Inl e)
    with o1 Some show ?thesis by (simp add: complete_manifest_def intact_def)
  next
    case (Inr m)
    have p: "published (archive_name (Generation m))" by simp
    show ?thesis
    proof (cases "view s i (archive_name (Generation m))")
      case None
      obtain e where "be_Open be s (object_key i (archive_name (Generation m))) = Inl e"
        using open_none [OF assms(1,2) p None] by blast
      with None o1 Some Inr show ?thesis by (simp add: complete_manifest_def intact_def keys)
    next
      case (Some a)
      note o2 = open_some [OF assms(1,2) p Some]
      show ?thesis using o1 o2 \<open>view s i x = Some mb\<close> Inr Some
        by (simp add: complete_manifest_def intact_def keys)
    qed
  qed
qed

lemma head_newest:
  assumes "good s" "name_ok i" "filed (view s i) i"
  shows "\<exists>h. Head be s i = Inr h \<and> newest (view s i) i h"
proof -
  obtain ks where ks: "be_List be s (saves_prefix i) = Inr ks"
    and mem: "\<And>k. HasSuffix k ''.json'' \<Longrightarrow> k \<in> set ks \<longleftrightarrow> (\<exists>x. k = object_key i x \<and> view s i x \<noteq> None)"
    using list_law [OF assms(1,2)] by blast
  let ?js = "filter (\<lambda>k. HasSuffix k ''.json'') ks" and ?f = "complete_manifest be s i"
  let ?v = "view s i"
  have sfx: "HasSuffix (object_key i (manifest_name g)) ''.json''" for g
    by (simp add: object_key_def manifest_name_def flip: append_assoc)
  have inks: "object_key i (manifest_name g) \<in> set ?js \<longleftrightarrow> ?v (manifest_name g) \<noteq> None" for g
    using mem [OF sfx, of g] object_key_inj [OF assms(2,2)] sfx [of g] by auto
  have f: "?f (object_key i (manifest_name g)) = intact ?v i (manifest_name g)" for g
    by (rule complete_intact [OF assms(1,2)]) simp
  have none: "intact ?v i (manifest_name g) = None" if "object_key i (manifest_name g) \<notin> set ?js" for g
    using that inks [of g] by (auto simp: intact_def)
  have hd: "Head be s i = Inr (first_complete ?f (rev (sort ?js)))"
    by (simp add: Head_def ks)
  show ?thesis
  proof (cases "first_complete ?f (rev (sort ?js))")
    case None
    then have all: "\<forall>k\<in>set ?js. ?f k = None" by (simp add: first_complete_None)
    have "intact ?v i (manifest_name g) = None" for g
      using none [of g] bspec [OF all, of "object_key i (manifest_name g)"] f [of g] by argo
    then show ?thesis using hd None by (simp add: newest_def)
  next
    case (Some m)
    then obtain k where k: "k \<in> set ?js" "?f k = Some m" "\<forall>k'\<in>set ?js. k < k' \<longrightarrow> ?f k' = None"
      using first_complete_sorted [of ?f "rev (sort ?js)" m] by auto
    then obtain x where x: "k = object_key i x" "?v x \<noteq> None" "HasSuffix k ''.json''" using mem by auto
    have pub: "published x" using view_published x(2) by blast
    have int: "intact ?v i x = Some m" using k(2) complete_intact [OF assms(1,2) pub] x(1) by simp
    have "HasSuffix x ''.json''"
    proof -
      have "\<not> HasSuffix x ''.tar.zst''"
      proof
        assume z: "HasSuffix x ''.tar.zst''"
        then have "x \<noteq> []" by (auto simp: HasSuffix_iff)
        then have "last k = last x" by (simp add: x(1) object_key_def)
        with HasSuffix_last [OF z] HasSuffix_last [OF x(3)] show False by simp
      qed
      then show ?thesis using pub by (simp add: published_def)
    qed
    moreover obtain mb where "?v x = Some mb" "decode_manifest mb = Inr m" "ID m = i"
      using int by (rule intact_SomeD)
    ultimately have xg: "x = manifest_name (Generation m)"
      using assms(3) unfolding filed_def by blast
    have "intact ?v i (manifest_name g) = None" if "Generation m < g" for g
    proof (rule ccontr)
      assume n: "intact ?v i (manifest_name g) \<noteq> None"
      then have "object_key i (manifest_name g) \<in> set ?js" using none [of g] by argo
      then have "k < object_key i (manifest_name g) \<longrightarrow> ?f (object_key i (manifest_name g)) = None"
        by (rule bspec [OF k(3)])
      moreover have "k < object_key i (manifest_name g)" using that by (simp add: x(1) xg manifest_name_less)
      ultimately show False using n f [of g] by argo
    qed
    then show ?thesis using hd Some int xg by (simp add: newest_def)
  qed
qed

text \<open>
  Publishing generation \<open>g\<close> with its archive makes it the newest, when nothing newer was intact.
\<close>

lemma newest_after_publish:
  assumes "filed v i" "newest v i h" "(case h of Some m \<Rightarrow> Generation m < g | None \<Rightarrow> True)"
    and "manifest_wf m" "ID m = i" "Generation m = g" "0 < g" "Size m = int (length a)" "SHA256 m = sha256_hex a"
    and "v' = v(archive_name g := Some a, manifest_name g := Some (bytes_of (MarshalIndent (manifest_json m))))"
  shows "filed v' i" "newest v' i (Some m)"
proof -
  note dec = decode_manifest_json [OF assms(4)]
  show "filed v' i"
    using assms(1) dec assms(6) unfolding filed_def assms(10)
    by (auto split: if_splits simp: archive_name_def HasSuffix_iff)
  have "intact v' i (manifest_name g) = Some m"
    using dec assms(5-10) by (simp add: intact_def)
  moreover have "intact v' i (manifest_name k) = None" if k: "g < k" for k
  proof -
    have old: "intact v i (manifest_name k) = None"
      using assms(2,3) k by (cases h) (auto simp: newest_def)
    have ne: "manifest_name k \<noteq> manifest_name g" using k by auto
    show ?thesis
    proof (rule ccontr)
      assume "intact v' i (manifest_name k) \<noteq> None"
      then obtain m' where m': "intact v' i (manifest_name k) = Some m'" by blast
      from intact_SomeD [OF m'] obtain mb a' where
        "v' (manifest_name k) = Some mb" "decode_manifest mb = Inr m'" "v' (archive_name (Generation m')) = Some a'"
        "ID m' = i" "0 < Generation m'" "int (length a') = Size m'" "sha256_hex a' = SHA256 m'" .
      moreover from this have "v (manifest_name k) = Some mb" using ne by (simp add: assms(10))
      moreover from this calculation have "Generation m' = k"
        using assms(1) unfolding filed_def by (metis HasSuffix_append manifest_name_def names_inj(2))
      ultimately have "intact v i (manifest_name k) = Some m'"
        using ne by (simp add: intact_def assms(10))
      with old show False by simp
    qed
  qed
  ultimately show "newest v' i (Some m)" using assms(6) by (simp add: newest_def)
qed

lemma newest_unique:
  assumes "newest v i h" "newest v i h'"
  shows "h = h'"
proof (cases h)
  case None
  then show ?thesis using assms by (cases h') (auto simp: newest_def)
next
  case (Some m)
  show ?thesis
  proof (cases h')
    case None
    then show ?thesis using assms Some by (auto simp: newest_def)
  next
    case S: (Some m')
    consider "Generation m < Generation m'" | "Generation m' < Generation m" | "Generation m = Generation m'"
      by (metis linorder_less_linear)
    then show ?thesis using assms Some S by cases (auto simp: newest_def)
  qed
qed

lemma commit_succeeds:
  assumes "good s" "name_ok i" "filed (view s i) i" "newest (view s i) i h" "\<not> conflicts h expected"
    "writeArchive cd w source = Inr b" "0 < expected + 1"
    "manifest_wf (new_manifest dg now i (expected + 1) b)"
  shows "\<exists>s'. Commit be cd dg now w s i source expected = (s', Inr (new_manifest dg now i (expected + 1) b))
    \<and> good s' \<and> filed (view s' i) i \<and> newest (view s' i) i (Some (new_manifest dg now i (expected + 1) b))
    \<and> view s' i (archive_name (expected + 1)) = Some b"
proof -
  let ?g = "expected + 1" and ?m = "new_manifest dg now i (expected + 1) b"
  let ?mb = "bytes_of (MarshalIndent (manifest_json ?m))"
  have hd: "Head be s i = Inr h"
    using head_newest [OF assms(1-3)] newest_unique assms(4) by blast
  obtain s1 where s1: "be_Put be s (archive_key i ?g) (Inr b) = (s1, None, True)" "good s1"
    using put_good [OF assms(1,2), of "archive_name ?g" b] by (auto simp: keys)
  obtain s2 where s2: "be_Put be s1 (manifest_key i ?g) (Inr ?mb) = (s2, None, True)" "good s2"
    using put_good [OF s1(2) assms(2), of "manifest_name ?g" ?mb] by (auto simp: keys)
  have v1: "view s1 i = (view s i)(archive_name ?g := Some b)"
    using put_any [OF good_wf [OF assms(1)] assms(2) _ s1(1) [unfolded keys]] assms(2) by (auto simp: fun_eq_iff)
  have v2: "view s2 i = (view s i)(archive_name ?g := Some b, manifest_name ?g := Some ?mb)"
    using put_any [OF good_wf [OF s1(2)] assms(2) _ s2(1) [unfolded keys]] assms(2) v1 by (auto simp: fun_eq_iff)
  have lt: "case h of Some x \<Rightarrow> Generation x < ?g | None \<Rightarrow> True"
  proof (cases h)
    case (Some x)
    then have "Generation x = expected" using assms(5) by (simp add: conflicts_def)
    then show ?thesis using Some word_less_plus_1 [OF assms(7)] by simp
  qed simp
  note pub = newest_after_publish [OF assms(3,4) lt assms(8), of b "view s2 i"]
  have new: "filed (view s2 i) i" "newest (view s2 i) i (Some ?m)"
    using pub assms(7) v2 by (simp_all add: new_manifest_def)
  have h2: "Head be s2 i = Inr (Some ?m)"
    using head_newest [OF s2(2) assms(2) new(1)] newest_unique new(2) by blast
  have gm: "Generation ?m = ?g" by (simp add: new_manifest_def)
  have "Commit be cd dg now w s i source expected = (s2, Inr ?m)"
    using hd assms(5,6) s1(1) s2(1) h2
    by (simp add: Commit_def upload_generation_def publish_manifest_def archive_error_def gm verify_commit_def)
  with s2(2) new v2 show ?thesis by auto
qed

text \<open>
  Intact generations are permanent: on a store that works, a commit, however it ends, changes neither the
  manifest nor the archive of any generation that was intact.
\<close>

lemma filed_publish:
  assumes "filed v i" "\<And>x. x \<noteq> archive_name g \<Longrightarrow> x \<noteq> manifest_name g \<Longrightarrow> v' x = v x"
    "v' (manifest_name g) = v (manifest_name g) \<or> (\<exists>m. Generation m = g \<and> v' (manifest_name g) = Some (bytes_of (MarshalIndent (manifest_json m))))"
  shows "filed v' i"
  unfolding filed_def
proof (intro allI impI)
  fix x mb m assume x: "v' x = Some mb" "HasSuffix x ''.json''" "decode_manifest mb = Inr m" "ID m = i"
  have na: "x \<noteq> archive_name g" using x(2) HasSuffix_last [OF x(2)] by (auto simp: archive_name_def)
  show "x = manifest_name (Generation m)"
  proof (cases "x = manifest_name g \<and> v' x \<noteq> v x")
    case True
    then obtain m' where "Generation m' = g" "mb = bytes_of (MarshalIndent (manifest_json m'))" using assms(3) x(1) by auto
    then show ?thesis using decode_manifest_generation x(3) True by metis
  next
    case False
    then have "v x = Some mb" using assms(2) na x(1) by metis
    then show ?thesis using assms(1) x(2-4) unfolding filed_def by blast
  qed
qed

lemma next_not_intact:
  assumes fl: "filed v i" and h: "newest v i h" "\<not> conflicts h expected" and int: "intact v i (manifest_name g) = Some m"
  shows "g \<noteq> expected + 1"
proof -
  obtain mb where m: "v (manifest_name g) = Some mb" "decode_manifest mb = Inr m" "ID m = i" "0 < Generation m"
    using int by (rule intact_SomeD)
  have "Generation m = g"
    using fl m(1-3) unfolding filed_def by (metis HasSuffix_append manifest_name_def names_inj(2))
  then have "0 < g" using m(4) by simp
  obtain x where x: "h = Some x" "Generation x = expected" using int h by (cases h) (auto simp: conflicts_def newest_def)
  have "\<not> expected < g" using h(1) x int by (auto simp: newest_def)
  then show ?thesis using \<open>0 < g\<close> word_less_plus_1 [of expected] by auto
qed

lemma torn_permanent:
  assumes good: "good s" and i: "name_ok i" and fl: "filed (view s i) i" and h: "Head be s i = Inr h" "\<not> conflicts h expected"
    and put: "be_Put be s (archive_key i (expected + 1)) (Inr b) = (s', None, True)"
  shows "good s'" "filed (view s' i) i"
    "\<And>g m. intact (view s i) i (manifest_name g) = Some m \<Longrightarrow>
       intact (view s' i) i (manifest_name g) = Some m \<and> view s' i (archive_name g) = view s i (archive_name g)"
    "\<And>j y. name_ok j \<Longrightarrow> j \<noteq> i \<Longrightarrow> view s' j y = view s j y"
proof -
  let ?g = "expected + 1"
  have nw: "newest (view s i) i h" using head_newest [OF good i fl] h(1) by auto
  have p: "published (archive_name ?g)" by simp
  note pa = put_any [OF good_wf [OF good] i p put [unfolded keys]]
  show "good s'" using put_good [OF good i p, of b] put [unfolded keys] by auto
  have other: "view s' i y = view s i y" if "y \<noteq> archive_name ?g" for y using pa i that by auto
  show "filed (view s' i) i" by (rule filed_publish [OF fl other]) (simp_all add: other)
  show "\<And>j y. name_ok j \<Longrightarrow> j \<noteq> i \<Longrightarrow> view s' j y = view s j y" using pa by auto
  fix g m assume int: "intact (view s i) i (manifest_name g) = Some m"
  then obtain mb where m: "view s i (manifest_name g) = Some mb" "decode_manifest mb = Inr m" "ID m = i" by (rule intact_SomeD)
  have gg: "Generation m = g"
    using fl m unfolding filed_def by (metis HasSuffix_append manifest_name_def names_inj(2))
  have "g \<noteq> ?g" by (rule next_not_intact [OF fl nw h(2) int])
  then have "view s' i (manifest_name g) = view s i (manifest_name g)" "view s' i (archive_name g) = view s i (archive_name g)"
    using other by (auto simp: name_neq)
  then show "intact (view s' i) i (manifest_name g) = Some m \<and> view s' i (archive_name g) = view s i (archive_name g)"
    using int gg m by (simp add: intact_def)
qed

lemma commit_permanent:
  assumes good: "good s" and i: "name_ok i" and fl: "filed (view s i) i"
    and run: "Commit be cd dg now w s i source expected = (s', r)"
  shows "good s'" "filed (view s' i) i"
    "\<And>g m. intact (view s i) i (manifest_name g) = Some m \<Longrightarrow>
       intact (view s' i) i (manifest_name g) = Some m \<and> view s' i (archive_name g) = view s i (archive_name g)"
proof -
  let ?g = "expected + 1"
  obtain h where h: "Head be s i = Inr h" "newest (view s i) i h" using head_newest [OF good i fl] by blast
  have put_ok: "good s1" if "good s0" "published x" "be_Put be s0 (object_key i x) st = (s1, e, d)" for s0 x st s1 e d
  proof (cases st)
    case (Inr b)
    then show ?thesis using put_good [OF that(1) i that(2), of b] that(3) by auto
  qed (use put_bad [OF that(1) i that(2)] that(3) in auto)
  have other: "view s' i y = view s i y" if "y \<noteq> archive_name ?g" "y \<noteq> manifest_name ?g" for y
    using commit_keeps_objects [OF good_wf [OF good] i run] i that by auto
  have main: "good s' \<and> (view s' i (manifest_name ?g) = view s i (manifest_name ?g)
      \<or> (\<exists>m. Generation m = ?g \<and> view s' i (manifest_name ?g) = Some (bytes_of (MarshalIndent (manifest_json m)))))"
    using run
  proof (cases rule: Commit_cases)
    case (archive head s1 ue d e)
    have p: "published (archive_name ?g)" by simp
    show ?thesis
      using put_ok [OF good p archive(3) [unfolded keys]] put_any [OF good_wf [OF good] i p archive(3) [unfolded keys]] archive(4) i
      by auto
  next
    case (manifest head s1 b d2 e)
    have p: "published (archive_name ?g)" "published (manifest_name ?g)" by simp_all
    have g1: "good s1" by (rule put_ok [OF good p(1) manifest(4) [unfolded keys]])
    have "view s1 i (manifest_name ?g) = view s i (manifest_name ?g)"
      using put_any [OF good_wf [OF good] i p(1) manifest(4) [unfolded keys]] i by auto
    moreover have "Generation (new_manifest dg now i ?g b) = ?g" by (simp add: new_manifest_def)
    ultimately show ?thesis
      using put_ok [OF g1 p(2) manifest(5) [unfolded keys]] put_any [OF good_wf [OF g1] i p(2) manifest(5) [unfolded keys]] by auto
  next
    case (verified head s1 b d2)
    have p: "published (archive_name ?g)" "published (manifest_name ?g)" by simp_all
    have g1: "good s1" by (rule put_ok [OF good p(1) verified(4) [unfolded keys]])
    have gm: "Generation (new_manifest dg now i ?g b) = ?g" by (simp add: new_manifest_def)
    show ?thesis
      using put_ok [OF g1 p(2) verified(5) [unfolded keys]] put_any [OF good_wf [OF g1] i p(2) verified(5) [unfolded keys]] gm by auto
  qed (use good in auto)
  then show "good s'" by blast
  show "filed (view s' i) i" using filed_publish [OF fl other] main by blast
  fix g m assume int: "intact (view s i) i (manifest_name g) = Some m"
  obtain mb a where m: "view s i (manifest_name g) = Some mb" "decode_manifest mb = Inr m" "view s i (archive_name (Generation m)) = Some a"
    "ID m = i" "0 < Generation m"
    using int by (rule intact_SomeD)
  have gg: "Generation m = g"
    using fl m(1,2,4) unfolding filed_def by (metis HasSuffix_append manifest_name_def names_inj(2))
  have "g \<noteq> ?g \<or> s' = s"
    using next_not_intact [OF fl h(2) _ int] run h(1) by (cases "conflicts h expected") (auto simp: Commit_def)
  then show "intact (view s' i) i (manifest_name g) = Some m \<and> view s' i (archive_name g) = view s i (archive_name g)"
  proof
    assume "g \<noteq> ?g"
    then have "manifest_name g \<noteq> manifest_name ?g" "archive_name g \<noteq> archive_name ?g" by auto
    moreover have "manifest_name g \<noteq> archive_name ?g" "archive_name g \<noteq> manifest_name ?g" by (simp_all add: name_neq)
    ultimately have "view s' i (manifest_name g) = view s i (manifest_name g)" "view s' i (archive_name g) = view s i (archive_name g)"
      using other by blast+
    then show ?thesis using int gg m by (simp add: intact_def)
  qed (use int in simp)
qed

text \<open>An archive without its manifest changes nothing for a reader.\<close>

lemma torn_commit_invisible:
  assumes "good s" "name_ok i" "filed (view s i) i" "view s i (manifest_name g) = None"
    "be_Put be s (archive_key i g) (Inr b) = (s', None, True)" "good s'"
  shows "Head be s' i = Head be s i"
proof -
  have v: "view s' i = (view s i)(archive_name g := Some b)"
    using put_any [OF good_wf [OF assms(1)] assms(2) _ assms(5) [unfolded keys]] assms(2) by (auto simp: fun_eq_iff)
  have same: "intact (view s' i) i (manifest_name k) = intact (view s i) i (manifest_name k)" for k
  proof (cases "k = g")
    case True
    then show ?thesis using assms(4) by (simp add: intact_def v)
  next
    case False
    show ?thesis
    proof (cases "view s i (manifest_name k)")
      case (Some mb)
      show ?thesis
      proof (cases "decode_manifest mb")
        case (Inr m)
        show ?thesis
        proof (cases "ID m = i")
          case True
          then have "Generation m = k"
            using assms(3) Some Inr unfolding filed_def by (metis HasSuffix_append manifest_name_def names_inj(2))
          then show ?thesis using Some Inr False by (simp add: intact_def v)
        next
          case no: False
          then show ?thesis using Some Inr by (auto simp: intact_def v split: option.splits)
        qed
      qed (use Some in \<open>simp add: intact_def v\<close>)
    qed (simp add: intact_def v)
  qed
  have "filed (view s' i) i"
    using assms(3) unfolding filed_def v by (auto simp: archive_name_def HasSuffix_iff split: if_splits)
  moreover have "newest (view s' i) i h = newest (view s i) i h" for h
    by (cases h) (simp_all add: newest_def same)
  ultimately show ?thesis
    using head_newest [OF assms(1-3)] head_newest [OF assms(6,2)] newest_unique by metis
qed

end

end
