(* ===== verification/Backends.thy ===== *)
theory Backends
  imports Archive_Store
begin

text \<open>
  The three backends of \<open>internal/store\<close>: \<open>filesystem.go\<close> on the file system model, \<open>s3.go\<close> on an
  object store client, and \<open>rclone.go\<close> on a runner of \<open>rclone\<close> commands (the last two are arguments).
  The filesystem backend is shown to satisfy the laws the store relies on.
\<close>

subsection \<open>filesystem.go\<close>

definition fs_path :: "string \<Rightarrow> string \<Rightarrow> string result" where
  "fs_path root key =
     (let clean = Clean key in
      if IsAbs clean \<or> clean = ''..'' \<or> HasPrefix clean ''../'' then Inl (Errorf ''invalid backup key'')
      else Inr (path_join [root, clean]))"

text \<open>
  The path of an entry of the walk; and an entry the walk does not reach because a directory above it
  vanished before it was read (\<open>filepath.SkipDir\<close>).
\<close>

definition walk_path :: "string \<Rightarrow> string list \<Rightarrow> string" where
  "walk_path p cs = (if cs = [] then p else path_join [p, rel_text cs])"

definition vanished :: "world \<Rightarrow> string \<Rightarrow> string list \<Rightarrow> bool" where
  "vanished w p cs =
     (case w_fault w ''readdir'' (walk_path p cs) of Some e \<Rightarrow> is_not_exist e | None \<Rightarrow> False)"

definition list_visit :: "string \<Rightarrow> world \<Rightarrow> string \<Rightarrow> string list \<times> node \<Rightarrow> string list result" where
  "list_visit root w p e =
     (if list_ex (\<lambda>k. vanished w p (take k (fst e))) [0..<length (fst e)] then Inr []
      else if is_dir (snd e) then
        (case w_fault w ''readdir'' (walk_path p (fst e)) of
           Some err \<Rightarrow> if is_not_exist err then Inr [] else Inl err
         | None \<Rightarrow> Inr [])
      else and_then (path_rel root (walk_path p (fst e))) (\<lambda>rel. Inr [rel]))"

definition fs_List :: "string \<Rightarrow> world \<Rightarrow> string \<Rightarrow> string list result" where
  "fs_List root w prefix =
     and_then (fs_path root prefix) (\<lambda>p.
       case os_Stat w p of
         Inl e \<Rightarrow> if is_not_exist e then Inr [] else Inl e
       | Inr n \<Rightarrow> collect (list_visit root w p) (walk [] n))"

text \<open>\<open>os.Open\<close> succeeds on a directory; reading it does not.\<close>

definition fs_Open :: "string \<Rightarrow> world \<Rightarrow> string \<Rightarrow> reader result" where
  "fs_Open root w key =
     and_then (fs_path root key) (\<lambda>p.
       case w_fault w ''open'' p of
         Some e \<Rightarrow> Inl e
       | None \<Rightarrow> and_then (find_node (comps p) (w_root w)) (\<lambda>n.
           case n of
             File _ c \<Rightarrow> Inr \<lparr>rd_data = c, rd_err = w_fault w ''read'' p, rd_close = w_fault w ''close'' p\<rparr>
           | Dir _ _ \<Rightarrow> Inr \<lparr>rd_data = [], rd_err = Some EISDIR, rd_close = w_fault w ''close'' p\<rparr>
           | Symlink _ \<Rightarrow> Inl (Errorf ''too many levels of symbolic links'')))"

definition os_CreateTemp :: "world \<Rightarrow> string \<Rightarrow> string \<Rightarrow> (world \<times> string) result" where
  "os_CreateTemp w dir pre =
     (case w_fault w ''createtemp'' dir of
        Some e \<Rightarrow> Inl e
      | None \<Rightarrow>
          (case pick_temp (w_root w) dir pre (w_rand w) of
             None \<Rightarrow> Inl EEXIST
           | Some p \<Rightarrow> and_then (place (comps p) (\<lambda>_. Some (File (masked w 0x180) [])) (w_root w))
                        (\<lambda>n. Inr (w\<lparr>w_root := n\<rparr>, p))))"

text \<open>Copying the stream into the open temporary file, then \<open>Sync\<close> and \<open>Close\<close>.\<close>

definition write_temp :: "world \<Rightarrow> string \<Rightarrow> byte list result \<Rightarrow> world \<times> go_error option \<times> bool" where
  "write_temp w name stream =
     (case stream of
        Inl e \<Rightarrow> (w, Some e, True)
      | Inr b \<Rightarrow>
          (case on_tree ''write'' name (write_node 0 b (comps name)) w of
             Inl e \<Rightarrow> (w, Some e, False)
           | Inr w' \<Rightarrow>
               (w', case w_fault w ''sync'' name of Some e \<Rightarrow> Some e | None \<Rightarrow> w_fault w ''close'' name, True)))"

definition remove_temp :: "world \<Rightarrow> string \<Rightarrow> world" where
  "remove_temp w name =
     (case on_tree ''remove'' name (remove_node (comps name)) w of Inl _ \<Rightarrow> w | Inr w' \<Rightarrow> w')"

definition fs_Put :: "string \<Rightarrow> world \<Rightarrow> string \<Rightarrow> byte list result \<Rightarrow> world \<times> go_error option \<times> bool" where
  "fs_Put root w key stream =
     (case fs_path root key of
        Inl e \<Rightarrow> (w, Some e, False)
      | Inr p \<Rightarrow>
          (case os_MkdirAll w (path_dir p) 0x1E8 of
             Inl e \<Rightarrow> (w, Some e, False)
           | Inr w1 \<Rightarrow>
               (case os_CreateTemp w1 (path_dir p) ''.upload-'' of
                  Inl e \<Rightarrow> (w1, Some e, False)
                | Inr (w2, name) \<Rightarrow>
                    let (w3, err, drained) = write_temp w2 name stream in
                    (case err of
                       Some e \<Rightarrow> (remove_temp w3 name, Some e, drained)
                     | None \<Rightarrow>
                         (case os_Rename w3 name p of
                            Inl e \<Rightarrow> (remove_temp w3 name, Some e, drained)
                          | Inr w4 \<Rightarrow> (remove_temp w4 name, None, drained))))))"

definition NewFilesystem :: "string \<Rightarrow> world backend" where
  "NewFilesystem root = \<lparr>be_List = fs_List root, be_Open = fs_Open root, be_Put = fs_Put root\<rparr>"

subsection \<open>s3.go\<close>

record s3 =
  s3_bucket :: string
  s3_prefix :: string

text \<open>
  The object store client: the stream of listed keys (or errors), reading an object with the error of
  \<open>GetObject\<close> or \<open>Stat\<close>, and storing one.
\<close>

record 'c object_client =
  oc_ListObjects :: "'c \<Rightarrow> string \<Rightarrow> string \<Rightarrow> string result list"
  oc_GetObject :: "'c \<Rightarrow> string \<Rightarrow> string \<Rightarrow> reader result"
  oc_PutObject :: "'c \<Rightarrow> string \<Rightarrow> string \<Rightarrow> byte list result \<Rightarrow> 'c \<times> go_error option \<times> bool"

text \<open>
  \<open>NewS3\<close>: the scheme and host of the endpoint come from \<open>url.Parse\<close>; \<open>minio.New\<close> may refuse them.
\<close>

definition NewS3 ::
    "(string \<Rightarrow> (string \<times> string) result) \<Rightarrow> (string \<Rightarrow> bool \<Rightarrow> string \<Rightarrow> go_error option) \<Rightarrow>
     string \<Rightarrow> string \<Rightarrow> string \<Rightarrow> string \<Rightarrow> bool option \<Rightarrow> s3 result" where
  "NewS3 parse minio_new endpoint bucket prefix region secure_opt =
     and_then (parse endpoint) (\<lambda>(scheme, host).
       let secure = (case secure_opt of Some b \<Rightarrow> b | None \<Rightarrow> scheme \<noteq> ''http'') in
       case minio_new host secure region of
         Some e \<Rightarrow> Inl e
       | None \<Rightarrow> Inr \<lparr>s3_bucket = bucket, s3_prefix = Trim prefix ''/''\<rparr>)"

definition s3_key :: "s3 \<Rightarrow> string \<Rightarrow> string" where
  "s3_key s k = (if s3_prefix s = [] then k else path_join [s3_prefix s, k])"

fun s3_collect :: "s3 \<Rightarrow> string result list \<Rightarrow> string list result" where
  "s3_collect s [] = Inr []"
| "s3_collect s (Inl e # os) = Inl e"
| "s3_collect s (Inr k # os) =
     and_then (s3_collect s os) (\<lambda>ks. Inr (TrimPrefix (TrimPrefix k (s3_prefix s)) ''/'' # ks))"

definition NewS3_backend :: "'c object_client \<Rightarrow> s3 \<Rightarrow> 'c backend" where
  "NewS3_backend oc s =
     \<lparr>be_List = (\<lambda>c prefix. s3_collect s (oc_ListObjects oc c (s3_bucket s) (s3_key s prefix))),
      be_Open = (\<lambda>c key. oc_GetObject oc c (s3_bucket s) (s3_key s key)),
      be_Put = (\<lambda>c key stream. oc_PutObject oc c (s3_bucket s) (s3_key s key) stream)\<rparr>"

subsection \<open>rclone.go\<close>

text \<open>
  How a command ends: it could not be run, it exited with a code, or it succeeded; and what it printed.
\<close>

datatype exit_status = Exec_Error go_error | Exit_Code int

record 'r rclone_runner =
  rr_output :: "'r \<Rightarrow> string list \<Rightarrow> string \<times> exit_status option"
  rr_cat :: "'r \<Rightarrow> string list \<Rightarrow> reader result"
  rr_rcat :: "'r \<Rightarrow> string list \<Rightarrow> byte list result \<Rightarrow> 'r \<times> (string \<times> exit_status option) \<times> bool"

definition exit_error :: "exit_status \<Rightarrow> go_error" where
  "exit_error x = (case x of Exec_Error e \<Rightarrow> e | Exit_Code c \<Rightarrow> Errorf (''exit status '' @ itoa c))"

definition NewRclone :: "string \<Rightarrow> string" where
  "NewRclone remote = TrimSuffix remote ''/''"

definition rclone_target :: "string \<Rightarrow> string \<Rightarrow> string" where
  "rclone_target remote key = remote @ ''/'' @ key"

definition rclone_List :: "'r rclone_runner \<Rightarrow> string \<Rightarrow> 'r \<Rightarrow> string \<Rightarrow> string list result" where
  "rclone_List rr remote r prefix =
     (let (b, ex) = rr_output rr r [''lsf'', ''--recursive'', ''--files-only'', rclone_target remote prefix] in
      case ex of
        Some (Exit_Code c) \<Rightarrow> if c = 3 then Inr [] else Inl (Wrap ''rclone lsf'' (exit_error (Exit_Code c)))
      | Some x \<Rightarrow> Inl (Wrap ''rclone lsf'' (exit_error x))
      | None \<Rightarrow>
          (case scan_lines 65536 b of
             (ls, None) \<Rightarrow> Inr (map (\<lambda>l. prefix @ l) ls)
           | (_, Some e) \<Rightarrow> Inl e))"

definition rclone_Put ::
    "unicode \<Rightarrow> 'r rclone_runner \<Rightarrow> string \<Rightarrow> 'r \<Rightarrow> string \<Rightarrow> byte list result \<Rightarrow> 'r \<times> go_error option \<times> bool" where
  "rclone_Put u rr remote r key stream =
     (let (r', (b, ex), drained) = rr_rcat rr r [''rcat'', rclone_target remote key] stream in
      (r', case ex of
             Some x \<Rightarrow> Some (Errorf (''rclone rcat: '' @ error_text (exit_error x) @ '': '' @ TrimSpace u b))
           | None \<Rightarrow> None, drained))"

definition NewRclone_backend :: "unicode \<Rightarrow> 'r rclone_runner \<Rightarrow> string \<Rightarrow> 'r backend" where
  "NewRclone_backend u rr remote =
     \<lparr>be_List = rclone_List rr remote,
      be_Open = (\<lambda>r key. rr_cat rr r [''cat'', rclone_target remote key]),
      be_Put = rclone_Put u rr remote\<rparr>"

subsection \<open>The objects of a filesystem backend\<close>

definition base :: "string \<Rightarrow> string \<Rightarrow> string list" where
  "base root i = comps root @ [i, ''saves'']"

text \<open>The random part of a temporary name is a decimal number.\<close>

definition fs_wf :: "string \<Rightarrow> world \<Rightarrow> bool" where
  "fs_wf root w =
     (root \<noteq> [] \<and> node_wf (w_root w) \<and> (\<forall>c\<in>set (comps root). name_ok c)
      \<and> (\<forall>r\<in>set (w_rand w). r \<noteq> [] \<and> all_digits r))"

definition fs_view :: "string \<Rightarrow> world \<Rightarrow> string \<Rightarrow> string \<Rightarrow> byte list option" where
  "fs_view root w i x =
     (if published x then (case stat_at (base root i @ [x]) (w_root w) of Some (SFile m c) \<Rightarrow> Some c | _ \<Rightarrow> None)
      else None)"

text \<open>Nothing fails, nothing is in the way of the objects, and some temporary name is free.\<close>

definition fs_good :: "string \<Rightarrow> world \<Rightarrow> bool" where
  "fs_good root w =
     (fs_wf root w \<and> w_fault w = (\<lambda>_ _. None)
      \<and> (\<forall>i. name_ok i \<longrightarrow> no_file_on (base root i) (w_root w))
      \<and> (\<forall>i x. name_ok i \<longrightarrow> (case stat_at (base root i @ [x]) (w_root w) of None \<Rightarrow> True | Some (SFile m c) \<Rightarrow> True | _ \<Rightarrow> False))
      \<and> (\<exists>r\<in>set (w_rand w). \<forall>i. name_ok i \<longrightarrow> stat_at (base root i @ [''.upload-'' @ r]) (w_root w) = None))"

lemma saves_ok [simp]: "name_ok ''saves''"
  by (simp add: name_ok_def)

lemma published_name_ok: "published x \<Longrightarrow> name_ok x"
  by (simp add: published_def)

lemma temp_name:
  assumes "r \<noteq> []" "all_digits r"
  shows "name_ok (''.upload-'' @ r)" "\<not> published (''.upload-'' @ r)"
proof -
  have "slash \<notin> set r" using assms(2) by (auto simp: all_digits_def list_all_iff code_of_def)
  then show "name_ok (''.upload-'' @ r)" by (simp add: name_ok_def)
  have "last r \<in> set r" using assms(1) by simp
  then have "code_of (last r) \<le> 57" using assms(2) by (auto simp: all_digits_def list_all_iff)
  then have "last (''.upload-'' @ r) \<noteq> CHR ''n''" "last (''.upload-'' @ r) \<noteq> CHR ''t''"
    using assms(1) by (auto simp: code_of_def)
  then show "\<not> published (''.upload-'' @ r)"
    using HasSuffix_last [of "''.upload-'' @ r"] by (fastforce simp: published_def)
qed

lemma object_key_Join: "object_key i x = Join [i, ''saves'', x] [slash]"
  by (simp add: object_key_def saves_prefix_def)

lemma rel_names:
  assumes "\<forall>c\<in>set cs. name_ok c" "cs \<noteq> []"
  shows "\<not> IsAbs (Clean (Join cs [slash]))" "Clean (Join cs [slash]) \<noteq> ''..''" "\<not> HasPrefix (Clean (Join cs [slash])) ''../''"
proof -
  note cl = Clean_names [OF assms]
  show "\<not> IsAbs (Clean (Join cs [slash]))" using names_not_abs [OF assms] cl by simp
  obtain c ds where cs: "cs = c # ds" using assms(2) by (cases cs) auto
  then have c: "name_ok c" using assms(1) by simp
  have up: "comps ''..'' = [''..'']" by (simp add: comps_def clean_step_def IsAbs_def HasPrefix_def)
  show "Clean (Join cs [slash]) \<noteq> ''..''"
  proof
    assume "Clean (Join cs [slash]) = ''..''"
    then have "comps (Join cs [slash]) = [''..'']" using up cl by simp
    then show False using comps_names [OF assms(1)] assms(1) by simp
  qed
  show "\<not> HasPrefix (Clean (Join cs [slash])) ''../''"
  proof
    assume "HasPrefix (Clean (Join cs [slash])) ''../''"
    then obtain t where "Join cs [slash] = ''..'' @ slash # t" unfolding cl by (auto simp: HasPrefix_iff)
    then have "split_on slash (Join cs [slash]) = ''..'' # split_on slash t"
      using split_on_append [of slash "''..''" t] by simp
    then show False using split_names [OF assms] cs c by auto
  qed
qed

lemma fs_path_names:
  assumes "\<forall>c\<in>set cs. name_ok c" "cs \<noteq> []"
  shows "fs_path root (Join cs [slash]) = Inr (path_join [root, Join cs [slash]])"
  unfolding fs_path_def Let_def using rel_names [OF assms] by (simp add: Clean_names [OF assms])

lemma fs_path_object:
  assumes "root \<noteq> []" "name_ok i" "name_ok x"
  shows "\<exists>p. fs_path root (object_key i x) = Inr p \<and> comps p = base root i @ [x] \<and> comps (path_dir p) = base root i"
proof -
  have n: "\<forall>c\<in>set [i, ''saves'', x]. name_ok c" "[i, ''saves'', x] \<noteq> []" using assms by simp_all
  show ?thesis
    unfolding object_key_Join fs_path_names [OF n] base_def
    using comps_path_join(1) [OF assms(1) n] comps_dir_join [OF assms(1) n] by simp
qed

lemma base_inj [simp]: "base root i = base root j \<longleftrightarrow> i = j"
  by (simp add: base_def)

lemma length_base [simp]: "length (base root i) = length (comps root) + 2"
  by (simp add: base_def)

lemma base_names: "fs_wf root w \<Longrightarrow> name_ok i \<Longrightarrow> \<forall>c\<in>set (base root i). name_ok c"
  by (auto simp: base_def fs_wf_def)

text \<open>Two worlds with the same published objects, of the same process.\<close>

definition same_objects :: "string \<Rightarrow> world \<Rightarrow> world \<Rightarrow> bool" where
  "same_objects root w w' =
     (fs_wf root w' \<and> w_fault w' = w_fault w \<and> w_rand w' = w_rand w \<and> w_umask w' = w_umask w
      \<and> (\<forall>j y. name_ok j \<longrightarrow> published y \<longrightarrow> stat_at (base root j @ [y]) (w_root w') = stat_at (base root j @ [y]) (w_root w)))"

lemma same_objects_refl: "fs_wf root w \<Longrightarrow> same_objects root w w"
  by (simp add: same_objects_def)

lemma same_objects_trans: "same_objects root w w' \<Longrightarrow> same_objects root w' w'' \<Longrightarrow> same_objects root w w''"
  by (simp add: same_objects_def)

lemma stat_change_leaf:
  assumes "parent_ok (base root i @ [t]) n"
  shows "stat_at (base root j @ [y]) (change (base root i @ [t]) f n) =
    (if j = i \<and> y = t then map_option shape_of (f (lookup (base root i @ [t]) n)) else stat_at (base root j @ [y]) n)"
proof -
  have "take (length (base root i @ [t])) (base root j @ [y]) = base root i @ [t] \<longleftrightarrow> j = i \<and> y = t"
    by (auto simp: base_def)
  then show ?thesis
    unfolding stat_change [OF assms] by (auto simp: stat_at_def split: option.splits)
qed

lemma change_temp_same:
  assumes "fs_wf root w" "name_ok i" "name_ok t" "\<not> published t" "parent_ok (base root i @ [t]) (w_root w)"
    "\<And>x k. f x = Some k \<Longrightarrow> node_wf k"
  shows "same_objects root w (w\<lparr>w_root := change (base root i @ [t]) f (w_root w)\<rparr>)"
proof -
  have "node_wf (change (base root i @ [t]) f (w_root w))"
    using node_wf_change [of "w_root w" "base root i @ [t]" f] assms(1,3,6) base_names [OF assms(1,2)]
    by (auto simp: fs_wf_def)
  then show ?thesis
    using assms(1,4) stat_change_leaf [OF assms(5)] by (auto simp: same_objects_def fs_wf_def)
qed

lemma MkdirAll_same:
  assumes "fs_wf root w" "name_ok i" "os_MkdirAll w p m = Inr w'" "comps p = base root i"
  shows "same_objects root w w'" "parent_ok (base root i @ [t]) (w_root w')"
    "w' = w\<lparr>w_root := w_root w'\<rparr>" "mkdirs (masked w m) (base root i) (w_root w) = Inr (w_root w')"
proof -
  obtain n where n: "mkdirs (masked w m) (base root i) (w_root w) = Inr n" "w' = w\<lparr>w_root := n\<rparr>"
    using assms(3,4) by (auto simp: os_MkdirAll_def on_tree_def and_then_eq_Inr split: option.splits)
  have "node_wf n" using mkdirs_wf [OF n(1)] assms(1) base_names [OF assms(1,2)] by (simp add: fs_wf_def)
  moreover have "stat_at (base root j @ [y]) n = stat_at (base root j @ [y]) (w_root w)" for j y
    using mkdirs_stat [OF n(1), of "base root j @ [y]"] by simp (metis length_append_singleton length_base nat.simps(3) add_Suc_right length_take min.absorb2 n_not_Suc_n nat_le_linear take_all_iff)
  ultimately show "same_objects root w w'" using assms(1) n(2) by (simp add: same_objects_def fs_wf_def)
  show "parent_ok (base root i @ [t]) (w_root w')"
    using mkdirs_dir [OF n(1)] n(2) by (auto simp: parent_ok_def)
  show "w' = w\<lparr>w_root := w_root w'\<rparr>" "mkdirs (masked w m) (base root i) (w_root w) = Inr (w_root w')"
    using n by simp_all
qed

lemma pick_temp_Some:
  "pick_temp n dir pre rs = Some p \<Longrightarrow> \<exists>r\<in>set rs. p = path_join [dir, pre @ r] \<and> lookup (comps p) n = None"
  by (induction rs) (auto simp: Let_def split: if_splits)

lemma temp_comps:
  assumes "dir \<noteq> []" "name_ok t"
  shows "comps (path_join [dir, t]) = comps dir @ [t]"
  using comps_path_join(1) [OF assms(1), of "[t]"] assms(2) by simp

lemma CreateTemp_same:
  assumes "fs_wf root w" "name_ok i" "os_CreateTemp w dir ''.upload-'' = Inr (w', name)" "comps dir = base root i"
    "dir \<noteq> []"
  shows "\<exists>r\<in>set (w_rand w). comps name = base root i @ [''.upload-'' @ r] \<and> same_objects root w w'
    \<and> lookup (comps name) (w_root w) = None \<and> parent_ok (comps name) (w_root w)
    \<and> w' = w\<lparr>w_root := change (comps name) (\<lambda>_. Some (File (masked w 0x180) [])) (w_root w)\<rparr>"
proof -
  obtain n where pick: "pick_temp (w_root w) dir ''.upload-'' (w_rand w) = Some name"
    and pl: "place (comps name) (\<lambda>_. Some (File (masked w 0x180) [])) (w_root w) = Inr n" and w': "w' = w\<lparr>w_root := n\<rparr>"
    using assms(3) by (auto simp: os_CreateTemp_def and_then_eq_Inr split: option.splits)
  obtain r where r: "r \<in> set (w_rand w)" "name = path_join [dir, ''.upload-'' @ r]" "lookup (comps name) (w_root w) = None"
    using pick_temp_Some [OF pick] by blast
  have rd: "r \<noteq> []" "all_digits r" using assms(1) r(1) by (simp_all add: fs_wf_def)
  have c: "comps name = base root i @ [''.upload-'' @ r]"
    using temp_comps [OF assms(5) temp_name(1) [OF rd]] r(2) assms(4) by simp
  have "same_objects root w w'"
    using change_temp_same [OF assms(1,2) temp_name [OF rd], of "\<lambda>_. Some (File (masked w 0x180) [])"] pl w'
    unfolding place_Inr c by simp
  with c r pl w' show ?thesis by (intro bexI [of _ r]) (auto simp: place_Inr)
qed

lemma write_temp_same:
  assumes "fs_wf root w" "name_ok i" "comps name = base root i @ [t]" "name_ok t" "\<not> published t"
    "lookup (comps name) (w_root w) = Some (File m c)" "write_temp w name stream = (w', e, d)"
  shows "same_objects root w w'"
    and "e = None \<Longrightarrow> \<exists>b. stream = Inr b \<and> d \<and> lookup (comps name) (w_root w') = Some (File m b)
      \<and> parent_ok (comps name) (w_root w) \<and> w_root w' = change (comps name) (\<lambda>_. Some (File m b)) (w_root w)"
proof -
  have change: "same_objects root w (w\<lparr>w_root := change (comps name) (\<lambda>_. Some (File m b)) (w_root w)\<rparr>)"
    if "parent_ok (comps name) (w_root w)" for b
    using change_temp_same [OF assms(1,2,4,5), of "\<lambda>_. Some (File m b)"] that assms(3) by simp
  have "same_objects root w w' \<and> (e = None \<longrightarrow> (\<exists>b. stream = Inr b \<and> d \<and> lookup (comps name) (w_root w') = Some (File m b)
      \<and> parent_ok (comps name) (w_root w) \<and> w_root w' = change (comps name) (\<lambda>_. Some (File m b)) (w_root w)))"
  proof (cases stream)
    case (Inl err)
    then have "w' = w" "e \<noteq> None" using assms(7) by (auto simp: write_temp_def)
    then show ?thesis using same_objects_refl [OF assms(1)] by auto
  next
    case (Inr b)
    show ?thesis
    proof (cases "on_tree ''write'' name (write_node 0 b (comps name)) w")
      case (Inl err)
      then have "w' = w" "e \<noteq> None" using assms(7) Inr by (auto simp: write_temp_def)
      then show ?thesis using same_objects_refl [OF assms(1)] by auto
    next
      case w1: (Inr w1)
      then have "w' = w1" "d" using assms(7) Inr by (auto simp: write_temp_def)
      moreover have p: "parent_ok (comps name) (w_root w)"
        and "w1 = w\<lparr>w_root := change (comps name) (\<lambda>_. Some (File m b)) (w_root w)\<rparr>"
        using w1 assms(6) by (auto simp: on_tree_def write_node_def and_then_eq_Inr place_Inr split: option.splits)
      ultimately show ?thesis using change [OF p, of b] Inr by (simp add: lookup_change_same)
    qed
  qed
  then show "same_objects root w w'"
    and "e = None \<Longrightarrow> \<exists>b. stream = Inr b \<and> d \<and> lookup (comps name) (w_root w') = Some (File m b)
      \<and> parent_ok (comps name) (w_root w) \<and> w_root w' = change (comps name) (\<lambda>_. Some (File m b)) (w_root w)"
    by blast+
qed

lemma remove_temp_same:
  assumes "fs_wf root w" "name_ok i" "comps name = base root i @ [t]" "name_ok t" "\<not> published t"
  shows "same_objects root w (remove_temp w name)"
proof (cases "on_tree ''remove'' name (remove_node (comps name)) w")
  case (Inl e)
  then show ?thesis using same_objects_refl [OF assms(1)] by (simp add: remove_temp_def)
next
  case (Inr w')
  then obtain n where n: "remove_node (comps name) (w_root w) = Inr n" "w' = w\<lparr>w_root := n\<rparr>"
    by (auto simp: on_tree_def and_then_eq_Inr split: option.splits)
  have "comps name \<noteq> []" using assms(3) by simp
  then have "n = w_root w \<or> parent_ok (comps name) (w_root w) \<and> n = change (comps name) (\<lambda>_. None) (w_root w)"
    using n(1) by (cases "lookup (comps name) (w_root w)") (simp_all add: remove_node_def place_Inr)
  then consider "n = w_root w" | "parent_ok (comps name) (w_root w)" "n = change (comps name) (\<lambda>_. None) (w_root w)"
    by blast
  then have "same_objects root w w'"
  proof cases
    case 1
    then show ?thesis using n(2) same_objects_refl [OF assms(1)] by simp
  next
    case 2
    then show ?thesis using change_temp_same [OF assms(1,2,4,5), of "\<lambda>_. None"] n(2) assms(3) by simp
  qed
  then show ?thesis using Inr by (simp add: remove_temp_def)
qed

lemma remove_temp_gone:
  assumes "lookup (comps name) (w_root w) = None"
  shows "remove_temp w name = w"
proof -
  have "on_tree ''remove'' name (remove_node (comps name)) w = Inr w" if "w_fault w ''remove'' name = None" "comps name \<noteq> []"
    using that assms by (simp add: on_tree_def remove_node_def)
  moreover have "comps name \<noteq> []" using assms by auto
  ultimately show ?thesis
    by (cases "w_fault w ''remove'' name") (simp_all add: remove_temp_def on_tree_def)
qed

text \<open>Publishing: the temporary file takes the place of the object.\<close>

lemma rename_publish:
  assumes "fs_wf root w" "name_ok i" "comps name = base root i @ [t]" "name_ok t" "\<not> published t" "published x"
    "comps p = base root i @ [x]" "lookup (comps name) (w_root w) = Some (File m b)" "os_Rename w name p = Inr w'"
  shows "fs_wf root w'" "w_fault w' = w_fault w" "w_rand w' = w_rand w" "w_umask w' = w_umask w"
    "lookup (comps name) (w_root w') = None" "parent_ok (comps name) (w_root w)" "parent_ok (comps p) (w_root w)"
    "w_root w' = change (comps p) (\<lambda>_. Some (File m b)) (change (comps name) (\<lambda>_. None) (w_root w))"
    "\<And>j y. stat_at (base root j @ [y]) (w_root w') =
       (if j = i \<and> y = x then Some (SFile m b) else if j = i \<and> y = t then None else stat_at (base root j @ [y]) (w_root w))"
proof -
  let ?n = "w_root w" and ?T = "base root i @ [t]" and ?P = "base root i @ [x]"
  have tx: "t \<noteq> x" using assms(5,6) by blast
  have pok: "parent_ok ?T ?n \<longleftrightarrow> parent_ok ?P ?n" for n by (simp add: parent_ok_def)
  obtain n where w': "w' = w\<lparr>w_root := n\<rparr>" and rn: "rename_node ?T ?P ?n = Inr n"
    using assms(3,7,9) by (auto simp: os_Rename_def on_tree_def and_then_eq_Inr split: option.splits)
  have ft: "find_node ?T ?n = Inr (File m b)" using assms(3,8) by (simp add: find_node_lookup)
  have pre: "\<not> (take (length ?T) ?P = ?T \<and> ?T \<noteq> ?P)" using tx by simp
  have nn: "and_then (place ?T (\<lambda>_. None) ?n) (place ?P (\<lambda>_. Some (File m b))) = Inr n"
    using rn tx unfolding rename_node_def ft
    by (auto split: option.splits node.splits if_splits)
  then have pT: "parent_ok ?T ?n" and n: "n = change ?P (\<lambda>_. Some (File m b)) (change ?T (\<lambda>_. None) ?n)"
    and pP: "parent_ok ?P (change ?T (\<lambda>_. None) ?n)"
    by (auto simp: and_then_eq_Inr place_Inr)
  have st: "stat_at (base root j @ [y]) n =
      (if j = i \<and> y = x then Some (SFile m b) else if j = i \<and> y = t then None else stat_at (base root j @ [y]) ?n)" for j y
    unfolding n stat_change_leaf [OF pP] stat_change_leaf [OF pT] by simp
  have bn: "\<forall>c\<in>set ?T. name_ok c" "\<forall>c\<in>set ?P. name_ok c"
    using base_names [OF assms(1,2)] assms(4) published_name_ok [OF assms(6)] by auto
  have "node_wf (change ?T (\<lambda>_. None) ?n)"
    using node_wf_change [OF _ bn(1), of ?n "\<lambda>_. None"] assms(1) by (simp add: fs_wf_def)
  then have "node_wf n" unfolding n by (rule node_wf_change [OF _ bn(2)]) auto
  then show "fs_wf root w'" using assms(1) w' by (simp add: fs_wf_def)
  show "w_fault w' = w_fault w" "w_rand w' = w_rand w" "w_umask w' = w_umask w" using w' by simp_all
  show "\<And>j y. stat_at (base root j @ [y]) (w_root w') =
       (if j = i \<and> y = x then Some (SFile m b) else if j = i \<and> y = t then None else stat_at (base root j @ [y]) (w_root w))"
    using st w' by simp
  show "lookup (comps name) (w_root w') = None"
    using st [of i t] tx w' assms(3) by (simp add: stat_at_def)
  show "parent_ok (comps name) (w_root w)" "parent_ok (comps p) (w_root w)" using pT pok assms(3,7) by simp_all
  show "w_root w' = change (comps p) (\<lambda>_. Some (File m b)) (change (comps name) (\<lambda>_. None) (w_root w))"
    using w' n assms(3,7) by simp
qed

lemma fs_view_same: "same_objects root w w' \<Longrightarrow> name_ok j \<Longrightarrow> fs_view root w' j y = fs_view root w j y"
  by (simp add: same_objects_def fs_view_def)

lemma fs_put_any:
  assumes wf: "fs_wf root w" and i: "name_ok i" and x: "published x"
    and put: "fs_Put root w (object_key i x) st = (w', e, d)"
  shows "fs_wf root w' \<and> (\<forall>j y. name_ok j \<longrightarrow> (j, y) \<noteq> (i, x) \<longrightarrow> fs_view root w' j y = fs_view root w j y)
    \<and> (case e of None \<Rightarrow> \<exists>b. st = Inr b \<and> fs_view root w' i x = Some b | Some _ \<Rightarrow> fs_view root w' i x = fs_view root w i x)"
proof -
  have same: ?thesis if "same_objects root w w'" "e \<noteq> None"
    using that i fs_view_same [OF that(1)] by (auto simp: same_objects_def)
  have root: "root \<noteq> []" using wf by (simp add: fs_wf_def)
  obtain p where p: "fs_path root (object_key i x) = Inr p" "comps p = base root i @ [x]" "comps (path_dir p) = base root i"
    using fs_path_object [OF root i published_name_ok [OF x]] by blast
  show ?thesis
  proof (cases "os_MkdirAll w (path_dir p) 0x1E8")
    case (Inl err)
    then have "w' = w" "e \<noteq> None" using put p by (auto simp: fs_Put_def)
    then show ?thesis using same same_objects_refl [OF wf] by blast
  next
    case (Inr w1)
    note s1 = MkdirAll_same(1) [OF wf i Inr p(3)]
    have wf1: "fs_wf root w1" using s1 by (simp add: same_objects_def)
    show ?thesis
    proof (cases "os_CreateTemp w1 (path_dir p) ''.upload-''")
      case (Inl err)
      then have "w' = w1" "e \<noteq> None" using put p Inr by (auto simp: fs_Put_def)
      then show ?thesis using s1 same by blast
    next
      case ct: (Inr wn)
      obtain w2 name where wn: "wn = (w2, name)" by (cases wn)
      obtain r where r: "r \<in> set (w_rand w1)" "comps name = base root i @ [''.upload-'' @ r]" "same_objects root w1 w2"
        "parent_ok (comps name) (w_root w1)"
        "w2 = w1\<lparr>w_root := change (comps name) (\<lambda>_. Some (File (masked w1 0x180) [])) (w_root w1)\<rparr>"
        using CreateTemp_same [OF wf1 i ct [unfolded wn] p(3)] by auto
      have rd: "r \<noteq> []" "all_digits r" using wf1 r(1) by (simp_all add: fs_wf_def)
      note t = temp_name [OF rd]
      have wf2: "fs_wf root w2" using r(3) by (simp add: same_objects_def)
      have l2: "lookup (comps name) (w_root w2) = Some (File (masked w1 0x180) [])"
        using r(4,5) by (simp add: lookup_change_same)
      obtain w3 err dr where wt: "write_temp w2 name st = (w3, err, dr)" by (cases "write_temp w2 name st")
      note s3 = write_temp_same [OF wf2 i r(2) t l2 wt]
      have wf3: "fs_wf root w3" using s3(1) by (simp add: same_objects_def)
      have w3: "same_objects root w w3" using s1 r(3) s3(1) same_objects_trans by blast
      have rm: "same_objects root w (remove_temp w3 name)"
        using same_objects_trans [OF w3 remove_temp_same [OF wf3 i r(2) t]] .
      note un = put [unfolded fs_Put_def p(1) sum.case Inr ct wn prod.case wt Let_def]
      show ?thesis
      proof (cases err)
        case (Some ee)
        then have "w' = remove_temp w3 name" "e \<noteq> None" using un by auto
        then show ?thesis using rm same by blast
      next
        case None
        obtain b where b: "st = Inr b" "lookup (comps name) (w_root w3) = Some (File (masked w1 0x180) b)"
          using s3(2) [OF None] by blast
        show ?thesis
        proof (cases "os_Rename w3 name p")
          case (Inl ee)
          then have "w' = remove_temp w3 name" "e \<noteq> None" using un None by auto
          then show ?thesis using rm same by blast
        next
          case rn: (Inr w4)
          note pub = rename_publish [OF wf3 i r(2) t x p(2) b(2) rn]
          have w': "w' = w4" "e = None" using un None rn remove_temp_gone [OF pub(5)] by auto
          have "fs_view root w4 j y = fs_view root w j y" if "name_ok j" "(j, y) \<noteq> (i, x)" for j y
            using pub(9) [of j y] that fs_view_same [OF w3 that(1), of y] t(2) by (auto simp: fs_view_def)
          moreover have "fs_view root w4 i x = Some b" using pub(9) [of i x] x by (simp add: fs_view_def)
          ultimately show ?thesis using w' pub(1) b(1) by simp
        qed
      qed
    qed
  qed
qed

subsection \<open>Publishing succeeds when nothing fails\<close>

lemma short_not_prefix: "length ds < length cs \<Longrightarrow> take n ds \<noteq> cs"
  by (auto simp: min_def split: if_splits)

lemma place_ok: "parent_ok cs n \<Longrightarrow> place cs f n = Inr (change cs f n)"
  by (simp add: place_Inr)

lemma mkdirs_leaf:
  assumes "mkdirs m (base root i) n = Inr n'"
  shows "stat_at (base root j @ [y]) n' = stat_at (base root j @ [y]) n"
proof -
  have "take (length (base root j @ [y])) (base root i) \<noteq> base root j @ [y]"
    by (rule short_not_prefix) simp
  with mkdirs_stat [OF assms, of "base root j @ [y]"] show ?thesis by simp
qed

lemma no_file_on_stat:
  "no_file_on cs n \<longleftrightarrow> (\<forall>k \<le> length cs. \<forall>s. stat_at (take k cs) n = Some s \<longrightarrow> (\<exists>m. s = SDir m))"
proof -
  have "is_dir x \<longleftrightarrow> (\<exists>m. shape_of x = SDir m)" for x by (cases x) auto
  then show ?thesis by (auto simp: no_file_on_def stat_at_def)
qed

lemma mkdirs_no_file: "mkdirs m cs n = Inr n' \<Longrightarrow> no_file_on ds n \<Longrightarrow> no_file_on ds n'"
  unfolding no_file_on_stat by (metis mkdirs_stat option.inject)

lemma change_no_file:
  assumes "parent_ok cs n" "length ds < length cs" "no_file_on ds n"
  shows "no_file_on ds (change cs f n)"
proof -
  have "stat_at (take k ds) (change cs f n) = stat_at (take k ds) n" for k
  proof -
    have "take (length cs) (take k ds) \<noteq> cs"
      by (rule short_not_prefix) (use assms(2) in simp)
    then show ?thesis by (simp add: stat_change [OF assms(1)])
  qed
  then show ?thesis using assms(3) by (simp add: no_file_on_stat)
qed

lemma pick_temp_exists:
  "r \<in> set rs \<Longrightarrow> lookup (comps (path_join [dir, pre @ r])) n = None \<Longrightarrow> \<exists>p. pick_temp n dir pre rs = Some p"
  by (induction rs) (auto simp: Let_def)

lemma rename_node_ok:
  assumes "lookup cs n = Some (File m b)" "parent_ok cs n" "parent_ok ds n" "length cs = length ds" "cs \<noteq> ds"
    "case stat_at ds n of None \<Rightarrow> True | Some (SFile m c) \<Rightarrow> True | _ \<Rightarrow> False"
  shows "\<exists>n'. rename_node cs ds n = Inr n'"
proof -
  have f: "find_node cs n = Inr (File m b)" using assms(1) by (simp add: find_node_lookup)
  have ne: "cs \<noteq> []" "ds \<noteq> []" using assms(2,3) by auto
  have pre: "take (length cs) ds \<noteq> cs" using assms(4,5) by simp
  have bl: "length (butlast ds) < length cs" using assms(4) ne by simp
  have "parent_ok ds (change cs (\<lambda>_. None) n)"
  proof -
    obtain d where d: "lookup (butlast ds) n = Some d" "is_dir d"
      using assms(3) by (auto simp: parent_ok_def split: option.splits)
    have "take (length cs) (butlast ds) \<noteq> cs" using bl by (rule short_not_prefix)
    then have "stat_at (butlast ds) (change cs (\<lambda>_. None) n) = stat_at (butlast ds) n"
      by (simp add: stat_change [OF assms(2)])
    then obtain d' where "lookup (butlast ds) (change cs (\<lambda>_. None) n) = Some d'" "shape_of d' = shape_of d"
      using d by (auto simp: stat_at_def)
    moreover have "is_dir d'" using d(2) calculation(2) by (cases d; cases d') auto
    ultimately show ?thesis using ne by (simp add: parent_ok_def)
  qed
  then have two: "\<exists>n'. and_then (place cs (\<lambda>_. None) n) (place ds (\<lambda>_. Some (File m b))) = Inr n'"
    using assms(2) by (auto simp: and_then_eq_Inr place_Inr)
  show ?thesis
  proof (cases "lookup ds n")
    case None
    with f ne pre two assms(5) show ?thesis by (simp add: rename_node_def)
  next
    case (Some k)
    then obtain m' c' where "k = File m' c'"
      using assms(6) by (cases k) (auto simp: stat_at_def)
    with Some f ne pre two assms(5) show ?thesis by (simp add: rename_node_def)
  qed
qed

lemma fs_put_good:
  assumes good: "fs_good root w" and i: "name_ok i" and x: "published x"
  shows "\<exists>w'. fs_Put root w (object_key i x) (Inr b) = (w', None, True) \<and> fs_good root w'"
proof -
  have wf: "fs_wf root w" and nf: "w_fault w = (\<lambda>_ _. None)"
    and dirs: "\<And>j. name_ok j \<Longrightarrow> no_file_on (base root j) (w_root w)"
    and leaf: "\<And>j y. name_ok j \<Longrightarrow> case stat_at (base root j @ [y]) (w_root w) of None \<Rightarrow> True | Some (SFile m c) \<Rightarrow> True | _ \<Rightarrow> False"
    using good by (auto simp: fs_good_def)
  obtain r0 where r0: "r0 \<in> set (w_rand w)" "\<And>j. name_ok j \<Longrightarrow> stat_at (base root j @ [''.upload-'' @ r0]) (w_root w) = None"
    using good by (auto simp: fs_good_def)
  have root: "root \<noteq> []" using wf by (simp add: fs_wf_def)
  obtain p where p: "fs_path root (object_key i x) = Inr p" "comps p = base root i @ [x]" "comps (path_dir p) = base root i"
    using fs_path_object [OF root i published_name_ok [OF x]] by blast
  obtain n1 where n1: "mkdirs (masked w 0x1E8) (base root i) (w_root w) = Inr n1"
    using mkdirs_succeeds [OF dirs [OF i]] by blast
  define w1 where "w1 = w\<lparr>w_root := n1\<rparr>"
  have mk: "os_MkdirAll w (path_dir p) 0x1E8 = Inr w1"
    using n1 p(3) nf by (simp add: os_MkdirAll_def on_tree_def w1_def)
  have wf1: "fs_wf root w1" using MkdirAll_same(1) [OF wf i mk p(3)] by (simp add: same_objects_def)
  have par1: "parent_ok (base root i @ [y]) (w_root w1)" for y using MkdirAll_same(2) [OF wf i mk p(3)] .
  have st1: "stat_at (base root j @ [y]) (w_root w1) = stat_at (base root j @ [y]) (w_root w)" for j y
    using mkdirs_leaf [OF n1] by (simp add: w1_def)
  have rd0: "r0 \<noteq> []" "all_digits r0" using wf r0(1) by (simp_all add: fs_wf_def)
  have "lookup (comps (path_join [path_dir p, ''.upload-'' @ r0])) (w_root w1) = None"
    using temp_comps [of "path_dir p" "''.upload-'' @ r0"] temp_name(1) [OF rd0] p(3) st1 [of i "''.upload-'' @ r0"] r0(2) [OF i]
    by (simp add: stat_at_def)
  then obtain name where pick: "pick_temp (w_root w1) (path_dir p) ''.upload-'' (w_rand w1) = Some name"
    using pick_temp_exists [of r0] r0(1) by (fastforce simp: w1_def)
  then obtain r where r: "r \<in> set (w_rand w1)" "name = path_join [path_dir p, ''.upload-'' @ r]"
    using pick_temp_Some by blast
  have rd: "r \<noteq> []" "all_digits r" using wf1 r(1) by (simp_all add: fs_wf_def)
  note t = temp_name [OF rd]
  let ?T = "base root i @ [''.upload-'' @ r]" and ?P = "base root i @ [x]"
  have cn: "comps name = ?T" using temp_comps [OF path_dir_not_Nil t(1), of p] r(2) p(3) by simp
  define w2 where "w2 = w1\<lparr>w_root := change ?T (\<lambda>_. Some (File (masked w1 0x180) [])) (w_root w1)\<rparr>"
  have nf1: "w_fault w1 = (\<lambda>_ _. None)" using nf by (simp add: w1_def)
  have ct: "os_CreateTemp w1 (path_dir p) ''.upload-'' = Inr (w2, name)"
    using pick nf1 by (simp add: os_CreateTemp_def cn w2_def place_ok [OF par1])
  have l2: "lookup ?T (w_root w2) = Some (File (masked w1 0x180) [])"
    using par1 by (simp add: w2_def lookup_change_same)
  have keep: "parent_ok (base root i @ [y]) (change ?T f n)" if "parent_ok (base root i @ [y]) n" "parent_ok ?T n" for y f n
    using that lookup_change_above [OF that(2), of "base root i" "[''.upload-'' @ r]" f] by (auto simp: parent_ok_def)
  have par2: "parent_ok (base root i @ [y]) (w_root w2)" for y using keep [OF par1 par1] by (simp add: w2_def)
  define w3 where "w3 = w2\<lparr>w_root := change ?T (\<lambda>_. Some (File (masked w1 0x180) b)) (w_root w2)\<rparr>"
  have nf2: "w_fault w2 = (\<lambda>_ _. None)" using nf1 by (simp add: w2_def)
  have wt: "write_temp w2 name (Inr b) = (w3, None, True)"
    using l2 nf2 by (simp add: write_temp_def on_tree_def write_node_def cn w3_def place_ok [OF par2])
  have wf2: "fs_wf root w2" using CreateTemp_same [OF wf1 i ct p(3)] by (auto simp: same_objects_def)
  have wf3: "fs_wf root w3"
    using write_temp_same(1) [OF wf2 i cn t l2 [folded cn] wt] by (simp add: same_objects_def)
  have l3: "lookup ?T (w_root w3) = Some (File (masked w1 0x180) b)" using par2 by (simp add: w3_def lookup_change_same)
  have par3: "parent_ok (base root i @ [y]) (w_root w3)" for y using keep [OF par2 par2] by (simp add: w3_def)
  have st3: "stat_at (base root j @ [y]) (w_root w3) = stat_at (base root j @ [y]) (w_root w)"
    if "\<not> (j = i \<and> y = ''.upload-'' @ r)" for j y
  proof -
    have "stat_at (base root j @ [y]) (w_root w3) = stat_at (base root j @ [y]) (w_root w2)"
      using stat_change_leaf [OF par2, of j y "''.upload-'' @ r" "\<lambda>_. Some (File (masked w1 0x180) b)"] that
      by (auto simp: w3_def)
    also have "\<dots> = stat_at (base root j @ [y]) (w_root w1)"
      using stat_change_leaf [OF par1, of j y "''.upload-'' @ r" "\<lambda>_. Some (File (masked w1 0x180) [])"] that
      by (auto simp: w2_def)
    finally show ?thesis by (simp add: st1)
  qed
  have tx: "''.upload-'' @ r \<noteq> x" using t(2) x by blast
  obtain n4 where n4: "rename_node ?T ?P (w_root w3) = Inr n4"
    using rename_node_ok [OF l3 par3 par3, of x] leaf [OF i, of x] st3 [of i x] tx by auto
  define w4 where "w4 = w3\<lparr>w_root := n4\<rparr>"
  have nf3: "w_fault w3 = (\<lambda>_ _. None)" using nf2 by (simp add: w3_def)
  have rn: "os_Rename w3 name p = Inr w4"
    using n4 nf3 p(2) cn by (simp add: os_Rename_def on_tree_def w4_def)
  note pub = rename_publish [OF wf3 i cn t x p(2) l3 [folded cn] rn]
  have put: "fs_Put root w (object_key i x) (Inr b) = (w4, None, True)"
    unfolding fs_Put_def p(1) sum.case mk ct prod.case wt Let_def option.case rn
    using remove_temp_gone [OF pub(5)] by simp
  have par3': "parent_ok ?P (change ?T (\<lambda>_. None) (w_root w3))" using keep [OF par3 par3] .
  have dirs4: "no_file_on (base root j) (w_root w4)" if "name_ok j" for j
  proof -
    have "no_file_on (base root j) (w_root w1)" using mkdirs_no_file [OF n1 dirs [OF that]] by (simp add: w1_def)
    then have "no_file_on (base root j) (w_root w3)"
      using change_no_file [OF par1] change_no_file [OF par2] by (simp add: w3_def w2_def)
    then show ?thesis
      unfolding pub(8) cn p(2) using change_no_file [OF par3] change_no_file [OF par3'] by simp
  qed
  have leaf4: "case stat_at (base root j @ [y]) (w_root w4) of None \<Rightarrow> True | Some (SFile m c) \<Rightarrow> True | _ \<Rightarrow> False"
    if "name_ok j" for j y
    using leaf [OF that, of y] st3 [of j y] by (simp add: pub(9))
  have free4: "stat_at (base root j @ [''.upload-'' @ r0]) (w_root w4) = None" if "name_ok j" for j
    using r0(2) [OF that] st3 [of j "''.upload-'' @ r0"] temp_name(2) [OF rd0] x by (auto simp: pub(9))
  have "w_rand w4 = w_rand w" "w_fault w4 = w_fault w" using pub(2,3) by (simp_all add: w3_def w2_def w1_def)
  then have "fs_good root w4"
    using pub(1) nf dirs4 leaf4 free4 r0(1) by (auto simp: fs_good_def)
  with put show ?thesis by blast
qed

lemma fs_put_bad:
  assumes good: "fs_good root w" and i: "name_ok i" and x: "published x"
    and put: "fs_Put root w (object_key i x) (Inl err) = (w', e, d)"
  shows "fs_good root w'"
proof -
  have wf: "fs_wf root w" and nf: "w_fault w = (\<lambda>_ _. None)"
    and dirs: "\<And>j. name_ok j \<Longrightarrow> no_file_on (base root j) (w_root w)"
    and leaf: "\<And>j y. name_ok j \<Longrightarrow> case stat_at (base root j @ [y]) (w_root w) of None \<Rightarrow> True | Some (SFile m c) \<Rightarrow> True | _ \<Rightarrow> False"
    using good by (auto simp: fs_good_def)
  obtain r0 where r0: "r0 \<in> set (w_rand w)" "\<And>j. name_ok j \<Longrightarrow> stat_at (base root j @ [''.upload-'' @ r0]) (w_root w) = None"
    using good by (auto simp: fs_good_def)
  have root: "root \<noteq> []" using wf by (simp add: fs_wf_def)
  obtain p where p: "fs_path root (object_key i x) = Inr p" "comps p = base root i @ [x]" "comps (path_dir p) = base root i"
    using fs_path_object [OF root i published_name_ok [OF x]] by blast
  obtain n1 where n1: "mkdirs (masked w 0x1E8) (base root i) (w_root w) = Inr n1"
    using mkdirs_succeeds [OF dirs [OF i]] by blast
  define w1 where "w1 = w\<lparr>w_root := n1\<rparr>"
  have mk: "os_MkdirAll w (path_dir p) 0x1E8 = Inr w1"
    using n1 p(3) nf by (simp add: os_MkdirAll_def on_tree_def w1_def)
  have wf1: "fs_wf root w1" using MkdirAll_same(1) [OF wf i mk p(3)] by (simp add: same_objects_def)
  have st1: "stat_at (base root j @ [y]) n1 = stat_at (base root j @ [y]) (w_root w)" for j y
    using mkdirs_leaf [OF n1] by simp
  have "\<exists>w2 name. w' = remove_temp w2 name \<and> (w' = w1 \<or> os_CreateTemp w1 (path_dir p) ''.upload-'' = Inr (w2, name))
      \<or> w' = w1"
    using put p(1) mk by (auto simp: fs_Put_def write_temp_def Let_def split: sum.splits prod.splits)
  then consider "w' = w1" | w2 name where "w' = remove_temp w2 name" "os_CreateTemp w1 (path_dir p) ''.upload-'' = Inr (w2, name)"
    by blast
  then have same: "fs_wf root w' \<and> w_fault w' = w_fault w \<and> w_rand w' = w_rand w \<and> (\<forall>ds. stat_at ds (w_root w') = stat_at ds n1)"
  proof cases
    case 1
    then show ?thesis using wf1 by (simp add: w1_def)
  next
    case (2 w2 name)
    obtain r where r: "r \<in> set (w_rand w1)" "comps name = base root i @ [''.upload-'' @ r]" "same_objects root w1 w2"
      "lookup (comps name) (w_root w1) = None" "parent_ok (comps name) (w_root w1)"
      "w2 = w1\<lparr>w_root := change (comps name) (\<lambda>_. Some (File (masked w1 0x180) [])) (w_root w1)\<rparr>"
      using CreateTemp_same [OF wf1 i 2(2) p(3) path_dir_not_Nil] by blast
    have rd: "r \<noteq> []" "all_digits r" using wf1 r(1) by (simp_all add: fs_wf_def)
    have s2: "same_objects root w2 w'"
      unfolding 2(1) by (rule remove_temp_same [OF _ i r(2) temp_name [OF rd]]) (use r(3) in \<open>simp add: same_objects_def\<close>)
    have "parent_ok (comps name) (w_root w2)"
      using lookup_change_above [OF r(5), of "base root i" "[''.upload-'' @ r]" "\<lambda>_. Some (File (masked w1 0x180) [])"] r(2,6)
      by (auto simp: parent_ok_def)
    moreover have "lookup (comps name) (w_root w2) \<noteq> None" using lookup_change_same [OF r(5)] r(6) by simp
    moreover have "w_fault w2 = (\<lambda>_ _. None)" "comps name \<noteq> []" using r(2,6) nf by (simp_all add: w1_def)
    ultimately have w': "w_root w' = change (comps name) (\<lambda>_. None) (w_root w2)" "parent_ok (comps name) (w_root w2)"
      by (auto simp: 2(1) remove_temp_def on_tree_def remove_node_def place_ok)
    have "stat_at ds (w_root w') = stat_at ds n1" for ds
    proof (cases "take (length (comps name)) ds = comps name")
      case True
      then have "lookup ds n1 = None"
        using r(4) lookup_append [of "comps name" "drop (length (comps name)) ds" n1]
        by (metis append_take_drop_id option.simps(4) w1_def world.select_convs(1) world.surjective world.update_convs(1))
      then show ?thesis using True stat_change [OF w'(2), of ds "\<lambda>_. None"] w'(1) by (simp add: stat_at_def)
    next
      case False
      then show ?thesis using w' r(5,6) by (simp add: stat_change w1_def)
    qed
    then show ?thesis using s2 r(3) by (simp add: same_objects_def w1_def)
  qed
  have "no_file_on (base root j) (w_root w')" if "name_ok j" for j
    using mkdirs_no_file [OF n1 dirs [OF that]] same by (simp add: no_file_on_stat)
  moreover have "stat_at (base root j @ [y]) (w_root w') = stat_at (base root j @ [y]) (w_root w)" for j y
    using same st1 by simp
  ultimately show ?thesis using same nf leaf r0 by (auto simp: fs_good_def)
qed

subsection \<open>Listing and opening\<close>

lemma HasSuffix_after_slash:
  assumes "HasSuffix (p @ slash # x) t" "slash \<notin> set t"
  shows "HasSuffix x t"
proof -
  obtain q where q: "p @ slash # x = q @ t" using assms(1) by (auto simp: HasSuffix_iff)
  then obtain us where "p = q @ us \<and> us @ slash # x = t \<or> p @ us = q \<and> slash # x = us @ t"
    by (auto simp: append_eq_append_conv2)
  then show ?thesis
  proof
    assume "p = q @ us \<and> us @ slash # x = t"
    then have "slash \<in> set t" by auto
    with assms(2) show ?thesis by simp
  next
    assume a: "p @ us = q \<and> slash # x = us @ t"
    show ?thesis
    proof (cases us)
      case Nil
      then have "slash \<in> set t" using a by (metis append_Nil list.set_intros(1))
      with assms(2) show ?thesis by simp
    next
      case (Cons c us')
      then show ?thesis using a by (auto simp: HasSuffix_iff)
    qed
  qed
qed

lemma find_node_missing: "no_file_on cs n \<Longrightarrow> find_node cs n = Inl e \<Longrightarrow> is_not_exist e"
proof (induction cs n rule: find_node.induct)
  case (2 c cs m es)
  then show ?case by (cases "map_of es c") (auto dest: no_file_on_Cons)
qed (auto dest: no_file_on_root)

lemma collect_all:
  assumes "\<And>x. x \<in> set xs \<Longrightarrow> f x = Inr (g x)"
  shows "collect f xs = Inr (concat (map g xs))"
  using assms by (induction xs) auto

lemma fs_path_saves:
  assumes "root \<noteq> []" "name_ok i"
  shows "fs_path root (saves_prefix i) = Inr (path_join [root, Join [i, ''saves''] [slash]])"
proof -
  let ?cs = "[i, ''saves'']"
  have n: "\<forall>c\<in>set ?cs. name_ok c" "?cs \<noteq> []" using assms(2) by simp_all
  have p: "saves_prefix i = Join ?cs [slash] @ [slash]" by (simp add: saves_prefix_def)
  have ne: "Join ?cs [slash] \<noteq> []" by simp
  have "Clean (saves_prefix i) = Clean (Join ?cs [slash])"
    unfolding Clean_def p comps_trailing_slash [OF ne] IsAbs_append [OF ne] ..
  then show ?thesis using fs_path_names [OF n, of root] by (simp only: fs_path_def)
qed

lemma walk_rel:
  assumes "root \<noteq> []" "name_ok i" "\<forall>c\<in>set cs. name_ok c" "cs \<noteq> []"
    "p = path_join [root, Join [i, ''saves''] [slash]]"
  shows "path_rel root (walk_path p cs) = Inr (Join ([i, ''saves''] @ cs) [slash])"
proof -
  have n: "\<forall>c\<in>set [i, ''saves'']. name_ok c" "[i, ''saves''] \<noteq> []" using assms(2) by simp_all
  have cl: "clean_comps (IsAbs root) (comps root @ [i, ''saves''])"
    by (rule clean_comps_append [OF comps_clean]) (use n in simp)
  have p: "p \<noteq> []" "comps p = comps root @ [i, ''saves'']" "IsAbs p = IsAbs root"
    unfolding assms(5) using path_join_text [OF assms(1) n] comps_path_join [OF assms(1) n] path_text_not_Nil [OF cl] by auto
  have w: "walk_path p cs = path_join [p, Join cs [slash]]"
    using assms(4) by (simp add: walk_path_def rel_text_def path_text_def)
  have "comps (walk_path p cs) = comps root @ [i, ''saves''] @ cs" "IsAbs (walk_path p cs) = IsAbs root"
    unfolding w using comps_path_join [OF p(1) assms(3,4)] p by simp_all
  moreover have "common_rest (comps root) (comps root @ [i, ''saves''] @ cs) = ([], [i, ''saves''] @ cs)"
    using common_rest_append [of "comps root" "[]"] by simp
  ultimately show ?thesis by (simp add: path_rel_def path_text_def)
qed

lemma fs_list_law:
  assumes good: "fs_good root w" and i: "name_ok i"
  shows "\<exists>ks. fs_List root w (saves_prefix i) = Inr ks \<and>
    (\<forall>k. HasSuffix k ''.json'' \<longrightarrow> (k \<in> set ks \<longleftrightarrow> (\<exists>x. k = object_key i x \<and> fs_view root w i x \<noteq> None)))"
proof -
  have wf: "fs_wf root w" and nf: "w_fault w = (\<lambda>_ _. None)" and dirs: "no_file_on (base root i) (w_root w)"
    and leaf: "\<And>y. case stat_at (base root i @ [y]) (w_root w) of None \<Rightarrow> True | Some (SFile m c) \<Rightarrow> True | _ \<Rightarrow> False"
    using good i by (auto simp: fs_good_def)
  have root: "root \<noteq> []" using wf by (simp add: fs_wf_def)
  define p where "p = path_join [root, Join [i, ''saves''] [slash]]"
  have pn: "\<forall>c\<in>set [i, ''saves'']. name_ok c" "[i, ''saves''] \<noteq> []" using i by simp_all
  have cp: "comps p = base root i" unfolding p_def base_def by (rule comps_path_join(1) [OF root pn])
  have fsp: "fs_path root (saves_prefix i) = Inr p" using fs_path_saves [OF root i] p_def by simp
  have viewD: "\<exists>n m c. lookup (base root i) (w_root w) = Some n \<and> lookup [x] n = Some (File m c)"
    if "fs_view root w i x \<noteq> None" for x
    using that by (auto simp: fs_view_def stat_at_def lookup_append split: if_splits option.splits shape.splits)
      (metis shape.distinct shape_of.simps node.exhaust)
  show ?thesis
  proof (cases "find_node (base root i) (w_root w)")
    case (Inl e)
    have "lookup (base root i) (w_root w) = None"
      using Inl find_node_lookup [of "base root i" "w_root w"] by (cases "lookup (base root i) (w_root w)") auto
    then have "fs_view root w i x = None" for x using viewD [of x] by (cases "fs_view root w i x") auto
    moreover have "fs_List root w (saves_prefix i) = Inr []"
      using fsp Inl nf find_node_missing [OF dirs Inl] by (simp add: fs_List_def os_Stat_def cp)
    ultimately show ?thesis by simp
  next
    case (Inr n)
    have ln: "lookup (base root i) (w_root w) = Some n" using Inr by (simp add: find_node_lookup)
    have nwf: "node_wf n" using node_wf_lookup [OF _ ln] wf by (simp add: fs_wf_def)
    have isd: "is_dir n" using dirs ln by (auto simp: no_file_on_def)
    let ?g = "\<lambda>e. if is_dir (snd e) then [] else [Join ([i, ''saves''] @ fst e) [slash]]"
    have visit: "list_visit root w p e = Inr (?g e)" if e: "e \<in> set (walk [] n)" for e
    proof -
      obtain cs k where ek: "e = (cs, k)" by (cases e)
      then have l: "lookup cs n = Some k" using e walk_lookup [OF nwf, of cs k "[]"] by simp
      have names: "\<forall>c\<in>set cs. name_ok c" using node_wf_lookup [OF nwf l] by blast
      have nv: "\<not> list_ex (\<lambda>j. vanished w p (take j cs)) [0..<length cs]"
        by (simp add: vanished_def nf list_ex_iff)
      show ?thesis
      proof (cases "is_dir k")
        case True
        then show ?thesis using nv nf by (simp add: list_visit_def ek)
      next
        case False
        then have "cs \<noteq> []" using l isd by auto
        then show ?thesis using False nv walk_rel [OF root i names _ p_def] by (simp add: list_visit_def ek)
      qed
    qed
    have lst: "fs_List root w (saves_prefix i) = Inr (concat (map ?g (walk [] n)))"
      using fsp Inr nf collect_all [of "walk [] n" "list_visit root w p" ?g] visit
      by (simp add: fs_List_def os_Stat_def cp)
    have "k \<in> set (concat (map ?g (walk [] n))) \<longleftrightarrow> (\<exists>x. k = object_key i x \<and> fs_view root w i x \<noteq> None)"
      if sfx: "HasSuffix k ''.json''" for k
    proof
      assume "k \<in> set (concat (map ?g (walk [] n)))"
      then obtain cs f where cf: "(cs, f) \<in> set (walk [] n)" "\<not> is_dir f" "k = Join ([i, ''saves''] @ cs) [slash]"
        by (auto split: if_splits)
      then have l: "lookup cs n = Some f" using walk_lookup [OF nwf, of cs f "[]"] by simp
      then obtain x cs' where cs: "cs = x # cs'" using cf(2) isd by (cases cs) auto
      have lx: "lookup (base root i @ [x]) (w_root w) = lookup [x] n" by (simp add: lookup_append ln)
      have "lookup cs n = (case lookup [x] n of None \<Rightarrow> None | Some y \<Rightarrow> lookup cs' y)"
        using lookup_append [of "[x]" cs' n] cs by simp
      then obtain y where y: "lookup [x] n = Some y" "lookup cs' y = Some f" using l by (auto split: option.splits)
      then obtain m c where ym: "y = File m c" using leaf [of x] lx by (cases y) (auto simp: stat_at_def)
      then have "cs' = []" using y(2) by (cases cs') auto
      then have k: "k = object_key i x" using cf(3) cs by (simp add: object_key_Join)
      have "name_ok x" using node_wf_lookup [OF nwf y(1)] by simp
      moreover have "HasSuffix x ''.json''"
        using sfx HasSuffix_after_slash [of "i @ ''/saves''" x "''.json''"] by (simp add: k object_key_def saves_prefix_def)
      ultimately have "fs_view root w i x \<noteq> None"
        using lx y(1) ym by (simp add: fs_view_def published_def stat_at_def)
      with k show "\<exists>x. k = object_key i x \<and> fs_view root w i x \<noteq> None" by blast
    next
      assume "\<exists>x. k = object_key i x \<and> fs_view root w i x \<noteq> None"
      then obtain x where x: "k = object_key i x" "fs_view root w i x \<noteq> None" by blast
      then obtain m c where "lookup [x] n = Some (File m c)" using viewD [OF x(2)] ln by auto
      then have "([x], File m c) \<in> set (walk [] n)" using walk_lookup [OF nwf] by auto
      moreover have "k \<in> set (?g ([x], File m c))" by (simp add: x(1) object_key_Join)
      ultimately show "k \<in> set (concat (map ?g (walk [] n)))" unfolding set_concat by (auto intro!: bexI)
    qed
    with lst show ?thesis by blast
  qed
qed

lemma fs_open_law:
  assumes good: "fs_good root w" and i: "name_ok i" and x: "published x"
  shows "case fs_view root w i x of
      Some b \<Rightarrow> fs_Open root w (object_key i x) = Inr \<lparr>rd_data = b, rd_err = None, rd_close = None\<rparr>
    | None \<Rightarrow> \<exists>e. fs_Open root w (object_key i x) = Inl e"
proof -
  have wf: "fs_wf root w" and nf: "w_fault w = (\<lambda>_ _. None)"
    and leaf: "case stat_at (base root i @ [x]) (w_root w) of None \<Rightarrow> True | Some (SFile m c) \<Rightarrow> True | _ \<Rightarrow> False"
    using good i by (auto simp: fs_good_def)
  have root: "root \<noteq> []" using wf by (simp add: fs_wf_def)
  obtain p where p: "fs_path root (object_key i x) = Inr p" "comps p = base root i @ [x]"
    using fs_path_object [OF root i published_name_ok [OF x]] by blast
  show ?thesis
  proof (cases "lookup (base root i @ [x]) (w_root w)")
    case None
    then have "find_node (base root i @ [x]) (w_root w) \<noteq> Inr k" for k by (simp add: find_node_lookup)
    then obtain e where "find_node (base root i @ [x]) (w_root w) = Inl e" by (cases "find_node (base root i @ [x]) (w_root w)") auto
    then show ?thesis using p nf None by (simp add: fs_Open_def fs_view_def stat_at_def)
  next
    case (Some k)
    then obtain m c where k: "k = File m c" using leaf by (cases k) (auto simp: stat_at_def)
    have "find_node (base root i @ [x]) (w_root w) = Inr (File m c)" using Some k by (simp add: find_node_lookup)
    then show ?thesis using p nf Some k x by (simp add: fs_Open_def fs_view_def stat_at_def)
  qed
qed

text \<open>The filesystem backend keeps the laws of the interface.\<close>

interpretation fs: backend_laws "NewFilesystem root" "fs_view root" "fs_wf root" "fs_good root" for root
proof unfold_locales
  fix w i x b st w' e d err g
  have anon: "w' = w" if "be_Put (NewFilesystem root) w (object_key [] x) st = (w', e, d)"
  proof -
    have "IsAbs (object_key [] x)" by (simp add: object_key_def saves_prefix_def IsAbs_def HasPrefix_def)
    then show ?thesis using that by (auto simp: NewFilesystem_def fs_Put_def fs_path_def)
  qed
  show "fs_wf root w \<Longrightarrow> x = archive_name g \<or> x = manifest_name g \<Longrightarrow> be_Put (NewFilesystem root) w (object_key [] x) st = (w', e, d) \<Longrightarrow>
      fs_wf root w' \<and> (\<forall>j y. name_ok j \<longrightarrow> fs_view root w' j y = fs_view root w j y)"
    "fs_good root w \<Longrightarrow> x = archive_name g \<or> x = manifest_name g \<Longrightarrow> be_Put (NewFilesystem root) w (object_key [] x) st = (w', e, d) \<Longrightarrow> fs_good root w'"
    using anon by blast+
  show "fs_good root w \<Longrightarrow> fs_wf root w" by (simp add: fs_good_def)
  show "fs_view root w i x \<noteq> None \<Longrightarrow> published x" by (simp add: fs_view_def split: if_splits)
  assume i: "name_ok i"
  show "fs_good root w \<Longrightarrow>
     \<exists>ks. be_List (NewFilesystem root) w (saves_prefix i) = Inr ks \<and>
       (\<forall>k. HasSuffix k ''.json'' \<longrightarrow> (k \<in> set ks \<longleftrightarrow> (\<exists>x. k = object_key i x \<and> fs_view root w i x \<noteq> None)))"
    using fs_list_law [OF _ i] by (simp add: NewFilesystem_def)
  assume x: "published x"
  show "fs_good root w \<Longrightarrow> fs_view root w i x = Some b \<Longrightarrow>
      be_Open (NewFilesystem root) w (object_key i x) = Inr \<lparr>rd_data = b, rd_err = None, rd_close = None\<rparr>"
    using fs_open_law [OF _ i x, of root w] by (simp add: NewFilesystem_def)
  show "fs_good root w \<Longrightarrow> fs_view root w i x = None \<Longrightarrow> \<exists>e. be_Open (NewFilesystem root) w (object_key i x) = Inl e"
    using fs_open_law [OF _ i x, of root w] by (simp add: NewFilesystem_def)
  show "fs_wf root w \<Longrightarrow> be_Put (NewFilesystem root) w (object_key i x) st = (w', e, d) \<Longrightarrow>
      fs_wf root w' \<and> (\<forall>j y. name_ok j \<longrightarrow> (j, y) \<noteq> (i, x) \<longrightarrow> fs_view root w' j y = fs_view root w j y)
      \<and> (case e of None \<Rightarrow> \<exists>b. st = Inr b \<and> fs_view root w' i x = Some b 
            | Some _ \<Rightarrow> fs_view root w' i x = fs_view root w i x \<or> (\<exists>b. st = Inr b \<and> fs_view root w' i x = Some b))"
    using fs_put_any [OF _ i x, of root w st w' e d] by (auto simp: NewFilesystem_def split: option.splits)
  show "fs_good root w \<Longrightarrow> \<exists>w'. be_Put (NewFilesystem root) w (object_key i x) (Inr b) = (w', None, True) \<and> fs_good root w'"
    using fs_put_good [OF _ i x, of root w b] by (simp add: NewFilesystem_def)
  show "fs_good root w \<Longrightarrow> be_Put (NewFilesystem root) w (object_key i x) (Inl err) = (w', e, d) \<Longrightarrow> fs_good root w'"
    using fs_put_bad [OF _ i x, of root w err w' e d] by (simp add: NewFilesystem_def)
qed

subsection \<open>The store on the filesystem backend\<close>

text \<open>
  Backups are never damaged. Whatever fails during a commit (reading the world, creating, writing,
  syncing or renaming a file, listing), every archive and manifest of every pack other than the two of
  the generation being written is exactly what it was; and when the expected generation is not the
  newest one, the commit is refused and nothing at all changes.
\<close>

theorem commit_preserves_backups:
  assumes "fs_wf root s" "name_ok i" "Commit (NewFilesystem root) cd dg now w s i source expected = (s', r)"
  shows "(\<forall>j y. name_ok j \<longrightarrow> (j, y) \<notin> {(i, archive_name (expected + 1)), (i, manifest_name (expected + 1))} \<longrightarrow>
      fs_view root s' j y = fs_view root s j y)
    \<and> (\<forall>h. Head (NewFilesystem root) s i = Inr h \<longrightarrow> conflicts h expected \<longrightarrow> s' = s \<and> r = Inl ErrGenerationConflict)"
  using fs.commit_keeps_objects [OF assms] assms(3) by (auto simp: Commit_def)

text \<open>
  C6. A commit that reports success is real, whatever failed on the way: the bytes of the archive of
  the source directory are stored under the next generation, \<open>Head\<close> now answers with the returned
  manifest, and that manifest carries this pack's id, the next generation, and the size and SHA-256 of
  the stored bytes.
\<close>

theorem commit_success_is_durable:
  assumes "fs_wf root s" "name_ok i" "Commit (NewFilesystem root) cd dg now w s i source expected = (s', Inr m)"
  shows "\<exists>b. writeArchive cd w source = Inr b \<and> fs_view root s' i (archive_name (expected + 1)) = Some b
    \<and> Head (NewFilesystem root) s' i = Inr (Some m) \<and> ID m = i \<and> Generation m = expected + 1 \<and> 0 < Generation m
    \<and> SHA256 m = sha256_hex b \<and> Size m = int (length b)"
  by (rule fs.commit_sound [OF assms])

text \<open>
  C7. \<open>Head\<close> finds the newest intact generation: a manifest of this pack whose archive has the recorded
  size and digest, and no higher generation has one. Torn, foreign or corrupt generations are skipped.
\<close>

theorem head_is_newest_intact:
  assumes "fs_good root s" "name_ok i" "filed (fs_view root s i) i"
  shows "\<exists>h. Head (NewFilesystem root) s i = Inr h \<and> newest (fs_view root s i) i h"
  by (rule fs.head_newest [OF assms])

text \<open>
  C8. When nothing fails, committing on top of the newest generation succeeds (short of generation
  2^64), makes the new generation the newest, and leaves a store on which the next commit can proceed.
\<close>

theorem fs_commit_succeeds:
  assumes "fs_good root s" "name_ok i" "filed (fs_view root s i) i" "newest (fs_view root s i) i h"
    "\<not> conflicts h expected" "writeArchive cd w source = Inr b" "0 < expected + 1"
    "manifest_wf (new_manifest dg now i (expected + 1) b)"
  shows "\<exists>s'. Commit (NewFilesystem root) cd dg now w s i source expected = (s', Inr (new_manifest dg now i (expected + 1) b))
    \<and> fs_good root s' \<and> filed (fs_view root s' i) i
    \<and> newest (fs_view root s' i) i (Some (new_manifest dg now i (expected + 1) b))
    \<and> fs_view root s' i (archive_name (expected + 1)) = Some b"
  by (rule fs.commit_succeeds [OF assms])

text \<open>
  A crash between the upload of the archive and that of its manifest is invisible: \<open>Head\<close> answers
  as before.
\<close>

theorem fs_torn_commit_invisible:
  assumes "fs_good root s" "name_ok i" "filed (fs_view root s i) i" "fs_view root s i (manifest_name g) = None"
    "fs_Put root s (archive_key i g) (Inr b) = (s', None, True)" "fs_good root s'"
  shows "Head (NewFilesystem root) s' i = Head (NewFilesystem root) s i"
proof -
  have "be_Put (NewFilesystem root) s (archive_key i g) (Inr b) = (s', None, True)"
    using assms(5) by (simp add: NewFilesystem_def)
  from fs.torn_commit_invisible [OF assms(1-4) this assms(6)] show ?thesis .
qed

subsection \<open>An empty store\<close>

definition empty_disk :: world where
  "empty_disk = \<lparr>w_root = Dir 0x1ED [], w_fault = (\<lambda>_ _. None), w_rand = [''7''], w_umask = 0x12\<rparr>"

lemma stat_empty: "cs \<noteq> [] \<Longrightarrow> stat_at cs (w_root empty_disk) = None"
  by (cases cs) (simp_all add: stat_at_def empty_disk_def)

lemma empty_disk_good: "fs_good ''/backups'' empty_disk"
proof -
  have c: "comps ''/backups'' = [''backups'']"
    by (simp add: comps_def clean_step_def IsAbs_def HasPrefix_def)
  have "fs_wf ''/backups'' empty_disk"
    by (simp add: fs_wf_def c empty_disk_def name_ok_def all_digits_def code_of_def)
  moreover have "no_file_on (base ''/backups'' i) (w_root empty_disk)" for i
  proof -
    have "\<exists>m. s = SDir m" if "stat_at cs (w_root empty_disk) = Some s" for cs s
      using that stat_empty [of cs] by (cases "cs = []") (auto simp: empty_disk_def)
    then show ?thesis by (simp add: no_file_on_stat)
  qed
  ultimately show ?thesis by (simp add: fs_good_def stat_empty) (simp add: empty_disk_def)
qed

lemma empty_view: "fs_view ''/backups'' empty_disk i x = None"
  by (simp add: fs_view_def stat_empty)

lemma empty_filed: "filed (fs_view ''/backups'' empty_disk i) i"
  by (simp add: filed_def empty_view)

lemma empty_newest: "newest (fs_view ''/backups'' empty_disk i) i None"
  by (simp add: newest_def intact_def empty_view)

lemma sample_id: "name_ok ''vanilla''"
  by (simp add: name_ok_def)

theorem head_is_newest_intact_witness:
  "\<exists>h. Head (NewFilesystem ''/backups'') empty_disk ''vanilla'' = Inr h
     \<and> newest (fs_view ''/backups'' empty_disk ''vanilla'') ''vanilla'' h"
  by (rule head_is_newest_intact [OF empty_disk_good sample_id empty_filed])

text \<open>A world of one file, and a codec that knows its archive.\<close>

definition sample_world :: world where
  "sample_world = \<lparr>w_root = Dir 0x1ED [(''data'', Dir 0x1ED [(''level.dat'', File 0x1A4 [1, 2, 3])])],
     w_fault = (\<lambda>_ _. None), w_rand = [''5''], w_umask = 0x12\<rparr>"

definition sample_entries :: "tar_entry list" where
  "sample_entries = [\<lparr>hdr_Name = ''level.dat'', hdr_Typeflag = TypeReg, hdr_Mode = 0x1A4, hdr_Data = [1, 2, 3]\<rparr>]"

definition sample_codec :: codec where
  "sample_codec = \<lparr>cd_encode = (\<lambda>es. if es = sample_entries then Inr [9, 9] else Inl EOF),
     cd_decode = (\<lambda>b. if b = [9, 9] then (sample_entries, None, b) else ([], Some EOF, b))\<rparr>"

lemma sample_archive: "writeArchive sample_codec sample_world ''/data'' = Inr [9, 9]"
  by code_simp

lemma sample_manifest_wf: "manifest_wf (new_manifest None ''2024-05-06T07:08:09Z'' ''vanilla'' 1 [9, 9])"
proof -
  have "valid_utf8 (sha256_hex b)" for b
    by (simp add: is_ascii_valid_utf8 is_ascii_sha256_hex)
  moreover have "rfc3339 ''2024-05-06T07:08:09Z''" by code_simp
  ultimately show ?thesis
    by (simp add: manifest_wf_def new_manifest_def is_ascii_valid_utf8 code_of_def)
qed

theorem fs_commit_succeeds_witness:
  "\<exists>s'. Commit (NewFilesystem ''/backups'') sample_codec None ''2024-05-06T07:08:09Z'' sample_world empty_disk
     ''vanilla'' ''/data'' 0 = (s', Inr (new_manifest None ''2024-05-06T07:08:09Z'' ''vanilla'' 1 [9, 9]))"
  using fs_commit_succeeds [OF empty_disk_good sample_id empty_filed empty_newest _ sample_archive, of 0]
    sample_manifest_wf by (auto simp: conflicts_def)

lemma sample_commit:
  obtains s' where "Commit (NewFilesystem ''/backups'') sample_codec None ''2024-05-06T07:08:09Z'' sample_world empty_disk
     ''vanilla'' ''/data'' 0 = (s', Inr (new_manifest None ''2024-05-06T07:08:09Z'' ''vanilla'' 1 [9, 9]))"
  using fs.commit_succeeds [OF empty_disk_good sample_id empty_filed empty_newest _ sample_archive, of 0]
    sample_manifest_wf by (auto simp: conflicts_def)

lemma empty_disk_wf: "fs_wf ''/backups'' empty_disk"
  using empty_disk_good by (simp add: fs_good_def)

theorem commit_success_is_durable_witness:
  "\<exists>s' m. Commit (NewFilesystem ''/backups'') sample_codec None ''2024-05-06T07:08:09Z'' sample_world empty_disk
     ''vanilla'' ''/data'' 0 = (s', Inr m) \<and> fs_view ''/backups'' s' ''vanilla'' (archive_name 1) = Some [9, 9]
     \<and> Head (NewFilesystem ''/backups'') s' ''vanilla'' = Inr (Some m)"
proof -
  obtain s' where s': "Commit (NewFilesystem ''/backups'') sample_codec None ''2024-05-06T07:08:09Z'' sample_world empty_disk
     ''vanilla'' ''/data'' 0 = (s', Inr (new_manifest None ''2024-05-06T07:08:09Z'' ''vanilla'' 1 [9, 9]))"
    by (rule sample_commit)
  from commit_success_is_durable [OF empty_disk_wf sample_id s'] sample_archive s' show ?thesis by auto
qed

theorem commit_preserves_backups_witness:
  "\<exists>s' r. Commit (NewFilesystem ''/backups'') sample_codec None ''2024-05-06T07:08:09Z'' sample_world empty_disk
     ''vanilla'' ''/data'' 0 = (s', r) \<and> fs_view ''/backups'' s' ''other'' (archive_name 1) = None"
proof -
  obtain s' r where s': "Commit (NewFilesystem ''/backups'') sample_codec None ''2024-05-06T07:08:09Z'' sample_world empty_disk
     ''vanilla'' ''/data'' 0 = (s', r)"
    by (cases "Commit (NewFilesystem ''/backups'') sample_codec None ''2024-05-06T07:08:09Z'' sample_world empty_disk
     ''vanilla'' ''/data'' 0")
  have "name_ok ''other''" by (simp add: name_ok_def)
  with commit_preserves_backups [OF empty_disk_wf sample_id s'] s' empty_view show ?thesis by auto
qed

theorem fs_torn_commit_invisible_witness:
  "\<exists>s'. fs_Put ''/backups'' empty_disk (archive_key ''vanilla'' 1) (Inr [9, 9]) = (s', None, True)
     \<and> Head (NewFilesystem ''/backups'') s' ''vanilla'' = Head (NewFilesystem ''/backups'') empty_disk ''vanilla''"
proof -
  obtain s' where s': "fs_Put ''/backups'' empty_disk (archive_key ''vanilla'' 1) (Inr [9, 9]) = (s', None, True)"
    "fs_good ''/backups'' s'"
    using fs_put_good [OF empty_disk_good sample_id, of "archive_name 1" "[9, 9]"] by (auto simp: keys)
  with fs_torn_commit_invisible [OF empty_disk_good sample_id empty_filed empty_view s'] show ?thesis by blast
qed

end
