(* ===== verification/Archive_Restore.thy ===== *)
theory Archive_Restore
  imports Backends
begin

text \<open>
  What \<open>Restore\<close> of \<open>internal/store/store.go\<close> does to the file system: an archive, however hostile,
  can only create files below the temporary directory; nothing that existed is ever modified; and a
  restored backup is the directory that was committed.
\<close>

subsection \<open>Extraction stays inside the temporary directory\<close>

lemma split_path_text:
  assumes "clean_comps r cs" "cs \<noteq> []"
  shows "split_on slash (path_text r cs) = (if r then [[]] else []) @ cs"
proof -
  have "\<forall>c\<in>set cs. slash \<notin> set c"
  proof
    fix c assume c: "c \<in> set cs"
    obtain n ds where "cs = replicate n ''..'' @ ds" "\<forall>c\<in>set ds. name_ok c" using assms(1) by (auto simp: clean_comps_def)
    with c consider "c = ''..''" | "name_ok c" by fastforce
    then show "slash \<notin> set c" by cases (simp_all add: name_ok_def)
  qed
  then have "split_on slash (Join cs [slash]) = cs" using split_on_Join [OF assms(2)] by blast
  then show ?thesis using assms(2) by (simp add: path_text_def)
qed

lemma path_prefix_comps:
  assumes "clean_comps r cs" "cs \<noteq> []" "clean_comps r ds" "HasPrefix (path_text r ds) (path_text r cs @ ''/'')"
  shows "\<exists>es. es \<noteq> [] \<and> ds = cs @ es"
proof -
  obtain t where t: "path_text r ds = path_text r cs @ slash # t" using assms(4) by (auto simp: HasPrefix_iff)
  have ne: "ds \<noteq> []"
  proof
    assume "ds = []"
    then have "path_text r ds = (if r then ''/'' else ''.'')" by (simp add: path_text_def)
    moreover have "path_text r cs \<noteq> []" using assms(1) by simp
    ultimately show False using t by (cases "path_text r cs") (auto split: if_splits)
  qed
  have "(if r then [[]] else []) @ ds = ((if r then [[]] else []) @ cs) @ split_on slash t"
    using split_path_text [OF assms(3) ne] split_path_text [OF assms(1,2)] split_on_append [of slash "path_text r cs" t] t
    by simp
  then have "ds = cs @ split_on slash t" by (simp split: if_splits)
  then show ?thesis by (intro exI [of _ "split_on slash t"]) simp
qed

text \<open>A path all of whose components are ordinary names, written the way \<open>Clean\<close> writes it.\<close>

definition clean_path :: "string \<Rightarrow> bool" where
  "clean_path p = (p = Clean p \<and> comps p \<noteq> [] \<and> (\<forall>c\<in>set (comps p). name_ok c))"

lemma clean_path_text: "clean_path p \<Longrightarrow> p = path_text (IsAbs p) (comps p)"
  by (simp add: clean_path_def Clean_def)

lemma names_clean: "\<forall>c\<in>set cs. name_ok c \<Longrightarrow> clean_comps r cs"
  unfolding clean_comps_def by (intro exI [of _ 0] exI [of _ cs]) simp

lemma clean_path_join:
  assumes "p \<noteq> []" "\<forall>c\<in>set (comps p @ cs). name_ok c" "cs \<noteq> []"
  shows "clean_path (path_join [p, Join cs [slash]])"
proof -
  let ?q = "path_text (IsAbs p) (comps p @ cs)"
  have q: "path_join [p, Join cs [slash]] = ?q" using path_join_text assms by simp
  have cl: "clean_comps (IsAbs p) (comps p @ cs)" by (rule names_clean [OF assms(2)])
  have "Clean ?q = ?q" by (simp add: Clean_def path_text_comps [OF cl])
  then show ?thesis using assms by (simp add: q clean_path_def path_text_comps [OF cl])
qed

lemma comps_dir_names:
  assumes "\<forall>x\<in>set (cs @ [c]). name_ok x"
  shows "comps (path_dir (path_text r (cs @ [c]))) = cs"
proof (rule comps_path_dir)
  show "clean_comps r (cs @ [c])" using assms by (rule names_clean)
  show "clean_comps r cs" using assms by (intro names_clean) simp
  show "slash \<notin> set c" using assms by (simp add: name_ok_def)
qed

text \<open>The target of an entry that passed both checks lies strictly below the temporary directory.\<close>

lemma target_below:
  assumes tmp: "clean_path tmp" and acc: "HasPrefix (path_join [tmp, c]) (tmp @ ''/'')" and ne: "c \<noteq> []"
  shows "\<exists>es. es \<noteq> [] \<and> comps (path_join [tmp, c]) = comps tmp @ es \<and> (\<forall>x\<in>set es. name_ok x)
    \<and> comps (path_dir (path_join [tmp, c])) = comps tmp @ butlast es"
proof -
  have t0: "tmp \<noteq> []" using tmp by (auto simp: clean_path_def dest: sym)
  let ?q = "path_join [tmp, c]" and ?r = "IsAbs tmp"
  have q: "?q = Clean (tmp @ [slash] @ c)" using t0 ne by (simp add: path_join_def)
  have ra: "IsAbs (tmp @ [slash] @ c) = ?r" using t0 by (simp add: IsAbs_append)
  have cq: "clean_comps ?r (comps ?q)" using comps_clean [of "tmp @ [slash] @ c"] ra by (simp add: q)
  have qt: "?q = path_text ?r (comps ?q)" using ra by (simp add: q) (simp add: Clean_def)
  have tt: "tmp = path_text ?r (comps tmp)" "comps tmp \<noteq> []" "\<forall>x\<in>set (comps tmp). name_ok x"
    using clean_path_text [OF tmp] tmp by (simp_all add: clean_path_def)
  obtain es where es: "es \<noteq> []" "comps ?q = comps tmp @ es"
    using path_prefix_comps [OF names_clean [OF tt(3)] tt(2) cq] acc qt tt(1) by metis
  have "\<forall>x\<in>set (comps tmp @ es). name_ok x"
  proof -
    obtain n ds where d: "comps tmp @ es = replicate n ''..'' @ ds" "\<forall>c\<in>set ds. name_ok c"
      using cq es(2) by (auto simp: clean_comps_def)
    have "n = 0"
    proof (rule ccontr)
      assume "n \<noteq> 0"
      then have "hd (comps tmp @ es) = ''..''" using d(1) by (cases n) auto
      then have "hd (comps tmp) = ''..''" using tt(2) by simp
      then show False using tt(2,3) by (metis dotdot_not_name list.set_sel(1))
    qed
    with d show ?thesis by simp
  qed
  then have names: "\<forall>x\<in>set es. name_ok x" by simp
  obtain fs f where f: "es = fs @ [f]" using es(1) by (cases es rule: rev_cases) auto
  have "comps (path_dir (path_text ?r ((comps tmp @ fs) @ [f]))) = comps tmp @ fs"
    by (rule comps_dir_names) (use names f tt(3) in auto)
  then have "comps (path_dir ?q) = comps tmp @ butlast es"
    using qt es(2) f by simp
  with es names show ?thesis by blast
qed

text \<open>
  \<open>outside T w w'\<close>: the two worlds agree everywhere but strictly below directory \<open>T\<close>.
\<close>

definition outside :: "string list \<Rightarrow> world \<Rightarrow> world \<Rightarrow> bool" where
  "outside T w w' =
     (w_fault w' = w_fault w \<and> w_rand w' = w_rand w \<and> w_umask w' = w_umask w \<and> (node_wf (w_root w) \<longrightarrow> node_wf (w_root w'))
      \<and> (\<forall>ds. (\<nexists>es. es \<noteq> [] \<and> ds = T @ es) \<longrightarrow> stat_at ds (w_root w') = stat_at ds (w_root w)))"

lemma outside_refl: "outside T w w"
  by (simp add: outside_def)

lemma outside_trans: "outside T w w' \<Longrightarrow> outside T w' w'' \<Longrightarrow> outside T w w''"
  by (simp add: outside_def)

lemma outside_change:
  assumes "parent_ok (T @ es) (w_root w)" "es \<noteq> []" "\<forall>c\<in>set (T @ es). name_ok c" "\<And>x k. f x = Some k \<Longrightarrow> node_wf k"
  shows "outside T w (w\<lparr>w_root := change (T @ es) f (w_root w)\<rparr>)"
proof -
  have "stat_at ds (change (T @ es) f (w_root w)) = stat_at ds (w_root w)" if "\<nexists>es. es \<noteq> [] \<and> ds = T @ es" for ds
  proof -
    have "take (length (T @ es)) ds \<noteq> T @ es"
    proof
      assume "take (length (T @ es)) ds = T @ es"
      then have "ds = T @ (es @ drop (length (T @ es)) ds)" by (metis append_assoc append_take_drop_id)
      with that assms(2) show False by blast
    qed
    then show ?thesis unfolding stat_change [OF assms(1)] by simp
  qed
  then show ?thesis
    using node_wf_change [OF _ assms(3), of "w_root w" f] assms(4) by (auto simp: outside_def)
qed

lemma stat_prefix: "stat_at (ds @ es) n \<noteq> None \<Longrightarrow> stat_at ds n \<noteq> None"
  by (auto simp: stat_at_def lookup_append split: option.splits)

lemma outside_MkdirAll:
  assumes "os_MkdirAll w p m = Inr w'" "comps p = T @ es" "\<forall>c\<in>set (T @ es). name_ok c" "stat_at T (w_root w) \<noteq> None"
  shows "outside T w w'"
proof -
  obtain n where n: "mkdirs (masked w m) (T @ es) (w_root w) = Inr n" "w' = w\<lparr>w_root := n\<rparr>"
    using assms(1,2) by (auto simp: os_MkdirAll_def on_tree_def and_then_eq_Inr split: option.splits)
  have "stat_at ds n = stat_at ds (w_root w)" if no: "\<nexists>es. es \<noteq> [] \<and> ds = T @ es" for ds
  proof (cases "take (length ds) (T @ es) = ds \<and> stat_at ds (w_root w) = None")
    case True
    then obtain fs where "T @ es = ds @ fs" by (metis append_take_drop_id)
    then obtain gs where "T = ds @ gs \<or> ds = T @ gs" by (auto simp: append_eq_append_conv2)
    with no have "\<exists>gs. T = ds @ gs" by (metis append_Nil2)
    then have "stat_at ds (w_root w) \<noteq> None" using stat_prefix assms(4) by blast
    with True show ?thesis by simp
  qed (use mkdirs_stat [OF n(1), of ds] in auto)
  then show ?thesis using mkdirs_wf [OF n(1) _ assms(3)] n(2) by (auto simp: outside_def)
qed

lemma outside_WriteFile:
  assumes "os_WriteFile w p m c = Inr w'" "comps p = T @ es" "es \<noteq> []" "\<forall>c\<in>set (T @ es). name_ok c"
  shows "outside T w w'"
proof -
  obtain n where n: "write_node (masked w m) c (T @ es) (w_root w) = Inr n" "w' = w\<lparr>w_root := n\<rparr>"
    using assms(1,2) by (auto simp: os_WriteFile_def on_tree_def and_then_eq_Inr split: option.splits)
  then obtain md where "place (T @ es) (\<lambda>_. Some (File md c)) (w_root w) = Inr n"
    by (auto simp: write_node_def split: option.splits node.splits)
  then have "parent_ok (T @ es) (w_root w)" "n = change (T @ es) (\<lambda>_. Some (File md c)) (w_root w)"
    by (simp_all add: place_Inr)
  then show ?thesis using outside_change [OF _ assms(3,4), of w "\<lambda>_. Some (File md c)"] n(2) by simp
qed

lemma extract_entry_confined:
  assumes tmp: "clean_path tmp" and T: "stat_at (comps tmp) (w_root w) \<noteq> None" and ex: "extract_entry u tmp w h = Inr w'"
  shows "outside (comps tmp) w w'"
proof -
  let ?c = "Clean (hdr_Name h)" and ?T = "comps tmp"
  let ?q = "path_join [tmp, ?c]"
  have acc: "HasPrefix ?q (tmp @ ''/'')" using ex by (auto simp: extract_entry_def Let_def split: if_splits)
  obtain es where es: "es \<noteq> []" "comps ?q = ?T @ es" "\<forall>x\<in>set es. name_ok x" "comps (path_dir ?q) = ?T @ butlast es"
    using target_below [OF tmp acc] by auto
  have names: "\<forall>x\<in>set (?T @ es). name_ok x" "\<forall>x\<in>set (?T @ butlast es). name_ok x"
    using tmp es(3) by (auto simp: clean_path_def dest: in_set_butlastD)
  show ?thesis
  proof (cases "hdr_Typeflag h")
    case TypeDir
    then have "os_MkdirAll w ?q (perm (hdr_Mode h)) = Inr w'"
      using ex acc by (auto simp: extract_entry_def Let_def split: if_splits)
    then show ?thesis using es(2) names(1) T by (rule outside_MkdirAll)
  next
    case TypeReg
    then obtain w1 where w1: "os_MkdirAll w (path_dir ?q) 0x1E8 = Inr w1"
      "os_WriteFile w1 ?q (perm (hdr_Mode h)) (hdr_Data h) = Inr w'"
      using ex acc by (auto simp: extract_entry_def Let_def and_then_eq_Inr split: if_splits)
    have "outside ?T w w1" using w1(1) es(4) names(2) T by (rule outside_MkdirAll)
    moreover have "outside ?T w1 w'" using w1(2) es(2,1) names(1) by (rule outside_WriteFile)
    ultimately show ?thesis by (rule outside_trans)
  qed (use ex in \<open>auto simp: extract_entry_def Let_def split: if_splits\<close>)
qed

lemma extract_all_confined:
  assumes "clean_path tmp" "stat_at (comps tmp) (w_root w) \<noteq> None" "extract_all u tmp w hs = (w', e)"
  shows "outside (comps tmp) w w'"
  using assms(2,3)
proof (induction hs arbitrary: w)
  case (Cons h hs)
  show ?case
  proof (cases "extract_entry u tmp w h")
    case (Inl err)
    then show ?thesis using Cons.prems(2) by (simp add: outside_refl)
  next
    case (Inr w1)
    have o: "outside (comps tmp) w w1" by (rule extract_entry_confined [OF assms(1) Cons.prems(1) Inr])
    moreover have "stat_at (comps tmp) (w_root w1) \<noteq> None" using o Cons.prems(1) by (simp add: outside_def)
    ultimately show ?thesis using Cons.IH Cons.prems(2) Inr outside_trans by auto
  qed
qed (simp add: outside_refl)

subsection \<open>Restore never touches what exists\<close>

text \<open>Everything visible in \<open>w\<close> is visible, unchanged, in \<open>w'\<close>.\<close>

definition kept :: "world \<Rightarrow> world \<Rightarrow> bool" where
  "kept w w' = (\<forall>ds s. stat_at ds (w_root w) = Some s \<longrightarrow> stat_at ds (w_root w') = Some s)"

lemma kept_refl: "kept w w"
  by (simp add: kept_def)

lemma kept_trans: "kept w w' \<Longrightarrow> kept w' w'' \<Longrightarrow> kept w w''"
  by (simp add: kept_def)

lemma kept_MkdirAll: "os_MkdirAll w p m = Inr w' \<Longrightarrow> kept w w'"
  by (auto simp: os_MkdirAll_def on_tree_def and_then_eq_Inr kept_def mkdirs_stat split: option.splits)

text \<open>Changes at or below a path where nothing was.\<close>

lemma kept_new:
  assumes "\<And>ds. (\<nexists>es. ds = T @ es) \<Longrightarrow> stat_at ds (w_root w') = stat_at ds (w_root w)" "stat_at T (w_root w) = None"
  shows "kept w w'"
  unfolding kept_def
proof (intro allI impI)
  fix ds s assume s: "stat_at ds (w_root w) = Some s"
  have "\<nexists>es. ds = T @ es"
  proof
    assume "\<exists>es. ds = T @ es"
    then show False using stat_prefix [of T _ "w_root w"] s assms(2) by auto
  qed
  with assms(1) s show "stat_at ds (w_root w') = Some s" by simp
qed

lemma take_append_iff: "take (length T) ds = T \<longleftrightarrow> (\<exists>es. ds = T @ es)"
  by (metis append_eq_conv_conj append_take_drop_id)

lemma MkdirTemp_new:
  assumes "os_MkdirTemp w dir pre = Inr (w', tmp)"
  shows "stat_at (comps tmp) (w_root w) = None" "stat_at (comps tmp) (w_root w') = Some (SDir (masked w 0x1C0))"
    "\<And>ds. stat_at ds (w_root w') = (if \<exists>es. ds = comps tmp @ es
       then (if ds = comps tmp then Some (SDir (masked w 0x1C0)) else None) else stat_at ds (w_root w))"
    "w' = w\<lparr>w_root := change (comps tmp) (\<lambda>_. Some (Dir (masked w 0x1C0) [])) (w_root w)\<rparr>"
    "parent_ok (comps tmp) (w_root w)" "\<exists>r\<in>set (w_rand w). tmp = path_join [dir, pre @ r]"
proof -
  obtain n where pick: "pick_temp (w_root w) dir pre (w_rand w) = Some tmp"
    and n: "place (comps tmp) (\<lambda>_. Some (Dir (masked w 0x1C0) [])) (w_root w) = Inr n" "w' = w\<lparr>w_root := n\<rparr>"
    using assms by (auto simp: os_MkdirTemp_def and_then_eq_Inr split: option.splits)
  have p: "parent_ok (comps tmp) (w_root w)" "n = change (comps tmp) (\<lambda>_. Some (Dir (masked w 0x1C0) [])) (w_root w)"
    using n(1) by (simp_all add: place_Inr)
  show "stat_at (comps tmp) (w_root w) = None" using pick_temp_Some [OF pick] by (auto simp: stat_at_def)
  have empty: "stat_at es (Dir m []) = (if es = [] then Some (SDir m) else None)" for es m
    by (cases es) (simp_all add: stat_at_def)
  show st: "\<And>ds. stat_at ds (w_root w') = (if \<exists>es. ds = comps tmp @ es
       then (if ds = comps tmp then Some (SDir (masked w 0x1C0)) else None) else stat_at ds (w_root w))"
    using stat_change [OF p(1), of _ "\<lambda>_. Some (Dir (masked w 0x1C0) [])"] p(2) n(2)
    by (auto simp: take_append_iff empty)
  show "stat_at (comps tmp) (w_root w') = Some (SDir (masked w 0x1C0))" using st [of "comps tmp"] by simp
  show "w' = w\<lparr>w_root := change (comps tmp) (\<lambda>_. Some (Dir (masked w 0x1C0) [])) (w_root w)\<rparr>" using p n by simp
  show "parent_ok (comps tmp) (w_root w)" by (rule p(1))
  show "\<exists>r\<in>set (w_rand w). tmp = path_join [dir, pre @ r]" using pick_temp_Some [OF pick] by blast
qed

lemma cleanup_outside:
  "(\<nexists>es. ds = comps tmp @ es) \<Longrightarrow> stat_at ds (w_root (cleanup w tmp)) = stat_at ds (w_root w)"
  unfolding cleanup_def os_RemoveAll_def on_tree_def remove_node_def
  by (auto simp: and_then_def place_Inr stat_change take_append_iff split: option.splits sum.splits if_splits)

lemma install_outside:
  assumes "install_restored w tmp destination m = (w', r)" "comps tmp \<noteq> []" "comps destination \<noteq> []"
    "\<And>op p e. w_fault w op p = Some e \<Longrightarrow> \<not> is_not_exist e"
  shows "(\<nexists>es. ds = comps tmp @ es) \<Longrightarrow> (\<nexists>es. ds = comps destination @ es) \<Longrightarrow>
      stat_at ds (w_root w') = stat_at ds (w_root w)"
    and "w' \<noteq> w \<Longrightarrow> stat_at (comps destination) (w_root w) = None"
proof -
  have "w' = w \<or> (stat_at (comps destination) (w_root w) = None \<and> (\<exists>x.
      and_then (place (comps tmp) (\<lambda>_. None) (w_root w)) (place (comps destination) (\<lambda>_. Some x)) = Inr (w_root w')))"
  proof (cases "os_Stat w destination")
    case (Inl e)
    show ?thesis
    proof (cases "is_not_exist e \<and> w' \<noteq> w")
      case True
      then obtain rn: "os_Rename w tmp destination = Inr w'"
        using assms(1) Inl by (auto simp: install_restored_def split: sum.splits)
      have "find_node (comps destination) (w_root w) = Inl e"
        using Inl True assms(4) by (auto simp: os_Stat_def split: option.splits)
      then have none: "lookup (comps destination) (w_root w) = None"
        using find_node_lookup [of "comps destination" "w_root w"] by (cases "lookup (comps destination) (w_root w)") auto
      then show ?thesis
        using rn by (auto simp: os_Rename_def on_tree_def rename_node_def and_then_eq_Inr stat_at_def
            split: option.splits if_splits)
    qed (use assms(1) Inl in \<open>auto simp: install_restored_def split: if_splits\<close>)
  qed (use assms(1) in \<open>auto simp: install_restored_def\<close>)
  then show "(\<nexists>es. ds = comps tmp @ es) \<Longrightarrow> (\<nexists>es. ds = comps destination @ es) \<Longrightarrow>
      stat_at ds (w_root w') = stat_at ds (w_root w)"
    and "w' \<noteq> w \<Longrightarrow> stat_at (comps destination) (w_root w) = None"
    by (auto simp: and_then_eq_Inr place_Inr stat_change take_append_iff)
qed

lemma digits_no_slash: "all_digits r \<Longrightarrow> slash \<notin> set r"
  by (auto simp: all_digits_def list_all_iff code_of_def)

text \<open>The temporary directory is made beside the destination.\<close>

lemma dir_of_clean:
  assumes "clean_path p"
  shows "comps (path_dir p) = butlast (comps p)"
proof -
  obtain cs c where cc: "comps p = cs @ [c]" using assms by (cases "comps p" rule: rev_cases) (auto simp: clean_path_def)
  have "comps (path_dir (path_text (IsAbs p) (cs @ [c]))) = cs"
    by (rule comps_dir_names) (use assms cc in \<open>simp add: clean_path_def\<close>)
  then show ?thesis using clean_path_text [OF assms] cc by simp
qed

lemma temp_beside:
  assumes "clean_path p" "name_ok t"
  shows "clean_path (path_join [path_dir p, t])" "comps (path_join [path_dir p, t]) = butlast (comps p) @ [t]"
proof -
  have "\<forall>c\<in>set (comps (path_dir p) @ [t]). name_ok c"
    using assms by (auto simp: dir_of_clean clean_path_def dest: in_set_butlastD)
  from clean_path_join [OF path_dir_not_Nil this] show "clean_path (path_join [path_dir p, t])" by simp
  show "comps (path_join [path_dir p, t]) = butlast (comps p) @ [t]"
    using temp_comps [OF path_dir_not_Nil assms(2), of p] dir_of_clean [OF assms(1)] by simp
qed

lemma restore_name_ok: "r \<noteq> [] \<Longrightarrow> all_digits r \<Longrightarrow> name_ok (''.restore-'' @ r)"
  using digits_no_slash [of r] by (simp add: name_ok_def)

lemma Restore_kept:
  assumes dest: "clean_path destination" and faults: "\<forall>op p e. w_fault w op p = Some e \<longrightarrow> \<not> is_not_exist e"
    and rand: "\<forall>r\<in>set (w_rand w). r \<noteq> [] \<and> all_digits r"
    and run: "Restore be u cd s w i destination = (w', res)"
  shows "kept w w'"
proof -
  have "w' = w \<or> (\<exists>m (r :: reader) w1. os_MkdirAll w (path_dir destination) 0x1E8 = Inr w1 \<and> (w' = w1 \<or>
      (\<exists>w2 tmp w3. os_MkdirTemp w1 (path_dir destination) ''.restore-'' = Inr (w2, tmp)
        \<and> restore_archive u cd w2 tmp destination m (rd_data r) = (w3, res) \<and> w' = cleanup w3 tmp)))"
    using run unfolding Restore_def by (auto simp: Let_def split: sum.splits option.splits prod.splits)
  then consider "w' = w" | w1 where "os_MkdirAll w (path_dir destination) 0x1E8 = Inr w1" "w' = w1"
    | m and r :: reader and w1 w2 tmp w3 where "os_MkdirAll w (path_dir destination) 0x1E8 = Inr w1"
        "os_MkdirTemp w1 (path_dir destination) ''.restore-'' = Inr (w2, tmp)"
        "restore_archive u cd w2 tmp destination m (rd_data r) = (w3, res)" "w' = cleanup w3 tmp"
    by blast
  then show ?thesis
  proof cases
    case 1
    then show ?thesis by (simp add: kept_refl)
  next
    case 2
    then show ?thesis using kept_MkdirAll by blast
  next
    case (3 m r w1 w2 tmp w3)
    have k1: "kept w w1" using kept_MkdirAll 3(1) by blast
    have w1: "w_fault w1 = w_fault w" "w_rand w1 = w_rand w"
      using 3(1) by (auto simp: os_MkdirAll_def on_tree_def and_then_eq_Inr split: option.splits)
    note t = MkdirTemp_new [OF 3(2)]
    obtain rr where rr: "rr \<in> set (w_rand w)" "tmp = path_join [path_dir destination, ''.restore-'' @ rr]"
      using t(6) w1(2) by auto
    have tmp: "clean_path tmp" using temp_beside(1) [OF dest restore_name_ok] rand rr by simp
    then have "comps tmp \<noteq> []" by (simp add: clean_path_def)
    note tmp = tmp this
    let ?T = "comps tmp" and ?D = "comps destination"
    obtain hs de cons w4 ee where dec: "cd_decode cd (rd_data r) = (hs, de, cons)" and ex: "extract_all u tmp w2 hs = (w4, ee)"
      by (metis prod_cases3 surj_pair)
    have o: "outside ?T w2 w4" by (rule extract_all_confined [OF tmp(1) _ ex]) (simp add: t(2))
    have "w3 = w4 \<or> (\<exists>res'. install_restored w4 tmp destination m = (w3, res'))"
      using 3(3) dec ex by (auto simp: restore_archive_def split: option.splits if_splits)
    then have inst: "(\<nexists>es. ds = ?T @ es) \<Longrightarrow> (\<nexists>es. ds = ?D @ es) \<Longrightarrow> stat_at ds (w_root w3) = stat_at ds (w_root w4)"
      and inst2: "w3 \<noteq> w4 \<Longrightarrow> stat_at ?D (w_root w4) = None" for ds
      using install_outside [of w4 tmp destination m w3] tmp(2) dest faults o w1(1) t(4)
      by (auto simp: clean_path_def outside_def)
    have w4: "stat_at ds (w_root w4) = stat_at ds (w_root w1)" if "\<nexists>es. ds = ?T @ es" for ds
      using o t(3) [of ds] that unfolding outside_def by auto
    have "kept w1 w'"
      unfolding kept_def
    proof (intro allI impI)
      fix ds x assume x: "stat_at ds (w_root w1) = Some x"
      have nT: "\<nexists>es. ds = ?T @ es"
        using stat_prefix [of ?T _ "w_root w1"] x t(1) by auto
      have "stat_at ds (w_root w3) = Some x"
      proof (cases "w3 = w4")
        case True
        then show ?thesis using w4 [OF nT] x by simp
      next
        case False
        have "\<nexists>es. ds = ?D @ es"
          using stat_prefix [of ?D _ "w_root w4"] inst2 [OF False] w4 [OF nT] x by auto
        then show ?thesis using inst [OF nT] w4 [OF nT] x by simp
      qed
      then show "stat_at ds (w_root w') = Some x" using cleanup_outside [OF nT] 3(4) by simp
    qed
    with k1 show ?thesis by (rule kept_trans)
  qed
qed

text \<open>
  C5. Restoring is safe for any archive, trusted or not, and whatever fails meanwhile: every file and
  directory that existed before \<open>Restore\<close> is there afterwards with the same content and mode. Path
  traversal, absolute names and links in the archive cannot reach outside the temporary directory, and
  an existing destination is never replaced.
\<close>

theorem restore_never_overwrites:
  assumes dest: "clean_path destination" and faults: "\<forall>op p e. w_fault w op p = Some e \<longrightarrow> \<not> is_not_exist e"
    and rand: "\<forall>r\<in>set (w_rand w). r \<noteq> [] \<and> all_digits r"
    and run: "Restore be u cd s w i destination = (w', res)"
  shows "kept w w'"
  by (rule Restore_kept [OF assms])

subsection \<open>Extracting what was archived\<close>

text \<open>A list of paths in which the parent of every path comes before it, or is one of \<open>seen\<close>.\<close>

fun parents_first :: "string list set \<Rightarrow> (string list \<times> node) list \<Rightarrow> bool" where
  "parents_first seen [] = True"
| "parents_first seen ((cs, k) # es) =
     (butlast cs \<in> seen \<and> parents_first (if is_dir k then insert cs seen else seen) es)"

lemma parents_first_mono: "parents_first seen es \<Longrightarrow> seen \<subseteq> seen' \<Longrightarrow> parents_first seen' es"
proof (induction seen es arbitrary: seen' rule: parents_first.induct)
  case (2 seen cs k es)
  have "parents_first (if is_dir k then insert cs seen' else seen') es"
    by (rule "2.IH") (use "2.prems" in auto)
  with 2 show ?case by auto
qed simp

lemma parents_first_append:
  "parents_first seen es \<Longrightarrow> parents_first seen fs \<Longrightarrow> parents_first seen (es @ fs)"
proof (induction seen es rule: parents_first.induct)
  case (2 seen cs k es)
  have "parents_first (if is_dir k then insert cs seen else seen) fs"
    by (rule parents_first_mono [OF "2.prems"(2)]) auto
  with 2 show ?case by simp
qed simp

lemma parents_first_concat: "\<forall>es\<in>set ess. parents_first seen es \<Longrightarrow> parents_first seen (concat ess)"
  by (induction ess) (auto intro: parents_first_append)

lemma parents_first_walk: "butlast cs \<in> seen \<Longrightarrow> parents_first seen (walk cs n)"
proof (induction cs n arbitrary: seen rule: walk.induct)
  case (3 cs m es)
  have "parents_first (insert cs seen) (walk (cs @ [c]) k)" if "(c, k) \<in> set (sort_key fst es)" for c k
    using 3(1) [OF that refl, of "insert cs seen"] by simp
  then have "parents_first (insert cs seen) (concat (map (\<lambda>(c, k). walk (cs @ [c]) k) (sort_key fst es)))"
    by (intro parents_first_concat) auto
  with 3(2) show ?case by simp
qed simp_all

lemma parents_first_filter:
  assumes "parents_first seen es" "\<forall>(cs, k)\<in>set es. Q cs \<longrightarrow> butlast cs = [] \<or> Q (butlast cs)" "[] \<in> seen"
  shows "parents_first {s \<in> seen. s = [] \<or> Q s} (filter (\<lambda>e. Q (fst e)) es)"
  using assms
proof (induction seen es rule: parents_first.induct)
  case (2 seen cs k es)
  let ?S = "if is_dir k then insert cs seen else seen"
  have IH: "parents_first {s \<in> ?S. s = [] \<or> Q s} (filter (\<lambda>e. Q (fst e)) es)"
    using 2 by (intro "2.IH") auto
  show ?case
  proof (cases "Q cs")
    case True
    have "{s \<in> ?S. s = [] \<or> Q s} = (if is_dir k then insert cs {s \<in> seen. s = [] \<or> Q s} else {s \<in> seen. s = [] \<or> Q s})"
      using True by auto
    with IH True 2 show ?thesis by auto
  next
    case False
    have "{s \<in> ?S. s = [] \<or> Q s} \<subseteq> {s \<in> seen. s = [] \<or> Q s}" using False 2(4) by auto
    with IH False show ?thesis using parents_first_mono by simp
  qed
qed simp

text \<open>What the extraction of a path leaves there.\<close>

fun restored_shape :: "world \<Rightarrow> node \<Rightarrow> shape" where
  "restored_shape w (Dir m es) = SDir (masked w (perm m))"
| "restored_shape w (File m c) = SFile (masked w (perm m)) c"
| "restored_shape w (Symlink t) = SLink t"

fun is_link :: "node \<Rightarrow> bool" where
  "is_link (Symlink t) = True"
| "is_link n = False"

lemma mkdirs_new:
  assumes "parent_ok cs n" "lookup cs n = None"
  shows "mkdirs m cs n = Inr (change cs (\<lambda>_. Some (Dir m [])) n)"
  using assms
proof (induction cs "\<lambda>_ :: node option. Some (Dir m [])" n rule: change.induct)
  case (2 c md es)
  then show ?case by (cases "map_of es c") auto
next
  case (3 c d cs md es)
  then show ?case by (cases "map_of es c") auto
qed auto

lemma stat_empty_dir: "stat_at es (Dir m []) = (if es = [] then Some (SDir m) else None)"
  by (cases es) (simp_all add: stat_at_def)

lemma stat_file: "stat_at es (File m c) = (if es = [] then Some (SFile m c) else None)"
  by (cases es) (simp_all add: stat_at_def)

lemma lookup_stat_dir: "stat_at cs n = Some (SDir m) \<Longrightarrow> \<exists>es. lookup cs n = Some (Dir m es)"
proof -
  assume "stat_at cs n = Some (SDir m)"
  then obtain x where "lookup cs n = Some x" "shape_of x = SDir m" by (auto simp: stat_at_def)
  then show ?thesis by (cases x) auto
qed

text \<open>One entry whose parent directory is already there, and which is not.\<close>

lemma extract_one:
  assumes tmp: "clean_path tmp" and cs: "cs \<noteq> []" "\<forall>c\<in>set cs. name_ok c"
    and par: "stat_at (comps tmp @ butlast cs) (w_root w) = Some (SDir m0)"
    and new: "stat_at (comps tmp @ cs) (w_root w) = None" and nf: "w_fault w = (\<lambda>_ _. None)" and k: "\<not> is_link k"
  shows "\<exists>w'. extract_entry u tmp w (node_entry (rel_text cs) k) = Inr w' \<and> outside (comps tmp) w w'
    \<and> (\<forall>ds. stat_at (comps tmp @ ds) (w_root w') =
        (if ds = cs then Some (restored_shape w k) else stat_at (comps tmp @ ds) (w_root w)))"
proof -
  let ?T = "comps tmp" and ?n = "w_root w"
  let ?q = "path_join [tmp, Join cs [slash]]"
  have t0: "tmp \<noteq> []" using tmp by (auto simp: clean_path_def dest: sym)
  have rel: "rel_text cs = Join cs [slash]" using cs(1) by (simp add: rel_text_def path_text_def)
  have q: "comps ?q = ?T @ cs" "comps (path_dir ?q) = ?T @ butlast cs"
    using comps_path_join(1) [OF t0 cs(2,1)] comps_dir_join [OF t0 cs(2,1)] by simp_all
  have qt: "?q = path_text (IsAbs tmp) (?T @ cs)" by (rule path_join_text [OF t0 cs(2,1)])
  have ne: "Join cs [slash] \<noteq> []" using cs by (cases cs) (auto simp: Join_Cons name_ok_def)
  have pre: "HasPrefix ?q (tmp @ ''/'')"
  proof -
    have "?q = path_text (IsAbs tmp) ?T @ slash # Join cs [slash]"
      using tmp cs(1) by (auto simp: qt path_text_def clean_path_def Join_append)
    then show ?thesis using clean_path_text [OF tmp] by (auto simp: HasPrefix_iff)
  qed
  have dot: "Clean (Join cs [slash]) \<noteq> ''.''"
  proof
    assume "Clean (Join cs [slash]) = ''.''"
    then have "comps (Join cs [slash]) = comps ''.''" by (metis comps_Clean(1))
    then have "cs = []" using comps_names(1) [OF cs(2)] by (simp add: comps_def clean_step_def)
    with cs(1) show False by simp
  qed
  have step: "extract_entry u tmp w (node_entry (rel_text cs) k) =
      (case hdr_Typeflag (node_entry (rel_text cs) k) of
         TypeDir \<Rightarrow> os_MkdirAll w ?q (perm (node_mode k))
       | TypeReg \<Rightarrow> and_then (os_MkdirAll w (path_dir ?q) 0x1E8) (\<lambda>w1. os_WriteFile w1 ?q (perm (node_mode k)) (content k))
       | _ \<Rightarrow> Inl EOF)"
    using k dot rel_names [OF cs(2,1)] pre
    by (cases k) (simp_all add: extract_entry_def Let_def rel Clean_names [OF cs(2,1)])
  obtain ps where pd: "lookup (?T @ butlast cs) ?n = Some (Dir m0 ps)" using lookup_stat_dir [OF par] by blast
  have pok: "parent_ok (?T @ cs) ?n" using pd cs(1) by (simp add: parent_ok_def butlast_append)
  have lk: "lookup (?T @ cs) ?n = None" using new by (simp add: stat_at_def)
  have names: "\<forall>c\<in>set (?T @ cs). name_ok c" using tmp cs(2) by (auto simp: clean_path_def)
  define x where "x = (case k of File m c \<Rightarrow> File (masked w (perm m)) c | Dir m _ \<Rightarrow> Dir (masked w (perm m)) [] | Symlink t \<Rightarrow> k)"
  have run: "extract_entry u tmp w (node_entry (rel_text cs) k) = Inr (w\<lparr>w_root := change (?T @ cs) (\<lambda>_. Some x) ?n\<rparr>)"
  proof (cases k)
    case (File m c)
    have "os_MkdirAll w (path_dir ?q) 0x1E8 = Inr w"
      using mkdirs_existing [OF pd] nf by (simp add: os_MkdirAll_def on_tree_def q)
    moreover have "os_WriteFile w ?q (perm m) c = Inr (w\<lparr>w_root := change (?T @ cs) (\<lambda>_. Some x) ?n\<rparr>)"
      using nf lk by (simp add: os_WriteFile_def on_tree_def q write_node_def place_ok [OF pok] x_def File)
    ultimately show ?thesis using step File by simp
  next
    case (Dir m es)
    then show ?thesis using step nf mkdirs_new [OF pok lk] by (simp add: os_MkdirAll_def on_tree_def q x_def)
  qed (use k in simp)
  have "node_wf x" using k by (cases k) (simp_all add: x_def)
  then have out: "outside ?T w (w\<lparr>w_root := change (?T @ cs) (\<lambda>_. Some x) ?n\<rparr>)"
    by (intro outside_change [OF pok cs(1) names]) auto
  have "stat_at (?T @ ds) (change (?T @ cs) (\<lambda>_. Some x) ?n) =
      (if ds = cs then Some (restored_shape w k) else stat_at (?T @ ds) ?n)" for ds
  proof (cases "\<exists>es. ds = cs @ es")
    case True
    then obtain es where es: "ds = cs @ es" by blast
    have "stat_at (?T @ ds) ?n = None"
      using stat_prefix [of "?T @ cs" es ?n] new es by (cases "stat_at (?T @ ds) ?n") auto
    then show ?thesis
      using k es by (cases k) (simp_all add: stat_change [OF pok] x_def stat_empty_dir stat_file)
  next
    case False
    then have "take (length (?T @ cs)) (?T @ ds) \<noteq> ?T @ cs" by (auto simp: take_append_iff)
    with False show ?thesis unfolding stat_change [OF pok] by auto
  qed
  with run out show ?thesis by auto
qed

lemma restored_shape_umask: "w_umask w' = w_umask w \<Longrightarrow> restored_shape w' k = restored_shape w k"
  by (cases k) (simp_all add: masked_def)

lemma extract_list:
  assumes tmp: "clean_path tmp"
    and L: "\<forall>(cs, k)\<in>set L. cs \<noteq> [] \<and> (\<forall>c\<in>set cs. name_ok c) \<and> \<not> is_link k" "distinct (map fst L)"
    and seen: "parents_first seen L" "\<forall>ds\<in>seen. \<exists>m. stat_at (comps tmp @ ds) (w_root w) = Some (SDir m)"
    and new: "\<forall>(cs, k)\<in>set L. stat_at (comps tmp @ cs) (w_root w) = None" and nf: "w_fault w = (\<lambda>_ _. None)"
  shows "\<exists>w'. extract_all u tmp w (map (\<lambda>(cs, k). node_entry (rel_text cs) k) L) = (w', None)
    \<and> outside (comps tmp) w w'
    \<and> (\<forall>ds. stat_at (comps tmp @ ds) (w_root w') =
        (case map_of L ds of Some k \<Rightarrow> Some (restored_shape w k) | None \<Rightarrow> stat_at (comps tmp @ ds) (w_root w)))"
  using L seen new nf
proof (induction L arbitrary: w seen)
  case Nil
  then show ?case by (auto simp: outside_refl)
next
  case (Cons e L)
  obtain cs k where e: "e = (cs, k)" by (cases e)
  have c: "cs \<noteq> []" "\<forall>c\<in>set cs. name_ok c" "\<not> is_link k" "stat_at (comps tmp @ cs) (w_root w) = None"
    using Cons.prems(1,5) e by auto
  obtain m where par: "stat_at (comps tmp @ butlast cs) (w_root w) = Some (SDir m)"
    using Cons.prems(3,4) e by auto
  obtain w1 where w1: "extract_entry u tmp w (node_entry (rel_text cs) k) = Inr w1" "outside (comps tmp) w w1"
    "\<And>ds. stat_at (comps tmp @ ds) (w_root w1) =
       (if ds = cs then Some (restored_shape w k) else stat_at (comps tmp @ ds) (w_root w))"
    using extract_one [OF tmp c(1,2) par c(4) Cons.prems(6) c(3)] by blast
  let ?seen = "if is_dir k then insert cs seen else seen"
  have "cs \<notin> fst ` set L" using Cons.prems(2) e by auto
  then have new1: "\<forall>(ds, k)\<in>set L. stat_at (comps tmp @ ds) (w_root w1) = None"
    using Cons.prems(5) w1(3) by (force simp: image_iff)
  have dirk: "\<exists>m. restored_shape w k = SDir m" if "is_dir k" using that by (cases k) auto
  have seen1: "\<forall>ds\<in>?seen. \<exists>m. stat_at (comps tmp @ ds) (w_root w1) = Some (SDir m)"
    using Cons.prems(4) w1(3) dirk c(4) by auto
  have nf1: "w_fault w1 = (\<lambda>_ _. None)" using w1(2) Cons.prems(6) by (simp add: outside_def)
  have pf1: "parents_first ?seen L" using Cons.prems(3) e by simp
  obtain w2 where w2: "extract_all u tmp w1 (map (\<lambda>(cs, k). node_entry (rel_text cs) k) L) = (w2, None)"
    "outside (comps tmp) w1 w2"
    "\<And>ds. stat_at (comps tmp @ ds) (w_root w2) =
       (case map_of L ds of Some k \<Rightarrow> Some (restored_shape w1 k) | None \<Rightarrow> stat_at (comps tmp @ ds) (w_root w1))"
    using Cons.IH [OF _ _ pf1 seen1 new1 nf1] Cons.prems(1,2) by auto
  have um: "w_umask w1 = w_umask w" using w1(2) by (simp add: outside_def)
  have "map_of L cs = None" using \<open>cs \<notin> fst ` set L\<close> by (simp add: map_of_eq_None_iff)
  then have "stat_at (comps tmp @ ds) (w_root w2) =
      (case map_of (e # L) ds of Some k \<Rightarrow> Some (restored_shape w k) | None \<Rightarrow> stat_at (comps tmp @ ds) (w_root w))" for ds
    using w2(3) [of ds] w1(3) [of ds] restored_shape_umask [OF um] by (auto simp: e split: option.splits)
  with w1(1) w2(1) outside_trans [OF w1(2) w2(2)] show ?case by (auto simp: e)
qed

subsection \<open>The archive of a directory\<close>

lemma walk_fst_prefix: "x \<in> set (walk cs n) \<Longrightarrow> \<exists>es. fst x = cs @ es"
proof (induction cs n rule: walk.induct)
  case (3 cs m es)
  then show ?case by fastforce
qed auto

lemma distinct_children:
  assumes "distinct (map fst xs)" "\<forall>x\<in>set xs. distinct (map fst (f x)) \<and> (\<forall>y\<in>set (f x). \<exists>es. fst y = cs @ fst x # es)"
  shows "distinct (map fst (concat (map f xs)))"
  using assms
proof (induction xs)
  case (Cons x xs)
  have "fst ` set (f x) \<inter> fst ` set (concat (map f xs)) = {}"
  proof (rule ccontr)
    assume "fst ` set (f x) \<inter> fst ` set (concat (map f xs)) \<noteq> {}"
    then obtain p where "p \<in> fst ` set (f x)" "p \<in> fst ` set (concat (map f xs))" by blast
    then obtain y z x' where "y \<in> set (f x)" "x' \<in> set xs" "z \<in> set (f x')" "fst y = fst z"
      unfolding image_iff set_concat set_map by auto
    with Cons.prems(2) have "fst x = fst x'" by fastforce
    with Cons.prems(1) \<open>x' \<in> set xs\<close> show False by auto
  qed
  with Cons show ?case by simp
qed simp

lemma distinct_walk: "node_wf n \<Longrightarrow> distinct (map fst (walk cs n))"
proof (induction cs n rule: walk.induct)
  case (3 cs m es)
  let ?xs = "sort_key fst es"
  have d: "distinct (map fst ?xs)"
    using 3(2) by (metis distinct_map distinct_sort inj_on_cong node_wf.simps(3) set_sort)
  have ch: "\<forall>x\<in>set ?xs. distinct (map fst ((\<lambda>(c, k). walk (cs @ [c]) k) x))
      \<and> (\<forall>y\<in>set ((\<lambda>(c, k). walk (cs @ [c]) k) x). \<exists>es. fst y = cs @ fst x # es)"
  proof
    fix x assume x: "x \<in> set ?xs"
    obtain c k where ck: "x = (c, k)" by (cases x)
    have "node_wf k" using 3(2) x ck by (auto simp: list_all_iff)
    then show "distinct (map fst ((\<lambda>(c, k). walk (cs @ [c]) k) x))
      \<and> (\<forall>y\<in>set ((\<lambda>(c, k). walk (cs @ [c]) k) x). \<exists>es. fst y = cs @ fst x # es)"
      using 3(1) [OF x, of c k] ck walk_fst_prefix [of _ "cs @ [c]" k] by fastforce
  qed
  have "cs \<notin> fst ` set (concat (map (\<lambda>(c, k). walk (cs @ [c]) k) ?xs))"
    using ch by fastforce
  then show ?case using distinct_children [OF d ch] by simp
qed simp_all

text \<open>The paths of a tree that are archived.\<close>

definition archived :: "node \<Rightarrow> (string list \<times> node) list" where
  "archived n = filter (\<lambda>e. \<not> skipped (rel_text (fst e))) (walk [] n)"

lemma writeArchive_entries:
  assumes "w_fault w = (\<lambda>_ _. None)" "find_node (comps source) (w_root w) = Inr n"
  shows "writeArchive cd w source = cd_encode cd (map (\<lambda>(cs, k). node_entry (rel_text cs) k) (archived n))"
proof -
  let ?g = "\<lambda>e. if skipped (rel_text (fst e)) then [] else [node_entry (rel_text (fst e)) (snd e)]"
  have "visit_entry w source e = Inr (?g e)" for e
    using assms(1) by (cases "snd e") (simp_all add: visit_entry_def Let_def)
  then have "collect (visit_entry w source) (walk [] n) = Inr (concat (map ?g (walk [] n)))"
    by (intro collect_all)
  moreover have "concat (map ?g es) = map (\<lambda>(cs, k). node_entry (rel_text cs) k) (filter (\<lambda>e. \<not> skipped (rel_text (fst e))) es)" for es
    by (induction es) (auto simp: case_prod_beta)
  ultimately show ?thesis using assms by (simp add: writeArchive_def os_Stat_def archived_def)
qed

text \<open>A world directory as the store expects it: a directory without links, whose credential files are files.\<close>

definition plain_tree :: "node \<Rightarrow> bool" where
  "plain_tree n = (node_wf n \<and> is_dir n \<and> (\<forall>ds t. stat_at ds n \<noteq> Some (SLink t))
     \<and> (\<forall>m. stat_at [''.rcon-cli.env''] n \<noteq> Some (SDir m) \<and> stat_at [''.rcon-cli.yaml''] n \<noteq> Some (SDir m)))"

lemma skipped_parent:
  assumes "plain_tree n" "lookup ds n = Some k" "\<not> skipped (rel_text ds)" "butlast ds \<noteq> []"
  shows "\<not> skipped (rel_text (butlast ds))"
proof
  assume sk: "skipped (rel_text (butlast ds))"
  have wf: "node_wf n" using assms(1) by (simp add: plain_tree_def)
  have ds: "ds = butlast ds @ [last ds]" using assms(4) by (cases ds rule: rev_cases) auto
  let ?p = "butlast ds"
  have names: "\<forall>c\<in>set ?p. name_ok c" using node_wf_lookup [OF wf assms(2)] by (auto dest: in_set_butlastD)
  have rp: "rel_text ?p = Join ?p [slash]" using assms(4) by (simp add: rel_text_def path_text_def)
  obtain x where x: "lookup ?p n = Some x" "lookup [last ds] x = Some k"
    using assms(2) lookup_append [of ?p "[last ds]" n] ds by (auto split: option.splits)
  then obtain m es where xd: "x = Dir m es" by (cases x) auto
  have comps_p: "comps (rel_text ?p) = ?p" using comps_names(1) [OF names] rp by simp
  have single: "?p = [t]" if "rel_text ?p = t" "name_ok t" for t
    using comps_p that comps_names(1) [of "[t]"] by simp
  have "rel_text ?p \<noteq> ''.''"
    using comps_p assms(4) by (auto simp: comps_def clean_step_def)
  then consider "rel_text ?p = ''.rcon-cli.env''" | "rel_text ?p = ''.rcon-cli.yaml''" | "HasPrefix (rel_text ?p) ''logs/''"
    using sk by (auto simp: skipped_def)
  then show False
  proof cases
    case 1
    then have "?p = [''.rcon-cli.env'']" by (rule single) (simp add: name_ok_def)
    then have "stat_at [''.rcon-cli.env''] n = Some (SDir m)" using x(1) xd by (simp add: stat_at_def)
    then show False using assms(1) unfolding plain_tree_def by blast
  next
    case 2
    then have "?p = [''.rcon-cli.yaml'']" by (rule single) (simp add: name_ok_def)
    then have "stat_at [''.rcon-cli.yaml''] n = Some (SDir m)" using x(1) xd by (simp add: stat_at_def)
    then show False using assms(1) unfolding plain_tree_def by blast
  next
    case 3
    have "rel_text ds = rel_text ?p @ slash # last ds"
      using ds Join_snoc [OF assms(4), of "last ds" "[slash]"] rp assms(4)
      by (simp add: rel_text_def path_text_def) (metis append_is_Nil_conv)
    then have "HasPrefix (rel_text ds) ''logs/''" using 3 by (auto simp: HasPrefix_iff)
    then show False using assms(3) by (simp add: skipped_def)
  qed
qed

text \<open>What a restored backup shows at a path below the destination.\<close>

definition restored_at :: "world \<Rightarrow> node \<Rightarrow> string list \<Rightarrow> shape option" where
  "restored_at w n ds =
     (if ds = [] then Some (SDir (masked w 0x1C0))
      else if skipped (rel_text ds) then None else map_option (restored_shape w) (lookup ds n))"

lemma archived_map_of:
  assumes "node_wf n" "ds \<noteq> []"
  shows "map_of (archived n) ds = (if skipped (rel_text ds) then None else lookup ds n)"
proof -
  have d: "distinct (map fst (archived n))"
    using distinct_map_filter [OF distinct_walk [OF assms(1)]] by (simp add: archived_def)
  show ?thesis
  proof (cases "skipped (rel_text ds)")
    case True
    then have "ds \<notin> fst ` set (archived n)" by (auto simp: archived_def)
    then show ?thesis using True by (simp add: map_of_eq_None_iff)
  next
    case False
    show ?thesis
    proof (cases "lookup ds n")
      case None
      then have "ds \<notin> fst ` set (archived n)" using walk_lookup [OF assms(1), of ds _ "[]"] by (auto simp: archived_def)
      then show ?thesis using None False by (simp add: map_of_eq_None_iff)
    next
      case (Some k)
      then have "(ds, k) \<in> set (archived n)" using False walk_lookup [OF assms(1), of ds k "[]"] by (simp add: archived_def)
      then show ?thesis using d Some False by simp
    qed
  qed
qed

lemma extract_archived:
  assumes "plain_tree n" "clean_path tmp" "w_fault w = (\<lambda>_ _. None)"
    "\<And>ds. stat_at (comps tmp @ ds) (w_root w) = (if ds = [] then Some (SDir (masked w 0x1C0)) else None)"
  shows "\<exists>w'. extract_all u tmp w (map (\<lambda>(cs, k). node_entry (rel_text cs) k) (archived n)) = (w', None)
    \<and> outside (comps tmp) w w' \<and> (\<forall>ds. stat_at (comps tmp @ ds) (w_root w') = restored_at w n ds)"
proof -
  have wf: "node_wf n" using assms(1) by (simp add: plain_tree_def)
  have mem: "lookup cs n = Some k \<and> \<not> skipped (rel_text cs)" if "(cs, k) \<in> set (archived n)" for cs k
    using that walk_lookup [OF wf, of cs k "[]"] by (simp add: archived_def)
  have root: "skipped (rel_text [])" by (simp add: skipped_def rel_text_def path_text_def)
  have link: "\<not> is_link k" if "lookup cs n = Some k" for cs k
  proof (cases k)
    case (Symlink t)
    then have "stat_at cs n = Some (SLink t)" using that by (simp add: stat_at_def)
    with assms(1) show ?thesis unfolding plain_tree_def by blast
  qed simp_all
  have L: "\<forall>(cs, k)\<in>set (archived n). cs \<noteq> [] \<and> (\<forall>c\<in>set cs. name_ok c) \<and> \<not> is_link k"
    using mem root link node_wf_lookup [OF wf] by fastforce
  have dist: "distinct (map fst (archived n))"
    using distinct_map_filter [OF distinct_walk [OF wf]] by (simp add: archived_def)
  have "parents_first {s \<in> {[]}. s = [] \<or> \<not> skipped (rel_text s)} (archived n)"
    unfolding archived_def
    by (rule parents_first_filter [OF parents_first_walk])
      (use skipped_parent [OF assms(1)] walk_lookup [OF wf, of _ _ "[]"] in auto)
  then have pf: "parents_first {[]} (archived n)" by (rule parents_first_mono) auto
  have "\<forall>(cs, k)\<in>set (archived n). stat_at (comps tmp @ cs) (w_root w) = None" using L assms(4) by auto
  moreover have "\<forall>ds\<in>{[]}. \<exists>m. stat_at (comps tmp @ ds) (w_root w) = Some (SDir m)" using assms(4) by (simp del: append_Nil2)
  ultimately obtain w' where
    w': "extract_all u tmp w (map (\<lambda>(cs, k). node_entry (rel_text cs) k) (archived n)) = (w', None)" "outside (comps tmp) w w'"
    "\<And>ds. stat_at (comps tmp @ ds) (w_root w') =
       (case map_of (archived n) ds of Some k \<Rightarrow> Some (restored_shape w k) | None \<Rightarrow> stat_at (comps tmp @ ds) (w_root w))"
    using extract_list [OF assms(2) L dist pf _ _ assms(3), of u] by blast
  have "map_of (archived n) [] = None" using L by (auto simp: map_of_eq_None_iff)
  then have "stat_at (comps tmp @ ds) (w_root w') = restored_at w n ds" for ds
    using w'(3) [of ds] archived_map_of [OF wf, of ds] assms(4) [of ds]
    by (cases "ds = []") (auto simp: restored_at_def split: option.splits)
  with w' show ?thesis by blast
qed

lemma find_node_append: "lookup cs n = Some x \<Longrightarrow> find_node (cs @ ds) n = find_node ds x"
  by (induction cs n rule: find_node.induct) (auto split: option.splits)

text \<open>Moving the finished directory into place beside the temporary one.\<close>

lemma install_ok:
  assumes "comps tmp = P @ [t]" "comps destination = P @ [d]" "t \<noteq> d" "w_fault w = (\<lambda>_ _. None)"
    "stat_at (P @ [t]) (w_root w) = Some (SDir m0)" "stat_at (P @ [d]) (w_root w) = None"
  shows "\<exists>w'. install_restored w tmp destination m = (w', Inr m) \<and> lookup (comps tmp) (w_root w') = None
    \<and> (\<forall>ds. stat_at (P @ d # ds) (w_root w') = stat_at (P @ t # ds) (w_root w))"
proof -
  let ?n = "w_root w" and ?T = "P @ [t]" and ?D = "P @ [d]"
  obtain es where x: "lookup ?T ?n = Some (Dir m0 es)" using lookup_stat_dir [OF assms(5)] by blast
  then obtain pm ps where pd: "lookup P ?n = Some (Dir pm ps)" by (auto simp: lookup_append split: option.splits elim: lookup.elims)
  have pT: "parent_ok ?T ?n" "parent_ok ?D ?n" using pd by (simp_all add: parent_ok_def)
  have nd: "lookup ?D ?n = None" using assms(6) by (simp add: stat_at_def)
  have fd: "\<exists>e. find_node ?D ?n = Inl e \<and> is_not_exist e"
  proof -
    have "find_node (P @ ds) ?n = find_node ds (Dir pm ps)" for ds by (rule find_node_append [OF pd])
    moreover have "map_of ps d = None" using nd pd by (auto simp: lookup_append split: option.splits)
    ultimately show ?thesis by simp
  qed
  let ?n1 = "change ?T (\<lambda>_. None) ?n"
  have pD: "parent_ok ?D ?n1"
    using lookup_change_above [OF pT(1), of P "[t]" "\<lambda>_. None"] by (auto simp: parent_ok_def)
  define w' where "w' = w\<lparr>w_root := change ?D (\<lambda>_. Some (Dir m0 es)) ?n1\<rparr>"
  have "rename_node ?T ?D ?n = Inr (w_root w')"
    using x nd assms(3) by (simp add: rename_node_def find_node_lookup [THEN iffD2] place_ok [OF pT(1)] place_ok [OF pD] w'_def)
  then have "install_restored w tmp destination m = (w', Inr m)"
    using fd assms(1,2,4) by (auto simp: install_restored_def os_Stat_def os_Rename_def on_tree_def w'_def)
  moreover have "stat_at ?T (w_root w') = None"
    using assms(3) by (simp add: w'_def stat_change [OF pD] stat_change [OF pT(1)])
  moreover have "stat_at (P @ d # ds) (w_root w') = stat_at (P @ t # ds) ?n" for ds
    using x stat_change [OF pD, of "P @ d # ds" "\<lambda>_. Some (Dir m0 es)"] lookup_append [of ?T ds ?n]
    by (simp add: w'_def stat_at_def)
  ultimately show ?thesis using assms(1) by (auto simp: stat_at_def)
qed

subsection \<open>Restoring what was committed\<close>

text \<open>
  The machine can take the backup: nothing fails, the destination is free, no file is in the way of its
  parents, and a temporary name beside it is free.
\<close>

definition can_restore :: "world \<Rightarrow> string \<Rightarrow> bool" where
  "can_restore w destination =
     (clean_path destination \<and> w_fault w = (\<lambda>_ _. None)
      \<and> no_file_on (butlast (comps destination)) (w_root w) \<and> stat_at (comps destination) (w_root w) = None
      \<and> (\<forall>r\<in>set (w_rand w). r \<noteq> [] \<and> all_digits r \<and> last (comps destination) \<noteq> ''.restore-'' @ r)
      \<and> (\<exists>r\<in>set (w_rand w). stat_at (butlast (comps destination) @ [''.restore-'' @ r]) (w_root w) = None))"

lemma prepare_restore:
  assumes can: "can_restore w destination"
  defines "P \<equiv> butlast (comps destination)"
  shows "\<exists>w1 w2 tmp t. os_MkdirAll w (path_dir destination) 0x1E8 = Inr w1
    \<and> os_MkdirTemp w1 (path_dir destination) ''.restore-'' = Inr (w2, tmp) \<and> clean_path tmp \<and> comps tmp = P @ [t]
    \<and> t \<noteq> last (comps destination) \<and> w_fault w2 = (\<lambda>_ _. None) \<and> w_umask w2 = w_umask w
    \<and> stat_at (comps destination) (w_root w2) = None
    \<and> (\<forall>ds. stat_at (comps tmp @ ds) (w_root w2) = (if ds = [] then Some (SDir (masked w2 0x1C0)) else None))"
proof -
  have dest: "clean_path destination" and nf: "w_fault w = (\<lambda>_ _. None)" and room: "no_file_on P (w_root w)"
    and none: "stat_at (comps destination) (w_root w) = None"
    and rand: "\<And>r. r \<in> set (w_rand w) \<Longrightarrow> name_ok (''.restore-'' @ r) \<and> last (comps destination) \<noteq> ''.restore-'' @ r"
    using can restore_name_ok by (simp_all add: can_restore_def P_def)
  obtain r0 where r0: "r0 \<in> set (w_rand w)" "stat_at (P @ [''.restore-'' @ r0]) (w_root w) = None"
    using can by (auto simp: can_restore_def P_def)
  let ?d = "last (comps destination)"
  have D: "comps destination = P @ [?d]" using dest by (simp add: clean_path_def P_def)
  have tc: "clean_path (path_join [path_dir destination, ''.restore-'' @ r])"
    "comps (path_join [path_dir destination, ''.restore-'' @ r]) = P @ [''.restore-'' @ r]" if "r \<in> set (w_rand w)" for r
    using temp_beside [OF dest] rand [OF that] by (simp_all add: P_def)
  obtain n1 where n1: "mkdirs (masked w 0x1E8) P (w_root w) = Inr n1" using mkdirs_succeeds [OF room] by blast
  define w1 where "w1 = w\<lparr>w_root := n1\<rparr>"
  have mk: "os_MkdirAll w (path_dir destination) 0x1E8 = Inr w1"
    using n1 dir_of_clean [OF dest] nf by (simp add: os_MkdirAll_def on_tree_def w1_def P_def)
  have st1: "stat_at (P @ [y]) n1 = stat_at (P @ [y]) (w_root w)" for y
    using mkdirs_stat [OF n1, of "P @ [y]"] by auto
  have par: "parent_ok (P @ [y]) n1" for y using mkdirs_dir [OF n1] by (auto simp: parent_ok_def)
  have "lookup (comps (path_join [path_dir destination, ''.restore-'' @ r0])) n1 = None"
    using st1 [of "''.restore-'' @ r0"] r0(2) tc(2) [OF r0(1)] by (simp add: stat_at_def)
  then obtain tmp where pick: "pick_temp n1 (path_dir destination) ''.restore-'' (w_rand w) = Some tmp"
    using pick_temp_exists [OF r0(1), of "path_dir destination" "''.restore-''" n1] by auto
  then obtain r where r: "r \<in> set (w_rand w)" "tmp = path_join [path_dir destination, ''.restore-'' @ r]"
    using pick_temp_Some by blast
  obtain w2 where w2: "os_MkdirTemp w1 (path_dir destination) ''.restore-'' = Inr (w2, tmp)"
    using pick nf par tc(2) [OF r(1)] r(2) by (simp add: os_MkdirTemp_def w1_def place_ok)
  note t = MkdirTemp_new [OF w2]
  have cm: "masked w2 0x1C0 = masked w1 0x1C0" "w_fault w2 = (\<lambda>_ _. None)" "w_umask w2 = w_umask w"
    using t(4) nf by (simp_all add: masked_def w1_def)
  have "stat_at (comps tmp @ ds) (w_root w2) = (if ds = [] then Some (SDir (masked w2 0x1C0)) else None)" for ds
    using t(3) [of "comps tmp @ ds"] cm(1) by simp
  moreover have "stat_at (comps destination) (w_root w2) = None"
    using t(3) [of "comps destination"] tc(2) [OF r(1)] r(2) rand [OF r(1)] none st1 [of ?d] D by (auto simp: w1_def)
  ultimately show ?thesis using mk w2 tc [OF r(1)] r rand [OF r(1)] cm(2,3) by metis
qed

lemma restored_at_umask: "w_umask w = w_umask w' \<Longrightarrow> restored_at w n = restored_at w' n"
  using restored_shape_umask [of w w'] by (auto simp: restored_at_def masked_def fun_eq_iff intro!: option.map_cong)

lemma cleanup_gone: "lookup (comps tmp) (w_root w) = None \<Longrightarrow> cleanup w tmp = w"
  by (simp add: cleanup_def os_RemoveAll_def on_tree_def remove_node_def split: option.splits)

lemma restore_ok:
  assumes "Head be s i = Inr (Some m)" "be_Open be s (archive_key i (Generation m)) = Inr \<lparr>rd_data = b, rd_err = None, rd_close = None\<rparr>"
    "cd_decode cd b = (map (\<lambda>(cs, k). node_entry (rel_text cs) k) (archived n), None, b)" "SHA256 m = sha256_hex b"
    "plain_tree n" "can_restore w destination"
  shows "\<exists>w'. Restore be u cd s w i destination = (w', Inr m)
    \<and> (\<forall>ds. stat_at (comps destination @ ds) (w_root w') = restored_at w n ds)"
proof -
  let ?P = "butlast (comps destination)" and ?d = "last (comps destination)"
  obtain w1 w2 tmp t where p: "os_MkdirAll w (path_dir destination) 0x1E8 = Inr w1"
    "os_MkdirTemp w1 (path_dir destination) ''.restore-'' = Inr (w2, tmp)" "clean_path tmp" "comps tmp = ?P @ [t]"
    "t \<noteq> ?d" "w_fault w2 = (\<lambda>_ _. None)" "w_umask w2 = w_umask w" "stat_at (comps destination) (w_root w2) = None"
    "\<And>ds. stat_at (comps tmp @ ds) (w_root w2) = (if ds = [] then Some (SDir (masked w2 0x1C0)) else None)"
    using prepare_restore [OF assms(6)] by blast
  have D: "comps destination = ?P @ [?d]" using assms(6) by (simp add: can_restore_def clean_path_def)
  obtain w3 where w3: "extract_all u tmp w2 (map (\<lambda>(cs, k). node_entry (rel_text cs) k) (archived n)) = (w3, None)"
    "outside (comps tmp) w2 w3" "\<And>ds. stat_at (comps tmp @ ds) (w_root w3) = restored_at w2 n ds"
    using extract_archived [OF assms(5) p(3,6,9)] by blast
  have "stat_at (?P @ [t]) (w_root w3) = Some (SDir (masked w2 0x1C0))"
    using w3(3) [of "[]"] p(4) by (simp add: restored_at_def)
  moreover have "stat_at (?P @ [?d]) (w_root w3) = None"
  proof -
    have "\<nexists>es. es \<noteq> [] \<and> comps destination = comps tmp @ es" using p(4,5) D by (metis append.assoc append_Cons append_Nil append_eq_append_conv butlast_snoc same_append_eq length_append_singleton list.inject append1_eq_conv butlast_append list.discI append_is_Nil_conv)
    then have "stat_at (comps destination) (w_root w3) = stat_at (comps destination) (w_root w2)"
      using w3(2) unfolding outside_def by blast
    then show ?thesis using p(8) D by simp
  qed
  moreover have "w_fault w3 = (\<lambda>_ _. None)" using w3(2) p(6) by (simp add: outside_def)
  ultimately obtain w' where w': "install_restored w3 tmp destination m = (w', Inr m)" "lookup (comps tmp) (w_root w') = None"
    "\<And>ds. stat_at (?P @ ?d # ds) (w_root w') = stat_at (?P @ t # ds) (w_root w3)"
    using install_ok [OF p(4) D p(5)] by blast
  have "restore_archive u cd w2 tmp destination m b = (w', Inr m)"
    using assms(3,4) w3(1) w'(1) by (simp add: restore_archive_def)
  then have "Restore be u cd s w i destination = (w', Inr m)"
    using assms(1,2) p(1,2) cleanup_gone [OF w'(2)] by (simp add: Restore_def)
  moreover have "stat_at (comps destination @ ds) (w_root w') = restored_at w n ds" for ds
  proof -
    have "comps destination @ ds = ?P @ ?d # ds" using D by (metis append.assoc append_Cons append_Nil)
    moreover have "comps tmp @ ds = ?P @ t # ds" using p(4) by simp
    ultimately show ?thesis using w'(3) [of ds] w3(3) [of ds] restored_at_umask [OF p(7), of n] by argo
  qed
  ultimately show ?thesis by blast
qed


definition sample_tree :: node where
  "sample_tree = Dir 0x1ED [(''level.dat'', File 0x1A4 [1, 2, 3])]"

lemma sample_find: "find_node (comps ''/data'') (w_root sample_world) = Inr sample_tree"
  by (simp add: sample_world_def sample_tree_def comps_def clean_step_def IsAbs_def HasPrefix_def)

lemma sample_plain: "plain_tree sample_tree"
proof -
  have st: "stat_at ds sample_tree = (if ds = [] then Some (SDir 0x1ED) else if ds = [''level.dat''] then Some (SFile 0x1A4 [1, 2, 3]) else None)" for ds
  proof (cases ds)
    case (Cons c cs)
    then show ?thesis by (cases cs) (simp_all add: stat_at_def sample_tree_def)
  qed (simp add: stat_at_def sample_tree_def)
  have "node_wf sample_tree" by (simp add: sample_tree_def name_ok_def)
  moreover have "is_dir sample_tree" by (simp add: sample_tree_def)
  ultimately show ?thesis unfolding plain_tree_def st by simp
qed

lemma sample_room: "can_restore empty_disk ''/data''"
proof -
  have c: "comps ''/data'' = [''data'']" by (simp add: comps_def clean_step_def IsAbs_def HasPrefix_def)
  have cl: "clean_path ''/data''" unfolding clean_path_def Clean_def c by (simp add: path_text_def IsAbs_def HasPrefix_def name_ok_def)
  show ?thesis unfolding can_restore_def using cl
    by (simp add: c stat_empty) (simp add: empty_disk_def no_file_on_def all_digits_def code_of_def)
qed

lemma sample_codec_inverse: "\<forall>es b. cd_encode sample_codec es = Inr b \<longrightarrow> cd_decode sample_codec b = (es, None, b)"
  by (auto simp: sample_codec_def)


theorem restore_never_overwrites_witness:
  "\<exists>w' r. Restore (NewFilesystem ''/backups'') sample_unicode sample_codec empty_disk sample_world ''vanilla'' ''/srv'' = (w', r)
     \<and> kept sample_world w'"
proof -
  obtain w' r where r: "Restore (NewFilesystem ''/backups'') sample_unicode sample_codec empty_disk sample_world ''vanilla'' ''/srv'' = (w', r)"
    by (cases "Restore (NewFilesystem ''/backups'') sample_unicode sample_codec empty_disk sample_world ''vanilla'' ''/srv''")
  have c: "comps ''/srv'' = [''srv'']" by (simp add: comps_def clean_step_def IsAbs_def HasPrefix_def)
  have cl: "clean_path ''/srv''" unfolding clean_path_def Clean_def c by (simp add: path_text_def IsAbs_def HasPrefix_def name_ok_def)
  have "\<forall>op p e. w_fault sample_world op p = Some e \<longrightarrow> \<not> is_not_exist e"
    "\<forall>r\<in>set (w_rand sample_world). r \<noteq> [] \<and> all_digits r"
    by (simp_all add: sample_world_def all_digits_def code_of_def)
  from restore_never_overwrites [OF cl this r] r show ?thesis by blast
qed

definition linked_world :: world where
  "linked_world = \<lparr>w_root = Dir 0x1ED [(''data'', Dir 0x1ED [(''mods'', Symlink ''/shared/mods'')])],
     w_fault = (\<lambda>_ _. None), w_rand = [''5''], w_umask = 0x12\<rparr>"

lemma extract_symlink: "hdr_Typeflag h = TypeSymlink \<Longrightarrow> \<exists>e. extract_entry u tmp w h = Inl e"
  by (simp add: extract_entry_def Let_def)


end
