(* ===== verification/Atomic_File.thy ===== *)
theory Atomic_File
  imports Archive_Restore
begin

text \<open>
  Replacing a file through a temporary one: \<open>os.CreateTemp\<close> in the directory of the target, write,
  \<open>Sync\<close>, \<open>Close\<close>, \<open>os.Rename\<close>, with a deferred \<open>os.Remove\<close>. \<open>StateFile.Save\<close>, the instance identity of
  the manager and \<open>atomicWrite\<close> of the command line all do this; the lemmas here say what is and what is
  not changed on the way, whatever fails.
\<close>

definition replace_file :: "world \<Rightarrow> string \<Rightarrow> string \<Rightarrow> string \<Rightarrow> byte list \<Rightarrow> world \<times> go_error option" where
  "replace_file w dir pre p b =
     (case os_CreateTemp w dir pre of
        Inl e \<Rightarrow> (w, Some e)
      | Inr (w1, tmp) \<Rightarrow>
          let (w2, err, _) = write_temp w1 tmp (Inr b) in
          (case err of
             Some e \<Rightarrow> (remove_temp w2 tmp, Some e)
           | None \<Rightarrow>
               (case os_Rename w2 tmp p of
                  Inl e \<Rightarrow> (remove_temp w2 tmp, Some e)
                | Inr w3 \<Rightarrow> (remove_temp w3 tmp, None))))"

subsection \<open>Worlds that differ only at given places\<close>

definition elsewhere :: "string list set \<Rightarrow> world \<Rightarrow> world \<Rightarrow> bool" where
  "elsewhere Ts w w' =
     (w_fault w' = w_fault w \<and> w_rand w' = w_rand w \<and> w_umask w' = w_umask w \<and> (node_wf (w_root w) \<longrightarrow> node_wf (w_root w'))
      \<and> (\<forall>ds. (\<forall>T\<in>Ts. take (length T) ds \<noteq> T) \<longrightarrow> stat_at ds (w_root w') = stat_at ds (w_root w)))"

lemma elsewhere_refl: "elsewhere Ts w w"
  by (simp add: elsewhere_def)

lemma elsewhere_trans: "elsewhere Ts w w' \<Longrightarrow> elsewhere Ts w' w'' \<Longrightarrow> elsewhere Ts w w''"
  by (simp add: elsewhere_def)

lemma elsewhere_mono: "elsewhere Ts w w' \<Longrightarrow> Ts \<subseteq> Ts' \<Longrightarrow> elsewhere Ts' w w'"
  by (auto simp: elsewhere_def)

lemma elsewhere_stat:
  "elsewhere Ts w w' \<Longrightarrow> (\<And>T. T \<in> Ts \<Longrightarrow> take (length T) ds \<noteq> T) \<Longrightarrow> stat_at ds (w_root w') = stat_at ds (w_root w)"
  by (simp add: elsewhere_def)

lemma elsewhere_change:
  assumes "parent_ok cs (w_root w)" "\<forall>c\<in>set cs. name_ok c" "\<And>x k. f x = Some k \<Longrightarrow> node_wf k"
  shows "elsewhere {cs} w (w\<lparr>w_root := change cs f (w_root w)\<rparr>)"
  using stat_change [OF assms(1)] node_wf_change [OF _ assms(2), of "w_root w" f] assms(3)
  by (auto simp: elsewhere_def)

lemma CreateTemp_new:
  assumes "os_CreateTemp w dir pre = Inr (w1, tmp)"
  shows "lookup (comps tmp) (w_root w) = None" "parent_ok (comps tmp) (w_root w)"
    "w1 = w\<lparr>w_root := change (comps tmp) (\<lambda>_. Some (File (masked w 0x180) [])) (w_root w)\<rparr>"
    "\<exists>r\<in>set (w_rand w). tmp = path_join [dir, pre @ r]"
proof -
  obtain n where pick: "pick_temp (w_root w) dir pre (w_rand w) = Some tmp"
    and pl: "place (comps tmp) (\<lambda>_. Some (File (masked w 0x180) [])) (w_root w) = Inr n" "w1 = w\<lparr>w_root := n\<rparr>"
    using assms by (auto simp: os_CreateTemp_def and_then_eq_Inr split: option.splits)
  then show "parent_ok (comps tmp) (w_root w)"
    "w1 = w\<lparr>w_root := change (comps tmp) (\<lambda>_. Some (File (masked w 0x180) [])) (w_root w)\<rparr>"
    by (simp_all add: place_Inr)
  show "lookup (comps tmp) (w_root w) = None" "\<exists>r\<in>set (w_rand w). tmp = path_join [dir, pre @ r]"
    using pick_temp_Some [OF pick] by auto
qed

lemma write_temp_file:
  assumes "lookup (comps tmp) (w_root w) = Some (File m c)" "write_temp w tmp (Inr b) = (w', e, d)"
    "\<forall>c\<in>set (comps tmp). name_ok c"
  shows "elsewhere {comps tmp} w w'" "e = None \<Longrightarrow> lookup (comps tmp) (w_root w') = Some (File m b)"
proof -
  have "w' = w \<and> e \<noteq> None \<or> parent_ok (comps tmp) (w_root w)
      \<and> w' = w\<lparr>w_root := change (comps tmp) (\<lambda>_. Some (File m b)) (w_root w)\<rparr>"
    using assms(1,2)
    by (auto simp: write_temp_def on_tree_def write_node_def and_then_def place_Inr split: sum.splits option.splits)
  then consider "w' = w" "e \<noteq> None" | "parent_ok (comps tmp) (w_root w)"
      "w' = w\<lparr>w_root := change (comps tmp) (\<lambda>_. Some (File m b)) (w_root w)\<rparr>" by blast
  then have "elsewhere {comps tmp} w w' \<and> (e = None \<longrightarrow> lookup (comps tmp) (w_root w') = Some (File m b))"
  proof cases
    case 2
    then show ?thesis
      using elsewhere_change [OF 2(1) assms(3), of "\<lambda>_. Some (File m b)"] by (simp add: lookup_change_same)
  qed (auto simp: elsewhere_refl)
  then show "elsewhere {comps tmp} w w'" "e = None \<Longrightarrow> lookup (comps tmp) (w_root w') = Some (File m b)" by simp_all
qed

lemma remove_temp_elsewhere:
  assumes "\<forall>c\<in>set (comps tmp). name_ok c"
  shows "elsewhere {comps tmp} w (remove_temp w tmp)"
proof -
  have "remove_temp w tmp = w \<or> parent_ok (comps tmp) (w_root w)
      \<and> remove_temp w tmp = w\<lparr>w_root := change (comps tmp) (\<lambda>_. None) (w_root w)\<rparr>"
    by (auto simp: remove_temp_def on_tree_def remove_node_def and_then_def place_Inr split: sum.splits option.splits)
  with elsewhere_change [OF _ assms, of w "\<lambda>_. None"] elsewhere_refl show ?thesis by auto
qed

lemma rename_file:
  assumes "lookup cs (w_root w) = Some (File m b)" "comps p = cs" "comps q = ds" "cs \<noteq> ds" "os_Rename w p q = Inr w'"
  shows "parent_ok cs (w_root w)" "parent_ok ds (change cs (\<lambda>_. None) (w_root w))"
    "w' = w\<lparr>w_root := change ds (\<lambda>_. Some (File m b)) (change cs (\<lambda>_. None) (w_root w))\<rparr>"
proof -
  let ?n = "w_root w"
  have ft: "find_node cs ?n = Inr (File m b)" using assms(1) by (simp add: find_node_lookup)
  obtain n where n: "rename_node cs ds ?n = Inr n" "w' = w\<lparr>w_root := n\<rparr>"
    using assms(2,3,5) by (auto simp: os_Rename_def on_tree_def and_then_eq_Inr split: option.splits)
  have "and_then (place cs (\<lambda>_. None) ?n) (place ds (\<lambda>_. Some (File m b))) = Inr n"
    using n(1) assms(4) unfolding rename_node_def ft by (auto split: option.splits node.splits if_splits)
  with n(2) show "parent_ok cs (w_root w)" "parent_ok ds (change cs (\<lambda>_. None) (w_root w))"
    "w' = w\<lparr>w_root := change ds (\<lambda>_. Some (File m b)) (change cs (\<lambda>_. None) (w_root w))\<rparr>"
    by (auto simp: and_then_eq_Inr place_Inr)
qed

subsection \<open>The contract of a replacement\<close>

text \<open>
  \<open>target_ok\<close>: the target is \<open>x\<close> in directory \<open>dir\<close>, and the temporary names are ordinary and never \<open>x\<close>.
\<close>

definition target_ok :: "world \<Rightarrow> string \<Rightarrow> string \<Rightarrow> string \<Rightarrow> bool" where
  "target_ok w dir pre p =
     (dir \<noteq> [] \<and> comps p \<noteq> [] \<and> comps dir = butlast (comps p) \<and> (\<forall>c\<in>set (comps p). name_ok c)
      \<and> (\<forall>r\<in>set (w_rand w). name_ok (pre @ r) \<and> pre @ r \<noteq> last (comps p)))"

definition temps :: "world \<Rightarrow> string \<Rightarrow> string \<Rightarrow> string list set" where
  "temps w pre p = (\<lambda>r. butlast (comps p) @ [pre @ r]) ` set (w_rand w)"

text \<open>The last move: the finished temporary file takes the place of the target, or nothing happens.\<close>

lemma rename_temp:
  assumes T: "comps tmp = butlast (comps p) @ [x]" "x \<noteq> last (comps p)" "comps p \<noteq> []"
    and names: "\<forall>c\<in>set (comps tmp). name_ok c" "\<forall>c\<in>set (comps p). name_ok c"
    and content: "lookup (comps tmp) (w_root w) = Some (File m b)" and mv: "os_Rename w tmp p = Inr w'"
  shows "remove_temp w' tmp = w'" "elsewhere {comps p, comps tmp} w w'" "lookup (comps p) (w_root w') = Some (File m b)"
proof -
  have ne: "comps tmp \<noteq> comps p" using T by (metis append_butlast_last_id last_snoc)
  note rn = rename_file [OF content refl refl ne mv]
  have "length (comps tmp) = length (comps p)" using T(1,3) by simp
  then have pre: "take (length (comps p)) (comps tmp) \<noteq> comps p" using ne by simp
  have "lookup (comps tmp) (w_root w') = None"
    using stat_change [OF rn(2), of "comps tmp" "\<lambda>_. Some (File m b)"]
      stat_change [OF rn(1), of "comps tmp" "\<lambda>_. None"] pre rn(3)
    by (auto simp: stat_at_def)
  then show "remove_temp w' tmp = w'" by (rule remove_temp_gone)
  have "elsewhere {comps tmp} w (w\<lparr>w_root := change (comps tmp) (\<lambda>_. None) (w_root w)\<rparr>)"
    by (rule elsewhere_change [OF rn(1) names(1)]) simp
  moreover have "elsewhere {comps p} (w\<lparr>w_root := change (comps tmp) (\<lambda>_. None) (w_root w)\<rparr>) w'"
    using elsewhere_change [of "comps p" "w\<lparr>w_root := change (comps tmp) (\<lambda>_. None) (w_root w)\<rparr>" "\<lambda>_. Some (File m b)"]
      rn(2,3) names(2) by simp
  ultimately show "elsewhere {comps p, comps tmp} w w'"
    by (meson elsewhere_mono elsewhere_trans insert_mono subset_insertI empty_subsetI)
  show "lookup (comps p) (w_root w') = Some (File m b)" using rn(2,3) by (simp add: lookup_change_same)
qed

text \<open>
  Whatever fails, only the target and temporary names change; the target changes only on success, and
  then it has exactly the new content.
\<close>

lemma finish_temp_any:
  assumes t: "target_ok w dir pre p" and create: "os_CreateTemp w dir pre = Inr (w1, tmp)"
    and fill: "\<And>m c. lookup (comps tmp) (w_root w1) = Some (File m c) \<Longrightarrow> \<forall>c\<in>set (comps tmp). name_ok c \<Longrightarrow>
      elsewhere {comps tmp} w1 w2 \<and> (err = None \<longrightarrow> (\<exists>m. lookup (comps tmp) (w_root w2) = Some (File m b)))"
    and run: "(case err of
        Some x \<Rightarrow> (remove_temp w2 tmp, Some x)
      | None \<Rightarrow> (case os_Rename w2 tmp p of Inl x \<Rightarrow> (remove_temp w2 tmp, Some x) | Inr w3 \<Rightarrow> (remove_temp w3 tmp, None))) = (w', e)"
  shows "case e of
      None \<Rightarrow> elsewhere (insert (comps p) (temps w pre p)) w w' \<and> (\<exists>m. lookup (comps p) (w_root w') = Some (File m b))
    | Some _ \<Rightarrow> elsewhere (temps w pre p) w w'"
proof -
  note c = CreateTemp_new [OF create]
  obtain r where r: "r \<in> set (w_rand w)" "tmp = path_join [dir, pre @ r]" using c(4) by blast
  have nm: "name_ok (pre @ r)" "pre @ r \<noteq> last (comps p)" "dir \<noteq> []" "comps dir = butlast (comps p)"
    "\<forall>c\<in>set (comps p). name_ok c" "comps p \<noteq> []"
    using t r(1) by (auto simp: target_ok_def)
  have T: "comps tmp = butlast (comps p) @ [pre @ r]" using temp_comps [OF nm(3,1)] r(2) nm(4) by simp
  have names: "\<forall>c\<in>set (comps tmp). name_ok c" using T nm by (auto dest: in_set_butlastD)
  have inT: "{comps tmp} \<subseteq> temps w pre p" using T r(1) by (auto simp: temps_def)
  have e1: "elsewhere {comps tmp} w w1" using elsewhere_change [OF c(2) names, of "\<lambda>_. Some (File (masked w 0x180) [])"] c(3) by simp
  have l1: "lookup (comps tmp) (w_root w1) = Some (File (masked w 0x180) [])" using c(2,3) by (simp add: lookup_change_same)
  note wr = fill [OF l1 names]
  have e2: "elsewhere {comps tmp} w w2" using elsewhere_trans [OF e1] wr by blast
  have fin: "elsewhere {comps tmp} w2 (remove_temp w2 tmp)" by (rule remove_temp_elsewhere [OF names])
  consider "w' = remove_temp w2 tmp" "e \<noteq> None" | w3 where "err = None" "os_Rename w2 tmp p = Inr w3" "w' = remove_temp w3 tmp" "e = None"
    using run by (auto split: option.splits sum.splits)
  then show ?thesis
  proof cases
    case 1
    then show ?thesis using elsewhere_mono [OF elsewhere_trans [OF e2 fin] inT] by (cases e) auto
  next
    case (2 w3)
    obtain m where m: "lookup (comps tmp) (w_root w2) = Some (File m b)" using wr 2(1) by blast
    note rn = rename_temp [OF T nm(2,6) names nm(5) m 2(2)]
    have "elsewhere (insert (comps p) (temps w pre p)) w w3"
      using elsewhere_trans [OF elsewhere_mono [OF e2] rn(2)] inT by (meson elsewhere_mono insert_mono subset_insertI)
    then show ?thesis using rn(1,3) 2 by auto
  qed
qed

lemma replace_file_any:
  assumes t: "target_ok w dir pre p" and run: "replace_file w dir pre p b = (w', e)"
  shows "case e of
      None \<Rightarrow> elsewhere (insert (comps p) (temps w pre p)) w w' \<and> (\<exists>m. lookup (comps p) (w_root w') = Some (File m b))
    | Some _ \<Rightarrow> elsewhere (temps w pre p) w w'"
proof (cases "os_CreateTemp w dir pre")
  case (Inl err)
  with run have "w' = w" "e = Some err" by (auto simp: replace_file_def)
  then show ?thesis by (simp add: elsewhere_refl)
next
  case (Inr wt)
  obtain w1 tmp where wt: "wt = (w1, tmp)" by (cases wt)
  obtain w2 err d where w2: "write_temp w1 tmp (Inr b) = (w2, err, d)" by (cases "write_temp w1 tmp (Inr b)")
  have fill: "elsewhere {comps tmp} w1 w2 \<and> (err = None \<longrightarrow> (\<exists>m. lookup (comps tmp) (w_root w2) = Some (File m b)))"
    if "lookup (comps tmp) (w_root w1) = Some (File m c)" "\<forall>c\<in>set (comps tmp). name_ok c" for m c
    using write_temp_file [OF that(1) w2 that(2)] by blast
  show ?thesis
    by (rule finish_temp_any [OF t Inr [unfolded wt] fill]) (use run Inr wt w2 in \<open>simp_all add: replace_file_def\<close>)
qed

text \<open>When nothing fails and nothing is in the way, the replacement happens and leaves no trace.\<close>

definition replaceable :: "world \<Rightarrow> string \<Rightarrow> string \<Rightarrow> bool" where
  "replaceable w pre p =
     (w_fault w = (\<lambda>_ _. None) \<and> parent_ok (comps p) (w_root w)
      \<and> (case stat_at (comps p) (w_root w) of None \<Rightarrow> True | Some (SFile m c) \<Rightarrow> True | _ \<Rightarrow> False)
      \<and> (\<exists>r\<in>set (w_rand w). stat_at (butlast (comps p) @ [pre @ r]) (w_root w) = None))"

lemma stat_file_only:
  "stat_at es (File m b) = (if es = [] then Some (SFile m b) else None)"
  by (cases es) (simp_all add: stat_at_def)

lemma file_below:
  assumes "case stat_at cs n of None \<Rightarrow> True | Some (SFile m c) \<Rightarrow> True | _ \<Rightarrow> False" "es \<noteq> []"
  shows "stat_at (cs @ es) n = None"
proof (cases "lookup cs n")
  case (Some k)
  then have "\<not> is_dir k" using assms(1) by (cases k) (auto simp: stat_at_def)
  then show ?thesis using Some lookup_not_dir [OF _ assms(2)] by (simp add: stat_at_def lookup_append)
qed (simp add: stat_at_def lookup_append)

lemma replace_file_ok:
  assumes t: "target_ok w dir pre p" and ok: "replaceable w pre p"
  shows "\<exists>w' m. replace_file w dir pre p b = (w', None) \<and> w_fault w' = w_fault w \<and> w_rand w' = w_rand w
    \<and> w_umask w' = w_umask w \<and> (node_wf (w_root w) \<longrightarrow> node_wf (w_root w'))
    \<and> (\<forall>ds. stat_at ds (w_root w') = (if ds = comps p then Some (SFile m b) else stat_at ds (w_root w)))"
proof -
  let ?P = "butlast (comps p)" and ?x = "last (comps p)"
  have nf: "w_fault w = (\<lambda>_ _. None)" and par: "parent_ok (comps p) (w_root w)"
    and leaf: "case stat_at (comps p) (w_root w) of None \<Rightarrow> True | Some (SFile m c) \<Rightarrow> True | _ \<Rightarrow> False"
    using ok by (simp_all add: replaceable_def)
  obtain r0 where r0: "r0 \<in> set (w_rand w)" "stat_at (?P @ [pre @ r0]) (w_root w) = None"
    using ok by (auto simp: replaceable_def)
  have d: "dir \<noteq> []" "comps dir = ?P" "comps p \<noteq> []" "\<forall>c\<in>set (comps p). name_ok c"
    and rand: "\<And>r. r \<in> set (w_rand w) \<Longrightarrow> name_ok (pre @ r) \<and> pre @ r \<noteq> ?x"
    using t by (auto simp: target_ok_def)
  have px: "comps p = ?P @ [?x]" using d(3) by simp
  have tc: "comps (path_join [dir, pre @ r]) = ?P @ [pre @ r]" if "r \<in> set (w_rand w)" for r
    using temp_comps [OF d(1)] rand [OF that] d(2) by simp
  have sib: "parent_ok (?P @ [y]) (w_root w)" for y using par px by (metis butlast_snoc parent_ok_def snoc_eq_iff_butlast)
  have "lookup (comps (path_join [dir, pre @ r0])) (w_root w) = None" using r0 tc by (simp add: stat_at_def)
  then obtain tmp where pick: "pick_temp (w_root w) dir pre (w_rand w) = Some tmp"
    using pick_temp_exists [OF r0(1)] by metis
  then obtain r where r: "r \<in> set (w_rand w)" "tmp = path_join [dir, pre @ r]" "lookup (comps tmp) (w_root w) = None"
    using pick_temp_Some by blast
  let ?T = "?P @ [pre @ r]" and ?m = "masked w 0x180"
  have T: "comps tmp = ?T" using tc r by simp
  have ne: "?T \<noteq> comps p" using px rand [OF r(1)] by (metis last_snoc)
  have len: "length ?T = length (comps p)" using d(3) by simp
  define n1 where "n1 = change ?T (\<lambda>_. Some (File ?m [])) (w_root w)"
  define n2 where "n2 = change ?T (\<lambda>_. Some (File ?m b)) n1"
  define n3 where "n3 = change ?T (\<lambda>_. None) n2"
  define n4 where "n4 = change (comps p) (\<lambda>_. Some (File ?m b)) n3"
  have sibs: "parent_ok (?P @ [y]) (change ?T f n)" if "parent_ok ?T n" for f n y
    using lookup_change_above [OF that, of ?P "[pre @ r]" f] by (auto simp: parent_ok_def)
  have par1: "parent_ok (?P @ [y]) n1" for y unfolding n1_def by (rule sibs [OF sib])
  have par2: "parent_ok (?P @ [y]) n2" for y unfolding n2_def by (rule sibs [OF par1])
  have par3: "parent_ok (?P @ [y]) n3" for y unfolding n3_def by (rule sibs [OF par2])
  have l1: "lookup ?T n1 = Some (File ?m [])" unfolding n1_def using lookup_change_same [OF sib] by simp
  have l2: "lookup ?T n2 = Some (File ?m b)" unfolding n2_def using lookup_change_same [OF par1] by simp
  have ct: "os_CreateTemp w dir pre = Inr (w\<lparr>w_root := n1\<rparr>, tmp)"
    using pick nf sib T by (simp add: os_CreateTemp_def place_ok n1_def)
  have wt: "write_temp (w\<lparr>w_root := n1\<rparr>) tmp (Inr b) = (w\<lparr>w_root := n2\<rparr>, None, True)"
    using l1 nf par1 T by (simp add: write_temp_def on_tree_def write_node_def place_ok n2_def)
  have st2: "stat_at ds n2 = (if take (length ?T) ds = ?T then stat_at (drop (length ?T) ds) (File ?m b) else stat_at ds (w_root w))" for ds
    unfolding n2_def n1_def using stat_change [OF par1 [unfolded n1_def]] stat_change [OF sib] by simp
  have st3: "stat_at ds n3 = stat_at ds (w_root w)" for ds
  proof -
    have "stat_at ?T (w_root w) = None" using r(3) T by (simp add: stat_at_def)
    then have "stat_at ds (w_root w) = None" if "take (length ?T) ds = ?T"
      using that stat_prefix [of ?T "drop (length ?T) ds" "w_root w"] append_take_drop_id [of "length ?T" ds] by metis
    then show ?thesis unfolding n3_def stat_change [OF par2] using st2 by simp
  qed
  have leaf2: "stat_at (comps p) n2 = stat_at (comps p) (w_root w)" using st2 [of "comps p"] len ne by simp
  have leaf': "case stat_at (comps p) n2 of None \<Rightarrow> True | Some (SFile m c) \<Rightarrow> True | _ \<Rightarrow> False"
    unfolding leaf2 by (rule leaf)
  have rn: "rename_node ?T (comps p) n2 = Inr n4"
  proof -
    have "find_node ?T n2 = Inr (File ?m b)" using l2 by (simp add: find_node_lookup)
    moreover have "and_then (place ?T (\<lambda>_. None) n2) (place (comps p) (\<lambda>_. Some (File ?m b))) = Inr n4"
      using place_ok [OF par2] place_ok [OF par3, of ?x] px by (simp add: n3_def n4_def)
    moreover have "lookup (comps p) n2 = None \<or> (\<exists>m c. lookup (comps p) n2 = Some (File m c))"
      using leaf' unfolding stat_at_def by (cases "lookup (comps p) n2"; cases "the (lookup (comps p) n2)") auto
    ultimately show ?thesis using ne len d(3) by (auto simp: rename_node_def)
  qed
  have gone: "lookup (comps tmp) n4 = None"
    using stat_change [OF par3 [of ?x, folded px], of ?T "\<lambda>_. Some (File ?m b)"] st3 [of ?T] r(3) T ne len
    by (auto simp: stat_at_def n4_def)
  have run: "replace_file w dir pre p b = (w\<lparr>w_root := n4\<rparr>, None)"
    using ct wt rn T nf remove_temp_gone [of tmp "w\<lparr>w_root := n4\<rparr>"] gone
    by (simp add: replace_file_def os_Rename_def on_tree_def)
  have st4: "stat_at ds n4 = (if ds = comps p then Some (SFile ?m b) else stat_at ds (w_root w))" for ds
  proof (cases "take (length (comps p)) ds = comps p")
    case True
    then obtain es where es: "ds = comps p @ es" by (metis append_take_drop_id)
    show ?thesis
      using file_below [OF leaf, of es] stat_change [OF par3 [of ?x, folded px], of ds "\<lambda>_. Some (File ?m b)"]
      by (auto simp: es n4_def stat_file_only)
  next
    case False
    then show ?thesis using stat_change [OF par3 [of ?x, folded px], of ds "\<lambda>_. Some (File ?m b)"] st3 by (auto simp: n4_def)
  qed
  have "node_wf (w_root w) \<longrightarrow> node_wf n4"
    using replace_file_any [OF t run] by (simp add: elsewhere_def)
  with run st4 show ?thesis by (intro exI [of _ "w\<lparr>w_root := n4\<rparr>"] exI [of _ ?m]) simp
qed

end
