(* ===== verification/State_File.thy ===== *)
theory State_File
  imports Atomic_File Lock
begin

text \<open>
  The supervisor's persistent state, \<open>internal/runtime/state.go\<close>: the phases, the \<open>State\<close> struct, and
  \<open>StateFile\<close> with \<open>Load\<close> and \<open>Save\<close> on the file system model. A \<open>time.Time\<close> is its RFC 3339 text, as in
  \<open>Archive_Store\<close>; \<open>instant\<close> is the moment such a text denotes, in nanoseconds since Go's zero time.
\<close>

subsection \<open>Phases and states\<close>

definition Idle :: string where "Idle = ''IDLE''"
definition Resizing :: string where "Resizing = ''RESIZING''"
definition Loading :: string where "Loading = ''LOADING''"
definition Ready :: string where "Ready = ''READY''"
definition Draining :: string where "Draining = ''DRAINING''"
definition Saving :: string where "Saving = ''SAVING''"
definition Recovering :: string where "Recovering = ''RECOVERING''"
definition Failed :: string where "Failed = ''FAILED''"

lemmas phase_defs = Idle_def Resizing_def Loading_def Ready_def Draining_def Saving_def Recovering_def Failed_def

lemma phase_distinct:
  "distinct [Idle, Resizing, Loading, Ready, Draining, Saving, Recovering, Failed]"
  "distinct [Failed, Recovering, Saving, Draining, Ready, Loading, Resizing, Idle]"
  by (simp_all add: phase_defs)

lemmas phase_neq [simp] = phase_distinct [simplified distinct.simps list.set insert_iff empty_iff de_Morgan_disj simp_thms]

lemma phase_nonempty [simp]:
  "Idle \<noteq> []" "Resizing \<noteq> []" "Loading \<noteq> []" "Ready \<noteq> []" "Draining \<noteq> []" "Saving \<noteq> []" "Recovering \<noteq> []" "Failed \<noteq> []"
  by (simp_all add: phase_defs)

record state =
  Phase :: string
  ActiveID :: string
  st_PackLockDigest :: string
  st_Generation :: uint64
  EmptySince :: "string option"
  BackupPending :: bool
  LastError :: string
  UpdatedAt :: string

text \<open>The zero \<open>State\<close>, and \<open>State{Phase: Idle}\<close>.\<close>

definition zero_state :: state where
  "zero_state = \<lparr>Phase = [], ActiveID = [], st_PackLockDigest = [], st_Generation = 0, EmptySince = None,
     BackupPending = False, LastError = [], UpdatedAt = ''0001-01-01T00:00:00Z''\<rparr>"

definition idle_state :: state where
  "idle_state = zero_state\<lparr>Phase := Idle\<rparr>"

subsection \<open>Moments\<close>

text \<open>Days since 1 January of year 1, in the proleptic Gregorian calendar.\<close>

definition day_number :: "nat \<Rightarrow> nat \<Rightarrow> nat \<Rightarrow> int" where
  "day_number y m d =
     (let p = int y - 1 in 365 * p + p div 4 - p div 100 + p div 400) + int (\<Sum>k\<leftarrow>[1..<m]. days_in y k) + int d - 1"

definition number :: "string \<Rightarrow> nat" where
  "number s = (case parse_digits 0 s of Some n \<Rightarrow> n | None \<Rightarrow> 0)"

definition zone_seconds :: "string \<Rightarrow> int" where
  "zone_seconds z =
     (if z = ''Z'' then 0
      else (if hd z = CHR ''-'' then -1 else 1) * (3600 * int (number (take 2 (drop 1 z))) + 60 * int (number (drop 4 z))))"

definition instant :: "string \<Rightarrow> int" where
  "instant s =
     (let rest = drop 19 s;
          frac = (if rest \<noteq> [] \<and> hd rest = CHR ''.'' then takeWhile is_digit (tl rest) else []);
          zone = (if rest \<noteq> [] \<and> hd rest = CHR ''.'' then dropWhile is_digit (tl rest) else rest);
          secs = 86400 * day_number (number (take 4 s)) (number (take 2 (drop 5 s))) (number (take 2 (drop 8 s)))
            + 3600 * int (number (take 2 (drop 11 s))) + 60 * int (number (take 2 (drop 14 s)))
            + int (number (take 2 (drop 17 s))) - zone_seconds zone
      in 10 ^ 9 * secs + int (number (take 9 (frac @ replicate 9 (CHR ''0'')))))"

subsection \<open>The file\<close>

definition set_time_ptr :: "(string option \<Rightarrow> 'a \<Rightarrow> 'a) \<Rightarrow> 'a setter" where
  "set_time_ptr upd j x =
     (case j of
        JStr s \<Rightarrow> if rfc3339 s then Inr (upd (Some s) x) else Inl type_error
      | JNull \<Rightarrow> Inr (upd None x)
      | _ \<Rightarrow> Inl type_error)"

definition state_fields :: "(string \<times> state setter) list" where
  "state_fields =
     [(''phase'', set_string (\<lambda>s st. st\<lparr>Phase := s\<rparr>)),
      (''activeId'', set_string (\<lambda>s st. st\<lparr>ActiveID := s\<rparr>)),
      (''packLockDigest'', set_string (\<lambda>s st. st\<lparr>st_PackLockDigest := s\<rparr>)),
      (''generation'', set_uint64 (\<lambda>g st. st\<lparr>st_Generation := g\<rparr>)),
      (''emptySince'', set_time_ptr (\<lambda>t st. st\<lparr>EmptySince := t\<rparr>)),
      (''backupPending'', set_bool (\<lambda>b st. st\<lparr>BackupPending := b\<rparr>)),
      (''lastError'', set_string (\<lambda>s st. st\<lparr>LastError := s\<rparr>)),
      (''updatedAt'', set_time (\<lambda>s st. st\<lparr>UpdatedAt := s\<rparr>))]"

definition state_json :: "state \<Rightarrow> json" where
  "state_json st =
     JObj ([(''phase'', JStr (Phase st))] @ omit_string ''activeId'' (ActiveID st)
       @ omit_string ''packLockDigest'' (st_PackLockDigest st)
       @ [(''generation'', JNum (uint (st_Generation st)))]
       @ (case EmptySince st of None \<Rightarrow> [] | Some t \<Rightarrow> [(''emptySince'', JStr t)])
       @ [(''backupPending'', JBool (BackupPending st))] @ omit_string ''lastError'' (LastError st)
       @ [(''updatedAt'', JStr (UpdatedAt st))])"

definition decode_state :: "byte list \<Rightarrow> state \<times> go_error option" where
  "decode_state b =
     (case unmarshal (string_of b) of
        None \<Rightarrow> (zero_state, Some json_syntax_error)
      | Some j \<Rightarrow>
          (case decode_struct state_fields j zero_state of
             Inl e \<Rightarrow> (zero_state, Some e)
           | Inr st \<Rightarrow> (if Phase st = [] then st\<lparr>Phase := Idle\<rparr> else st, None)))"

definition Load :: "string \<Rightarrow> world \<Rightarrow> state \<times> go_error option" where
  "Load path w =
     (case os_ReadFile w path of
        Inl e \<Rightarrow> if is_not_exist e then (idle_state, None) else (zero_state, Some e)
      | Inr b \<Rightarrow> decode_state b)"

definition state_bytes :: "string \<Rightarrow> state \<Rightarrow> byte list" where
  "state_bytes now st = bytes_of (MarshalIndent (state_json (st\<lparr>UpdatedAt := now\<rparr>)))"

text \<open>\<open>os.Open\<close> of the directory and \<open>Sync\<close> on it, after the rename.\<close>

definition sync_dir :: "world \<Rightarrow> string \<Rightarrow> go_error option" where
  "sync_dir w dir =
     (case w_fault w ''open'' dir of
        Some e \<Rightarrow> Some e
      | None \<Rightarrow> (case find_node (comps dir) (w_root w) of Inl e \<Rightarrow> Some e | Inr _ \<Rightarrow> w_fault w ''sync'' dir))"

definition Save :: "string \<Rightarrow> string \<Rightarrow> world \<Rightarrow> state \<Rightarrow> world \<times> go_error option" where
  "Save path now w st =
     (case os_MkdirAll w (path_dir path) 0x1E8 of
        Inl e \<Rightarrow> (w, Some e)
      | Inr w1 \<Rightarrow>
          (case replace_file w1 (path_dir path) ''.active-'' path (state_bytes now st) of
             (w2, Some e) \<Rightarrow> (w2, Some e)
           | (w2, None) \<Rightarrow> (w2, sync_dir w2 (path_dir path))))"

subsection \<open>What a saved state loads as\<close>

text \<open>
  Strings that are not valid UTF-8 come back with replacement characters; an empty phase comes back as
  \<open>Idle\<close>; and the time of the save is in \<open>UpdatedAt\<close>.
\<close>

definition durable :: "string \<Rightarrow> state \<Rightarrow> state" where
  "durable now st =
     st\<lparr>Phase := (if sanitize (Phase st) = [] then Idle else sanitize (Phase st)), ActiveID := sanitize (ActiveID st),
        st_PackLockDigest := sanitize (st_PackLockDigest st), LastError := sanitize (LastError st), UpdatedAt := now\<rparr>"

definition times_ok :: "string \<Rightarrow> state \<Rightarrow> bool" where
  "times_ok now st = (is_ascii now \<and> rfc3339 now \<and> (case EmptySince st of None \<Rightarrow> True | Some t \<Rightarrow> is_ascii t \<and> rfc3339 t))"

lemma sanitize_ascii: "is_ascii s \<Longrightarrow> sanitize s = s"
  by (simp add: sanitize_valid is_ascii_valid_utf8)

lemma decode_state_bytes:
  assumes "times_ok now st"
  shows "decode_state (state_bytes now st) = (durable now st, None)"
proof -
  let ?st = "st\<lparr>UpdatedAt := now\<rparr>"
  have "no_frac (state_json ?st)"
    by (simp add: state_json_def omit_string_def split: option.split)
  from unmarshal_text [OF json_text_read_back_indent [OF this, of 0], of "[]"]
  have un: "unmarshal (string_of (state_bytes now st)) = Some (read_back (state_json ?st))"
    by (simp add: state_bytes_def MarshalIndent_def)
  have keys: "sanitize ''phase'' = ''phase''" "sanitize ''activeId'' = ''activeId''" "sanitize ''packLockDigest'' = ''packLockDigest''"
    "sanitize ''generation'' = ''generation''" "sanitize ''emptySince'' = ''emptySince''" "sanitize ''backupPending'' = ''backupPending''"
    "sanitize ''lastError'' = ''lastError''" "sanitize ''updatedAt'' = ''updatedAt''"
    by (simp_all add: sanitize_ascii is_ascii_def code_of_def)
  have t: "sanitize now = now" "rfc3339 now" "\<And>t. EmptySince st = Some t \<Longrightarrow> sanitize t = t \<and> rfc3339 t"
    using assms by (auto simp: times_ok_def sanitize_ascii)
  have g: "uint (st_Generation st) < 2 ^ 64" using unsigned_less [of "st_Generation st", where ?'a = int] by simp
  have "decode_struct state_fields (read_back (state_json ?st)) zero_state =
      Inr (st\<lparr>Phase := sanitize (Phase st), ActiveID := sanitize (ActiveID st),
        st_PackLockDigest := sanitize (st_PackLockDigest st), LastError := sanitize (LastError st), UpdatedAt := now\<rparr>)"
    using t g
    by (cases "EmptySince st")
      (simp_all add: decode_struct_def state_json_def state_fields_def omit_string_def keys set_members_step
        set_string_def set_uint64_def set_bool_def set_time_def set_time_ptr_def zero_state_def
        del: set_members.simps(2) sanitize.simps(2))
  then show ?thesis using un by (simp add: decode_state_def durable_def)
qed

subsection \<open>Saving\<close>

text \<open>The random parts of temporary names are decimal numbers, and the state file does not look like one.\<close>

definition state_path_ok :: "string \<Rightarrow> world \<Rightarrow> bool" where
  "state_path_ok path w =
     (clean_path path \<and> (\<forall>r\<in>set (w_rand w). r \<noteq> [] \<and> all_digits r \<and> ''.active-'' @ r \<noteq> last (comps path)))"

text \<open>The places \<open>Save\<close> writes to.\<close>

definition state_area :: "string \<Rightarrow> world \<Rightarrow> string list set" where
  "state_area path w = insert (comps path) (temps w ''.active-'' path)"

lemma temp_name_ok: "set pre \<inter> {slash} = {} \<Longrightarrow> 3 \<le> length pre \<Longrightarrow> all_digits r \<Longrightarrow> name_ok (pre @ r)"
  using digits_no_slash [of r] by (cases pre; cases "tl pre"; cases "tl (tl pre)") (auto simp: name_ok_def)

lemma state_target:
  assumes "state_path_ok path w" "w_rand w' = w_rand w"
  shows "target_ok w' (path_dir path) ''.active-'' path"
proof -
  have cl: "clean_path path" using assms(1) by (simp add: state_path_ok_def)
  then have "comps (path_dir path) = butlast (comps path)" by (rule dir_of_clean)
  moreover have "name_ok (''.active-'' @ r)" if "r \<in> set (w_rand w)" for r
    by (rule temp_name_ok) (use assms(1) that in \<open>auto simp: state_path_ok_def\<close>)
  ultimately show ?thesis
    using assms cl by (auto simp: target_ok_def clean_path_def state_path_ok_def)
qed

lemma MkdirAll_Inr:
  assumes "os_MkdirAll w p m = Inr w'"
  shows "mkdirs (masked w m) (comps p) (w_root w) = Inr (w_root w')" "w' = w\<lparr>w_root := w_root w'\<rparr>"
  using assms by (auto simp: os_MkdirAll_def on_tree_def and_then_eq_Inr split: option.splits)

text \<open>The directory is made first, then the file in it is replaced: what is kept on the way.\<close>

lemma mkdir_replace:
  assumes cl: "clean_path path" and pre: "\<forall>r\<in>set (w_rand w). pre @ r \<noteq> last (comps path)"
    and mkdir: "os_MkdirAll w (path_dir path) md = Inr w1"
    and r: "case e of
        None \<Rightarrow> elsewhere (insert (comps path) (temps w1 pre path)) w1 w' \<and> (\<exists>m. lookup (comps path) (w_root w') = Some (File m b))
      | Some _ \<Rightarrow> elsewhere (temps w1 pre path) w1 w'"
  shows "w_fault w' = w_fault w \<and> w_rand w' = w_rand w \<and> w_umask w' = w_umask w
    \<and> (node_wf (w_root w) \<longrightarrow> node_wf (w_root w'))
    \<and> (\<forall>ds s. stat_at ds (w_root w) = Some s \<longrightarrow> (\<forall>T\<in>insert (comps path) (temps w pre path). take (length T) ds \<noteq> T) \<longrightarrow> stat_at ds (w_root w') = Some s)
    \<and> (if e = None then \<exists>m. lookup (comps path) (w_root w') = Some (File m b)
       else stat_at (comps path) (w_root w') = stat_at (comps path) (w_root w))"
proof -
  note dir = dir_of_clean [OF cl]
  note mk = MkdirAll_Inr [OF mkdir]
  have w1: "w_fault w1 = w_fault w" "w_rand w1 = w_rand w" "w_umask w1 = w_umask w"
    by (subst mk(2), simp)+
  have names: "\<forall>c\<in>set (butlast (comps path)). name_ok c" using cl by (auto simp: clean_path_def dest: in_set_butlastD)
  have wf1: "node_wf (w_root w) \<longrightarrow> node_wf (w_root w1)" using mkdirs_wf [OF mk(1)] names dir by simp
  have st1: "stat_at ds (w_root w1) = (if take (length ds) (butlast (comps path)) = ds \<and> stat_at ds (w_root w) = None
      then Some (SDir (masked w md)) else stat_at ds (w_root w))" for ds
    using mkdirs_stat [OF mk(1), of ds] dir by simp
  have leaf1: "stat_at (comps path) (w_root w1) = stat_at (comps path) (w_root w)"
  proof -
    have "take (length (comps path)) (butlast (comps path)) \<noteq> comps path"
      using cl by (intro short_not_prefix) (simp add: clean_path_def)
    then show ?thesis using st1 [of "comps path"] by simp
  qed
  have tp: "temps w1 pre path = temps w pre path" by (simp add: temps_def w1(2))
  have el: "elsewhere (insert (comps path) (temps w pre path)) w1 w'"
    using r tp elsewhere_mono [OF _ subset_insertI, of "temps w pre path" w1 w'] by (cases e) auto
  have old: "stat_at (comps path) (w_root w') = stat_at (comps path) (w_root w1)" if "e \<noteq> None"
  proof -
    have "elsewhere (temps w pre path) w1 w'" using r that tp by (cases e) auto
    moreover have "take (length T) (comps path) \<noteq> T" if T: "T \<in> temps w pre path" for T
    proof -
      obtain rr where "rr \<in> set (w_rand w)" "T = butlast (comps path) @ [pre @ rr]" using T by (auto simp: temps_def)
      moreover from this have "pre @ rr \<noteq> last (comps path)" "comps path \<noteq> []"
        using pre cl by (auto simp: clean_path_def)
      ultimately show ?thesis by (metis append_butlast_last_id last_snoc length_append_singleton length_butlast Suc_pred length_greater_0_conv take_all_iff order_refl)
    qed
    ultimately show ?thesis using elsewhere_stat by blast
  qed
  have new: "\<exists>m. lookup (comps path) (w_root w') = Some (File m b)" if "e = None"
    using r that by simp
  show ?thesis
  proof (intro conjI)
    show "w_fault w' = w_fault w" "w_rand w' = w_rand w" "w_umask w' = w_umask w"
      "node_wf (w_root w) \<longrightarrow> node_wf (w_root w')"
      using el w1 wf1 by (auto simp: elsewhere_def)
    show "\<forall>ds s. stat_at ds (w_root w) = Some s \<longrightarrow> (\<forall>T\<in>insert (comps path) (temps w pre path). take (length T) ds \<noteq> T) \<longrightarrow> stat_at ds (w_root w') = Some s"
    proof (intro allI impI)
      fix ds s assume s: "stat_at ds (w_root w) = Some s" and a: "\<forall>T\<in>insert (comps path) (temps w pre path). take (length T) ds \<noteq> T"
      have "stat_at ds (w_root w') = stat_at ds (w_root w1)" using elsewhere_stat [OF el] a by blast
      then show "stat_at ds (w_root w') = Some s" using st1 [of ds] s by simp
    qed
    show "if e = None then \<exists>m. lookup (comps path) (w_root w') = Some (File m b)
        else stat_at (comps path) (w_root w') = stat_at (comps path) (w_root w)"
      using old new leaf1 by simp
  qed
qed

text \<open>
  Whatever fails: what existed anywhere else is untouched, and the file holds either its old content or
  exactly the new state, the new one whenever \<open>Save\<close> reports success.
\<close>

lemma Save_any:
  assumes ok: "state_path_ok path w" and run: "Save path now w st = (w', e)"
  shows "w_fault w' = w_fault w" "w_rand w' = w_rand w" "w_umask w' = w_umask w"
    "node_wf (w_root w) \<Longrightarrow> node_wf (w_root w')"
    "\<And>ds s. stat_at ds (w_root w) = Some s \<Longrightarrow> (\<forall>T\<in>state_area path w. take (length T) ds \<noteq> T) \<Longrightarrow> stat_at ds (w_root w') = Some s"
    "(\<exists>m. lookup (comps path) (w_root w') = Some (File m (state_bytes now st)))
       \<or> e \<noteq> None \<and> stat_at (comps path) (w_root w') = stat_at (comps path) (w_root w)"
proof -
  have cl: "clean_path path" using ok by (simp add: state_path_ok_def)
  have "w' = w \<and> e \<noteq> None \<or> (\<exists>w1 e1. os_MkdirAll w (path_dir path) 0x1E8 = Inr w1
      \<and> replace_file w1 (path_dir path) ''.active-'' path (state_bytes now st) = (w', e1) \<and> (e1 \<noteq> None \<longrightarrow> e \<noteq> None))"
    using run by (auto simp: Save_def split: sum.splits prod.splits option.splits)
  then consider "w' = w" "e \<noteq> None"
    | w1 e1 where "os_MkdirAll w (path_dir path) 0x1E8 = Inr w1"
      "replace_file w1 (path_dir path) ''.active-'' path (state_bytes now st) = (w', e1)" "e1 \<noteq> None \<longrightarrow> e \<noteq> None"
    by blast
  then have "w_fault w' = w_fault w \<and> w_rand w' = w_rand w \<and> w_umask w' = w_umask w
    \<and> (node_wf (w_root w) \<longrightarrow> node_wf (w_root w'))
    \<and> (\<forall>ds s. stat_at ds (w_root w) = Some s \<longrightarrow> (\<forall>T\<in>state_area path w. take (length T) ds \<noteq> T) \<longrightarrow> stat_at ds (w_root w') = Some s)
    \<and> ((\<exists>m. lookup (comps path) (w_root w') = Some (File m (state_bytes now st)))
       \<or> e \<noteq> None \<and> stat_at (comps path) (w_root w') = stat_at (comps path) (w_root w))"
  proof cases
    case 2
    have pre: "\<forall>r\<in>set (w_rand w). ''.active-'' @ r \<noteq> last (comps path)" using ok by (simp add: state_path_ok_def)
    have "w_rand w1 = w_rand w" by (subst MkdirAll_Inr(2) [OF 2(1)]) simp
    note r = replace_file_any [OF state_target [OF ok this] 2(2)]
    show ?thesis using mkdir_replace [OF cl pre 2(1) r] 2(3) unfolding state_area_def by (auto split: if_splits)
  qed auto
  then show "w_fault w' = w_fault w" "w_rand w' = w_rand w" "w_umask w' = w_umask w"
    "node_wf (w_root w) \<Longrightarrow> node_wf (w_root w')"
    "\<And>ds s. stat_at ds (w_root w) = Some s \<Longrightarrow> (\<forall>T\<in>state_area path w. take (length T) ds \<noteq> T) \<Longrightarrow> stat_at ds (w_root w') = Some s"
    "(\<exists>m. lookup (comps path) (w_root w') = Some (File m (state_bytes now st)))
       \<or> e \<noteq> None \<and> stat_at (comps path) (w_root w') = stat_at (comps path) (w_root w)"
    by blast+
qed

text \<open>Nothing fails, no file is in the way of the directories, and a temporary name is free.\<close>

definition can_save :: "string \<Rightarrow> world \<Rightarrow> bool" where
  "can_save path w =
     (state_path_ok path w \<and> w_fault w = (\<lambda>_ _. None) \<and> no_file_on (butlast (comps path)) (w_root w)
      \<and> (case stat_at (comps path) (w_root w) of None \<Rightarrow> True | Some (SFile m c) \<Rightarrow> True | _ \<Rightarrow> False)
      \<and> (\<exists>r\<in>set (w_rand w). stat_at (butlast (comps path) @ [''.active-'' @ r]) (w_root w) = None))"

lemma Save_ok:
  assumes can: "can_save path w"
  shows "\<exists>w' m. Save path now w st = (w', None) \<and> w_fault w' = w_fault w \<and> w_rand w' = w_rand w \<and> w_umask w' = w_umask w
    \<and> (\<forall>ds. stat_at ds (w_root w') =
        (if ds = comps path then Some (SFile m (state_bytes now st))
         else if take (length ds) (butlast (comps path)) = ds \<and> stat_at ds (w_root w) = None
           then Some (SDir (masked w 0x1E8)) else stat_at ds (w_root w)))"
proof -
  let ?P = "butlast (comps path)"
  have ok: "state_path_ok path w" and nf: "w_fault w = (\<lambda>_ _. None)" and room: "no_file_on ?P (w_root w)"
    and leaf: "case stat_at (comps path) (w_root w) of None \<Rightarrow> True | Some (SFile m c) \<Rightarrow> True | _ \<Rightarrow> False"
    using can by (simp_all add: can_save_def)
  obtain r where r: "r \<in> set (w_rand w)" "stat_at (?P @ [''.active-'' @ r]) (w_root w) = None"
    using can by (auto simp: can_save_def)
  have cl: "clean_path path" using ok by (simp add: state_path_ok_def)
  note dir = dir_of_clean [OF cl]
  have pne: "comps path = ?P @ [last (comps path)]" using cl by (simp add: clean_path_def)
  obtain n1 where n1: "mkdirs (masked w 0x1E8) ?P (w_root w) = Inr n1" using mkdirs_succeeds [OF room] by blast
  define w1 where "w1 = w\<lparr>w_root := n1\<rparr>"
  have mk: "os_MkdirAll w (path_dir path) 0x1E8 = Inr w1"
    using n1 dir nf by (simp add: os_MkdirAll_def on_tree_def w1_def)
  have st1: "stat_at ds n1 = (if take (length ds) ?P = ds \<and> stat_at ds (w_root w) = None then Some (SDir (masked w 0x1E8))
      else stat_at ds (w_root w))" for ds using mkdirs_stat [OF n1] by simp
  have leaf1: "stat_at (?P @ [y]) n1 = stat_at (?P @ [y]) (w_root w)" for y using st1 [of "?P @ [y]"] by auto
  obtain m' es' where d1: "lookup ?P n1 = Some (Dir m' es')" using mkdirs_dir [OF n1] by blast
  have "replaceable w1 ''.active-'' path"
    unfolding replaceable_def
  proof (intro conjI bexI)
    show "w_fault w1 = (\<lambda>_ _. None)" by (simp add: w1_def nf)
    show "parent_ok (comps path) (w_root w1)" using d1 cl by (simp add: w1_def parent_ok_def clean_path_def)
    show "case stat_at (comps path) (w_root w1) of None \<Rightarrow> True | Some (SFile m c) \<Rightarrow> True | _ \<Rightarrow> False"
      using leaf leaf1 [of "last (comps path)"] pne by (simp add: w1_def)
    show "stat_at (?P @ [''.active-'' @ r]) (w_root w1) = None" using r(2) leaf1 [of "''.active-'' @ r"] by (simp add: w1_def)
    show "r \<in> set (w_rand w1)" using r(1) by (simp add: w1_def)
  qed
  have "w_rand w1 = w_rand w" by (simp add: w1_def)
  from replace_file_ok [OF state_target [OF ok this] \<open>replaceable w1 ''.active-'' path\<close>, of "state_bytes now st"] obtain w' m where
    w': "replace_file w1 (path_dir path) ''.active-'' path (state_bytes now st) = (w', None)"
    "w_fault w' = w_fault w1" "w_rand w' = w_rand w1" "w_umask w' = w_umask w1"
    "\<And>ds. stat_at ds (w_root w') = (if ds = comps path then Some (SFile m (state_bytes now st)) else stat_at ds (w_root w1))"
    by blast
  have "?P \<noteq> comps path" using pne by (metis append_self_conv list.distinct(1))
  then have "stat_at ?P (w_root w') = Some (SDir m')" using w'(5) [of ?P] d1 by (simp add: stat_at_def w1_def)
  then obtain k where "lookup ?P (w_root w') = Some k" by (auto simp: stat_at_def)
  then have "find_node (comps (path_dir path)) (w_root w') = Inr k" using dir by (simp add: find_node_lookup)
  then have "sync_dir w' (path_dir path) = None" using w'(2) nf by (simp add: sync_dir_def w1_def)
  then have "Save path now w st = (w', None)" using mk w'(1) by (simp add: Save_def)
  then show ?thesis using w'(2-5) st1 by (intro exI [of _ w'] exI [of _ m]) (simp add: w1_def)
qed

lemma can_save_again:
  assumes can: "can_save path w" and w': "w_fault w' = w_fault w" "w_rand w' = w_rand w"
    "\<And>k. k < length (comps path) \<Longrightarrow> stat_at (take k (comps path)) (w_root w') \<in> {None} \<union> Some ` range SDir"
    "case stat_at (comps path) (w_root w') of None \<Rightarrow> True | Some (SFile m c) \<Rightarrow> True | _ \<Rightarrow> False"
    "\<And>r. r \<in> set (w_rand w) \<Longrightarrow> stat_at (butlast (comps path) @ [''.active-'' @ r]) (w_root w) = None \<Longrightarrow>
       stat_at (butlast (comps path) @ [''.active-'' @ r]) (w_root w') = None"
  shows "can_save path w'"
proof -
  have "no_file_on (butlast (comps path)) (w_root w')"
    unfolding no_file_on_stat
  proof (intro allI impI)
    fix k s assume k: "k \<le> length (butlast (comps path))" and s: "stat_at (take k (butlast (comps path))) (w_root w') = Some s"
    have "take k (butlast (comps path)) = take k (comps path)" using k by (cases "comps path" rule: rev_cases) auto
    moreover have "k < length (comps path)" using k can by (auto simp: can_save_def state_path_ok_def clean_path_def less_Suc_eq_le [symmetric])
    ultimately show "\<exists>m. s = SDir m" using w'(3) [of k] s by auto
  qed
  then show ?thesis using can w' by (auto simp: can_save_def state_path_ok_def)
qed

lemma ReadFile_stat:
  assumes "w_fault w = (\<lambda>_ _. None)" "stat_at (comps path) (w_root w) = Some (SFile m b)"
  shows "os_ReadFile w path = Inr b"
proof -
  obtain k where k: "lookup (comps path) (w_root w) = Some k" "shape_of k = SFile m b" using assms(2) by (auto simp: stat_at_def)
  then have "k = File m b" by (cases k) auto
  with k(1) have "find_node (comps path) (w_root w) = Inr (File m b)" by (simp add: find_node_lookup)
  then show ?thesis using assms(1) by (simp add: os_ReadFile_def)
qed

lemma Save_Load:
  assumes can: "can_save path w" and t: "times_ok now st" and run: "Save path now w st = (w', e)"
  shows "e = None" "Load path w' = (durable now st, None)" "can_save path w'"
    "w_fault w' = w_fault w" "w_rand w' = w_rand w"
    "\<And>ds. stat_at ds (w_root w) \<noteq> None \<Longrightarrow> ds \<noteq> comps path \<Longrightarrow> stat_at ds (w_root w') = stat_at ds (w_root w)"
proof -
  obtain m where m: "e = None" "w_fault w' = w_fault w" "w_rand w' = w_rand w"
    "\<And>ds. stat_at ds (w_root w') = (if ds = comps path then Some (SFile m (state_bytes now st))
         else if take (length ds) (butlast (comps path)) = ds \<and> stat_at ds (w_root w) = None
           then Some (SDir (masked w 0x1E8)) else stat_at ds (w_root w))"
    using Save_ok [OF can, of now st] run by auto
  have nf: "w_fault w' = (\<lambda>_ _. None)" using can m(2) by (simp add: can_save_def)
  have "os_ReadFile w' path = Inr (state_bytes now st)" using ReadFile_stat [OF nf] m(4) [of "comps path"] by simp
  then show "Load path w' = (durable now st, None)" using decode_state_bytes [OF t] by (simp add: Load_def)
  have cl: "clean_path path" using can by (simp add: can_save_def state_path_ok_def)
  have dirs: "stat_at (take k (comps path)) (w_root w) \<in> {None} \<union> Some ` range SDir" if "k < length (comps path)" for k
  proof -
    have "take k (butlast (comps path)) = take k (comps path)" using that by (cases "comps path" rule: rev_cases) auto
    moreover have "k \<le> length (butlast (comps path))" using that by simp
    ultimately show ?thesis using can unfolding can_save_def no_file_on_stat by (cases "stat_at (take k (comps path)) (w_root w)") force+
  qed
  show "can_save path w'"
  proof (rule can_save_again [OF can m(2,3)])
    show "stat_at (take k (comps path)) (w_root w') \<in> {None} \<union> Some ` range SDir" if "k < length (comps path)" for k
    proof -
      have "take k (comps path) \<noteq> comps path" using that by simp
      then show ?thesis using m(4) [of "take k (comps path)"] dirs [OF that] by auto
    qed
    show "case stat_at (comps path) (w_root w') of None \<Rightarrow> True | Some (SFile m c) \<Rightarrow> True | _ \<Rightarrow> False"
      using m(4) [of "comps path"] by simp
    show "stat_at (butlast (comps path) @ [''.active-'' @ r]) (w_root w') = None"
      if "r \<in> set (w_rand w)" and none: "stat_at (butlast (comps path) @ [''.active-'' @ r]) (w_root w) = None" for r
    proof -
      have "''.active-'' @ r \<noteq> last (comps path)" using can that(1) by (auto simp: can_save_def state_path_ok_def)
      then have "butlast (comps path) @ [''.active-'' @ r] \<noteq> comps path" by (metis last_snoc)
      then show ?thesis using m(4) [of "butlast (comps path) @ [''.active-'' @ r]"] none by auto
    qed
  qed
  show "e = None" "w_fault w' = w_fault w" "w_rand w' = w_rand w" by (fact m)+
  show "\<And>ds. stat_at ds (w_root w) \<noteq> None \<Longrightarrow> ds \<noteq> comps path \<Longrightarrow> stat_at ds (w_root w') = stat_at ds (w_root w)"
    using m(4) by auto
qed



definition sample_path :: string where
  "sample_path = ''/state/runtime/active.json''"

lemma sample_path_comps: "comps sample_path = [''state'', ''runtime'', ''active.json'']"
  by (simp add: sample_path_def comps_def clean_step_def IsAbs_def HasPrefix_def)

lemma sample_path_clean: "clean_path sample_path"
  unfolding clean_path_def Clean_def sample_path_comps
  by (simp add: path_text_def IsAbs_def HasPrefix_def name_ok_def sample_path_def)

lemma sample_can_save: "can_save sample_path empty_disk"
proof -
  have ok: "state_path_ok sample_path empty_disk"
    using sample_path_clean unfolding state_path_ok_def
    by (simp add: sample_path_comps empty_disk_def all_digits_def code_of_def)
  have "no_file_on (butlast (comps sample_path)) (w_root empty_disk)"
    unfolding no_file_on_stat by (metis empty_disk_def option.inject option.distinct(1) select_convs(1) shape_of.simps(2) stat_at_Nil stat_empty world.select_convs(1))
  then show ?thesis using ok by (simp add: can_save_def stat_empty sample_path_comps) (simp add: empty_disk_def)
qed

definition sample_now :: string where
  "sample_now = ''2024-05-06T07:08:09.5Z''"

lemma sample_times: "times_ok sample_now idle_state"
proof -
  have "rfc3339 sample_now" "is_ascii sample_now" by code_simp+
  then show ?thesis by (simp add: times_ok_def idle_state_def zero_state_def)
qed



end
