(* ===== verification/Manager.thy ===== *)
theory Manager
  imports State_File Mcproto Rcon Ip_Limiter
begin

text \<open>
  The supervisor of \<open>internal/runtime/manager.go\<close>.

  A \<open>manager\<close> is what the Go struct holds, together with the machine's disk and the backup store. Every
  goroutine is a point of its function between two critical sections: a step runs from there to the next
  point, so that a step holds the mutex at most once, and all goroutines interleave. What the world
  answers during a step (the clock, connections to the Minecraft server, the resource sizer, exits of
  processes) is a record \<open>answers\<close>. The calls into the store and the launcher are one step each.

  The logger is left out; killing a process is not a change of the supervisor's state, its exit reaches
  the supervisor through \<open>waitProcess\<close>.
\<close>

record answers =
  a_now :: string
  a_sizer :: "bool result"
  a_dial :: "conn result"
  a_pid :: nat
  a_exit :: "go_error option"
  a_timeout :: bool

text \<open>
  What a manager is made with. \<open>e_launch\<close> is the \<open>Launcher\<close> interface: its effect on the disk, and the
  error of \<open>Start\<close>. \<open>e_sizer\<close> says whether a \<open>ResourceSizer\<close> is present.
\<close>

record 's env =
  e_cfg :: config
  e_lock :: lock_file
  e_store :: "'s backend"
  e_codec :: codec
  e_unicode :: unicode
  e_digest :: "(string \<Rightarrow> string) option"
  e_launch :: "world \<Rightarrow> string \<Rightarrow> pack \<Rightarrow> locked_pack \<Rightarrow> world \<times> go_error option"
  e_sizer :: bool
  e_root :: string
  e_rcon :: client

record 's manager =
  m_state :: state
  m_process :: "nat option"
  m_expectedStop :: bool
  m_lastActivity :: int
  m_loginSeen :: bool
  m_done :: bool
  m_cancelled :: bool
  m_disk :: world
  m_store :: 's

definition state_path :: "'s env \<Rightarrow> string" where
  "state_path env = path_join [e_root env, ''runtime'', ''active.json'']"

definition instance_root :: "'s env \<Rightarrow> string \<Rightarrow> string" where
  "instance_root env i = path_join [e_root env, ''instances'', i]"

definition server_dir :: "'s env \<Rightarrow> string \<Rightarrow> string" where
  "server_dir env i = path_join [instance_root env i, ''server'']"

text \<open>Reading a Go map: a missing key gives the zero value.\<close>

definition cfg_pack :: "'s env \<Rightarrow> string \<Rightarrow> pack" where
  "cfg_pack env i = (case pack_of (e_cfg env) i of Some p \<Rightarrow> p | None \<Rightarrow> zero_pack)"

definition locked :: "'s env \<Rightarrow> string \<Rightarrow> locked_pack" where
  "locked env i = (case map_of (lf_Packs (e_lock env)) i of Some l \<Rightarrow> l | None \<Rightarrow> zero_locked_pack)"

text \<open>Every change of the state is saved under the lock; the error of \<open>Save\<close> is dropped.\<close>

definition update_state :: "'s env \<Rightarrow> answers \<Rightarrow> (state \<Rightarrow> state) \<Rightarrow> 's manager \<Rightarrow> 's manager" where
  "update_state env a f m =
     (let st = f (m_state m) in
      m\<lparr>m_state := st, m_disk := fst (Save (state_path env) (a_now a) (m_disk m) st)\<rparr>)"

definition loading_state :: "'s env \<Rightarrow> string \<Rightarrow> state" where
  "loading_state env i = zero_state\<lparr>Phase := Loading, ActiveID := i, st_PackLockDigest := lp_IdentityDigest (locked env i)\<rparr>"

text \<open>\<open>time.Since\<close>.\<close>

definition since :: "answers \<Rightarrow> int \<Rightarrow> int" where
  "since a t = duration_sub (instant (a_now a)) t"

subsection \<open>Goroutines\<close>

datatype start_at =
    Entry
  | Sizing
  | Sized
  | Preparing
  | Prepared "manifest option" bool
  | Launching
  | Launched nat
  | Probing int
  | Probed

datatype caller = Switching string | Idling string | ShuttingDown

datatype stop_at =
    StopEntry
  | SaveAll string
  | ExpectStop string
  | SendStop string
  | StopRefused string go_error
  | Awaiting string int
  | CheckExit string
  | ReadGeneration string
  | Committing string uint64
  | Committed string "manifest result"
  | Evicting string manifest

datatype goroutine =
    Start string bool start_at
  | WaitProcess nat
  | Exited nat "go_error option"
  | Fail string go_error bool
  | SwitchTo string
  | Stop caller stop_at
  | Stopped caller "go_error option"
  | Monitor
  | Tick
  | TickProbe string
  | IdleDrain string

subsection \<open>Starting a pack\<close>

definition ensureInstanceIdentity :: "world \<Rightarrow> string \<Rightarrow> locked_pack \<Rightarrow> world \<times> go_error option" where
  "ensureInstanceIdentity w root l =
     (let path = path_join [root, ''pack.lock.json''] in
      case os_ReadFile w path of
        Inr b \<Rightarrow>
          (case unmarshal (string_of b) of
             None \<Rightarrow> (w, Some (Errorf ''instance pack identity differs from packs.lock.json''))
           | Some j \<Rightarrow>
               (case decode_struct [(''identityDigest'', set_string (\<lambda>s _. s))] j [] of
                  Inl _ \<Rightarrow> (w, Some (Errorf ''instance pack identity differs from packs.lock.json''))
                | Inr prior \<Rightarrow>
                    if prior \<noteq> lp_IdentityDigest l
                    then (w, Some (Errorf ''instance pack identity differs from packs.lock.json''))
                    else (w, None)))
      | Inl e \<Rightarrow>
          if \<not> is_not_exist e then (w, Some e)
          else (case os_MkdirAll w root 0x1E8 of
              Inl e \<Rightarrow> (w, Some e)
            | Inr w1 \<Rightarrow> replace_file w1 root ''.pack-lock-'' path (bytes_of (MarshalIndent (locked_pack_json l)))))"

text \<open>Lines 159 to 180 of \<open>start\<close>: restore a missing instance from its backup and check its identity.\<close>

definition prepare_instance ::
    "'s env \<Rightarrow> 's manager \<Rightarrow> string \<Rightarrow> world \<times> (manifest option \<times> bool) result" where
  "prepare_instance env m i =
     (let w = m_disk m; dir = server_dir env i;
          head = Head (e_store env) (m_store m) i;
          identity = (\<lambda>w1. case ensureInstanceIdentity w1 (instance_root env i) (locked env i) of
             (w2, Some e) \<Rightarrow> (w2, Inl e)
           | (w2, None) \<Rightarrow> (w2, Inr (case head of Inl _ \<Rightarrow> (None, True) | Inr h \<Rightarrow> (h, False))))
      in case os_Stat w dir of
           Inr _ \<Rightarrow> identity w
         | Inl e \<Rightarrow>
             if \<not> is_not_exist e then (w, Inl e)
             else (case head of
                 Inl he \<Rightarrow> (w, Inl (Wrap ''check backup before first start'' he))
               | Inr None \<Rightarrow> identity w
               | Inr (Some _) \<Rightarrow>
                   (case Restore (e_store env) (e_unicode env) (e_codec env) (m_store m) w i dir of
                      (w1, Inl e) \<Rightarrow> (w1, Inl (Wrap ''restore'' e))
                    | (w1, Inr _) \<Rightarrow> identity w1)))"

definition pack_host :: "'s env \<Rightarrow> string \<Rightarrow> string" where
  "pack_host env i = i @ ''.'' @ Domain (e_cfg env)"

fun start_step :: "'s env \<Rightarrow> answers \<Rightarrow> 's manager \<Rightarrow> string \<Rightarrow> bool \<Rightarrow> start_at \<Rightarrow> 's manager \<times> goroutine list" where
  "start_step env a m i rec Entry =
     (if pack_of (e_cfg env) i = None then (m, [Fail i (Errorf ''pack removed from config'') False])
      else if \<not> e_sizer env then (m, [Start i rec Preparing])
      else if ActiveID (m_state m) \<noteq> i then (m, [])
      else (update_state env a (\<lambda>st. st\<lparr>Phase := Resizing\<rparr>) m, [Start i rec Sizing]))"
| "start_step env a m i rec Sizing =
     (case a_sizer a of
        Inl e \<Rightarrow> (m, [Fail i (Wrap ''resize Fly Machine'' e) False])
      | Inr changed \<Rightarrow> (m, if changed then [] else [Start i rec Sized]))"
| "start_step env a m i rec Sized =
     (if ActiveID (m_state m) \<noteq> i then (m, [])
      else (update_state env a (\<lambda>st. st\<lparr>Phase := (if rec then Recovering else Loading)\<rparr>) m, [Start i rec Preparing]))"
| "start_step env a m i rec Preparing =
     (case prepare_instance env m i of
        (w, Inl e) \<Rightarrow> (m\<lparr>m_disk := w\<rparr>, [Fail i e False])
      | (w, Inr (head, headErr)) \<Rightarrow> (m\<lparr>m_disk := w\<rparr>, [Start i rec (Prepared head headErr)]))"
| "start_step env a m i rec (Prepared head headErr) =
     (update_state env a
        (\<lambda>st. let st1 = (case head of Some h \<Rightarrow> st\<lparr>st_Generation := Generation h\<rparr> | None \<Rightarrow> st)
              in if headErr then st1\<lparr>BackupPending := True\<rparr> else st1) m,
      [Start i rec Launching])"
| "start_step env a m i rec Launching =
     (case e_launch env (m_disk m) i (cfg_pack env i) (locked env i) of
        (w, Some e) \<Rightarrow> (m\<lparr>m_disk := w\<rparr>, [Fail i e False])
      | (w, None) \<Rightarrow> (m\<lparr>m_disk := w\<rparr>, [Start i rec (Launched (a_pid a))]))"
| "start_step env a m i rec (Launched p) =
     (if ActiveID (m_state m) \<noteq> i then (m, [])
      else (m\<lparr>m_process := Some p, m_expectedStop := False\<rparr>,
            [WaitProcess p, Start i rec (Probing (instant (a_now a) + StartupTimeout (Runtime (e_cfg env))))]))"
| "start_step env a m i rec (Probing deadline) =
     (if instant (a_now a) < deadline then
        (case QueryStatus (a_dial a) (pack_host env i) of
           Inr _ \<Rightarrow> (m, [Start i rec Probed])
         | Inl _ \<Rightarrow> (m, if m_cancelled m then [] else [Start i rec (Probing deadline)]))
      else (m, [Fail i (Errorf ''minecraft did not become ready'') False]))"
| "start_step env a m i rec Probed =
     (if ActiveID (m_state m) = i
      then (update_state env a (\<lambda>st. st\<lparr>Phase := Ready, LastError := []\<rparr>) m, [])
      else (m, []))"

definition fail :: "'s env \<Rightarrow> answers \<Rightarrow> 's manager \<Rightarrow> string \<Rightarrow> go_error \<Rightarrow> 's manager" where
  "fail env a m i e = update_state env a (\<lambda>st. st\<lparr>Phase := Failed, ActiveID := i, LastError := error_text e\<rparr>) m"

definition error_value :: "go_error option \<Rightarrow> string" where
  "error_value e = (case e of None \<Rightarrow> ''<nil>'' | Some e \<Rightarrow> error_text e)"

definition waitProcess_exit :: "'s env \<Rightarrow> answers \<Rightarrow> 's manager \<Rightarrow> nat \<Rightarrow> go_error option \<Rightarrow> 's manager" where
  "waitProcess_exit env a m p e =
     (if m_process m \<noteq> Some p then m
      else let m1 = m\<lparr>m_process := None\<rparr> in
        if m_expectedStop m1 then m1\<lparr>m_expectedStop := False\<rparr>
        else update_state env a (\<lambda>st. st\<lparr>Phase := Failed, LastError := ''minecraft exited: '' @ error_value e\<rparr>) m1)"

definition signalDone :: "'s manager \<Rightarrow> 's manager" where
  "signalDone m = m\<lparr>m_done := True\<rparr>"

subsection \<open>Stopping a pack\<close>

fun stop_step :: "'s env \<Rightarrow> answers \<Rightarrow> 's manager \<Rightarrow> caller \<Rightarrow> stop_at \<Rightarrow> 's manager \<times> goroutine list" where
  "stop_step env a m c StopEntry =
     (let i = ActiveID (m_state m) in
      (update_state env a (\<lambda>st. st\<lparr>Phase := Saving\<rparr>) m,
       [Stop c (case m_process m of Some p \<Rightarrow> SaveAll i | None \<Rightarrow> ReadGeneration i)]))"
| "stop_step env a m c (SaveAll i) =
     (case snd (Command (e_rcon env) (a_dial a) ''save-all flush'') of
        Inl e \<Rightarrow> (m, [Stopped c (Some (Wrap ''save-all'' e))])
      | Inr _ \<Rightarrow> (m, [Stop c (ExpectStop i)]))"
| "stop_step env a m c (ExpectStop i) = (m\<lparr>m_expectedStop := True\<rparr>, [Stop c (SendStop i)])"
| "stop_step env a m c (SendStop i) =
     (case snd (Command (e_rcon env) (a_dial a) ''stop'') of
        Inl e \<Rightarrow> (m, [Stop c (StopRefused i e)])
      | Inr _ \<Rightarrow> (m, [Stop c (Awaiting i (instant (a_now a) + ShutdownTimeout (Runtime (e_cfg env))))]))"
| "stop_step env a m c (StopRefused i e) = (m\<lparr>m_expectedStop := False\<rparr>, [Stopped c (Some (Wrap ''stop'' e))])"
| "stop_step env a m c (Awaiting i deadline) =
     (m, [Stop c (if instant (a_now a) < deadline \<and> m_process m \<noteq> None then Awaiting i deadline else CheckExit i)])"
| "stop_step env a m c (CheckExit i) =
     (m, if m_process m \<noteq> None then [Stopped c (Some (Errorf ''minecraft did not stop in time''))]
         else [Stop c (ReadGeneration i)])"
| "stop_step env a m c (ReadGeneration i) = (m, [Stop c (Committing i (st_Generation (m_state m)))])"
| "stop_step env a m c (Committing i g) =
     (let (s, r) = Commit (e_store env) (e_codec env) (e_digest env) (a_now a) (m_disk m) (m_store m) i (server_dir env i) g
      in (m\<lparr>m_store := s\<rparr>, [Stop c (Committed i r)]))"
| "stop_step env a m c (Committed i r) =
     (case r of
        Inl e \<Rightarrow>
          (update_state env a (\<lambda>st. st\<lparr>BackupPending := True, LastError := ''backup pending: '' @ error_text e\<rparr>) m,
           [Stopped c (Some (Wrap ''backup'' e))])
      | Inr mf \<Rightarrow>
          (update_state env a (\<lambda>st. st\<lparr>st_Generation := Generation mf, BackupPending := False, LastError := []\<rparr>) m,
           if EvictAfterBackup (Storage (e_cfg env)) then [Stop c (Evicting i mf)] else [Stopped c None]))"
| "stop_step env a m c (Evicting i mf) =
     (case os_RemoveAll (m_disk m) (server_dir env i) of
        Inl e \<Rightarrow> (m, [Stopped c (Some (Wrap (''evict verified local pack '' @ Quote (e_unicode env) i) e))])
      | Inr w \<Rightarrow> (m\<lparr>m_disk := w\<rparr>, [Stopped c None]))"

text \<open>What \<open>switchTo\<close>, the idle shutdown of \<open>tick\<close> and \<open>Shutdown\<close> do when \<open>stopAndBackup\<close> has returned.\<close>

fun stopped_step :: "'s env \<Rightarrow> answers \<Rightarrow> 's manager \<Rightarrow> caller \<Rightarrow> go_error option \<Rightarrow> 's manager \<times> goroutine list" where
  "stopped_step env a m (Switching i) (Some e) = (m, [Fail (ActiveID (m_state m)) e True])"
| "stopped_step env a m (Switching i) None =
     (update_state env a (\<lambda>_. loading_state env i) m, [Start i False Entry])"
| "stopped_step env a m (Idling i) (Some e) = (m, [Fail i e True])"
| "stopped_step env a m (Idling i) None = (signalDone (update_state env a (\<lambda>_. idle_state) m), [])"
| "stopped_step env a m ShuttingDown e =
     (if e = None \<and> \<not> a_timeout a then (update_state env a (\<lambda>_. idle_state) m, []) else (m, []))"

definition switchTo :: "'s env \<Rightarrow> answers \<Rightarrow> 's manager \<Rightarrow> string \<Rightarrow> 's manager \<times> goroutine list" where
  "switchTo env a m i =
     (if Phase (m_state m) \<noteq> Ready \<or> ActiveID (m_state m) = i then (m, [])
      else (update_state env a (\<lambda>st. st\<lparr>Phase := Draining\<rparr>) m, [Stop (Switching i) StopEntry]))"

subsection \<open>The monitor\<close>

definition tick :: "'s env \<Rightarrow> answers \<Rightarrow> 's manager \<Rightarrow> 's manager \<times> goroutine list" where
  "tick env a m =
     (if Phase (m_state m) = Idle \<and> \<not> m_loginSeen m \<and> since a (m_lastActivity m) \<ge> StatusIdleExit (Runtime (e_cfg env))
      then (signalDone m, [Monitor])
      else if Phase (m_state m) \<noteq> Ready then (m, [Monitor])
      else (m, [TickProbe (ActiveID (m_state m))]))"

definition tick_probe :: "'s env \<Rightarrow> answers \<Rightarrow> 's manager \<Rightarrow> string \<Rightarrow> 's manager \<times> goroutine list" where
  "tick_probe env a m i =
     (case QueryStatus (a_dial a) (pack_host env i) of
        Inl _ \<Rightarrow> (update_state env a (\<lambda>st. st\<lparr>EmptySince := None\<rparr>) m, [Monitor])
      | Inr players \<Rightarrow>
          let empty = (if players > 0 then None
                       else (case EmptySince (m_state m) of None \<Rightarrow> Some (a_now a) | Some t \<Rightarrow> Some t));
              m1 = update_state env a (\<lambda>st. st\<lparr>EmptySince := empty\<rparr>) m
          in (m1, (case empty of
                     None \<Rightarrow> []
                   | Some t \<Rightarrow> if since a (instant t) \<ge> IdleBeforeStop (Runtime (e_cfg env)) then [IdleDrain i] else [])
                  @ [Monitor]))"

definition idle_drain :: "'s env \<Rightarrow> answers \<Rightarrow> 's manager \<Rightarrow> string \<Rightarrow> 's manager \<times> goroutine list" where
  "idle_drain env a m i =
     (if Phase (m_state m) \<noteq> Ready then (m, [])
      else (update_state env a (\<lambda>st. st\<lparr>Phase := Draining\<rparr>) m, [Stop (Idling i) StopEntry]))"

fun go_step :: "'s env \<Rightarrow> answers \<Rightarrow> 's manager \<Rightarrow> goroutine \<Rightarrow> 's manager \<times> goroutine list" where
  "go_step env a m (Start i rec at) = start_step env a m i rec at"
| "go_step env a m (WaitProcess p) = (m, [Exited p (a_exit a)])"
| "go_step env a m (Exited p e) = (waitProcess_exit env a m p e, [])"
| "go_step env a m (Fail i e d) = ((if d then signalDone else (\<lambda>m. m)) (fail env a m i e), [])"
| "go_step env a m (SwitchTo i) = switchTo env a m i"
| "go_step env a m (Stop c at) = stop_step env a m c at"
| "go_step env a m (Stopped c e) = stopped_step env a m c e"
| "go_step env a m Monitor = (m, if m_cancelled m then [] else [Tick])"
| "go_step env a m Tick = tick env a m"
| "go_step env a m (TickProbe i) = tick_probe env a m i"
| "go_step env a m (IdleDrain i) = idle_drain env a m i"

subsection \<open>Calls from outside\<close>

text \<open>The answer of \<open>Ensure\<close> before any waiting: \<open>Waiting\<close> is a return of \<open>waitReady(id)\<close>.\<close>

datatype reply = Waiting | Reply bool string

definition Ensure :: "'s env \<Rightarrow> answers \<Rightarrow> 's manager \<Rightarrow> string \<Rightarrow> 's manager \<times> goroutine list \<times> reply" where
  "Ensure env a m0 i =
     (let m = m0\<lparr>m_loginSeen := True, m_lastActivity := instant (a_now a)\<rparr>; st = m_state m in
      if Phase st = Idle then
        (update_state env a (\<lambda>_. loading_state env i) m, [Start i False Entry], Waiting)
      else if ActiveID st = i \<and> Phase st = Ready then (m, [], Reply True [])
      else if ActiveID st = i \<and> (Phase st = Loading \<or> Phase st = Recovering) then (m, [], Waiting)
      else if Phase st = Failed \<and> ActiveID st = i \<and> m_process m = None then
        (update_state env a (\<lambda>st. st\<lparr>Phase := Loading, LastError := []\<rparr>) m, [Start i False Entry], Waiting)
      else if Phase st = Ready \<and> (case EmptySince st of None \<Rightarrow> False
              | Some t \<Rightarrow> since a (instant t) \<ge> EmptyBeforeSwitch (Runtime (e_cfg env))) then
        (m, [SwitchTo i], Reply False (''Switching to '' @ DisplayName (cfg_pack env i) @ ''. Please reconnect shortly.''))
      else
        (m, [], Reply False
          ((case pack_of (e_cfg env) (ActiveID st) of Some p \<Rightarrow> DisplayName p | None \<Rightarrow> ActiveID st)
           @ '' is currently '' @ Phase st @ ''. '' @ DisplayName (cfg_pack env i) @ '' cannot start yet.'')))"

text \<open>
  \<open>waitReady\<close> on what it observes: for every iteration the time of the loop test and the state read after
  the pause. \<open>None\<close>: it has not returned yet.
\<close>

fun waitReady :: "'s env \<Rightarrow> string \<Rightarrow> int \<Rightarrow> (int \<times> state) list \<Rightarrow> (bool \<times> string) option" where
  "waitReady env i deadline [] = None"
| "waitReady env i deadline ((now, st) # obs) =
     (if \<not> now < deadline
      then Some (False, DisplayName (cfg_pack env i) @ '' is starting. Please reconnect shortly.'')
      else if ActiveID st = i \<and> Phase st = Ready then Some (True, [])
      else if ActiveID st = i \<and> Phase st = Resizing
      then Some (False, DisplayName (cfg_pack env i) @ '' is resizing its Fly Machine. Please reconnect shortly.'')
      else if Phase st = Failed
      then Some (False, ''Failed to start '' @ DisplayName (cfg_pack env i) @ '': '' @ LastError st)
      else waitReady env i deadline obs)"

definition Touch :: "answers \<Rightarrow> 's manager \<Rightarrow> 's manager" where
  "Touch a m = m\<lparr>m_lastActivity := instant (a_now a)\<rparr>"

definition Close :: "'s manager \<Rightarrow> 's manager" where
  "Close m = m\<lparr>m_cancelled := True\<rparr>"

definition Shutdown :: "'s env \<Rightarrow> answers \<Rightarrow> 's manager \<Rightarrow> 's manager \<times> goroutine list" where
  "Shutdown env a m =
     (if Phase (m_state m) = Idle \<or> m_process m = None then (m, [])
      else (update_state env a (\<lambda>st. st\<lparr>Phase := Draining\<rparr>) m, [Stop ShuttingDown StopEntry]))"

text \<open>A new supervisor process on a disk and a store.\<close>

definition NewManager :: "'s env \<Rightarrow> answers \<Rightarrow> world \<Rightarrow> 's \<Rightarrow> 's manager \<times> goroutine list" where
  "NewManager env a w s =
     (let st = fst (Load (state_path env) w);
          m = \<lparr>m_state = st, m_process = None, m_expectedStop = False, m_lastActivity = instant (a_now a),
               m_loginSeen = False, m_done = False, m_cancelled = False, m_disk = w, m_store = s\<rparr>
      in if Phase st \<noteq> Idle \<and> ActiveID st \<noteq> [] then
           (update_state env a (\<lambda>st. st\<lparr>Phase := Recovering\<rparr>) m, [Start (ActiveID st) True Entry, Monitor])
         else (m, [Monitor]))"

end
