(* ===== verification/Launcher.thy ===== *)
theory Launcher
  imports Manager
begin

text \<open>
  The launcher of \<open>internal/runtime/launcher.go\<close>: it prepares the directory of a pack and starts the server
  process in it.

  Ownership is not part of the file trees: what \<open>Stat\<close> says of the owner of a path is an argument, and
  \<open>Lchown\<close> and \<open>Chown\<close> matter by their errors. \<open>exec\<close> is the operating system's answer to \<open>cmd.Start\<close>.
\<close>

subsection \<open>Operating system calls\<close>

definition os_Remove :: "world \<Rightarrow> string \<Rightarrow> world result" where
  "os_Remove w p =
     on_tree ''remove'' p (\<lambda>n. and_then (find_node (comps p) n) (\<lambda>x.
       case x of Dir _ (_ # _) \<Rightarrow> Inl ENOTEMPTY | _ \<Rightarrow> place (comps p) (\<lambda>_. None) n)) w"

definition os_Symlink :: "world \<Rightarrow> string \<Rightarrow> string \<Rightarrow> world result" where
  "os_Symlink w t p =
     on_tree ''symlink'' p (\<lambda>n. if lookup (comps p) n \<noteq> None then Inl EEXIST
       else place (comps p) (\<lambda>_. Some (Symlink t)) n) w"

primrec set_mode :: "mode \<Rightarrow> node \<Rightarrow> node" where
  "set_mode m (File m0 c) = File m c"
| "set_mode m (Dir m0 es) = Dir m es"
| "set_mode m (Symlink t) = Symlink t"

definition os_Chmod :: "world \<Rightarrow> string \<Rightarrow> mode \<Rightarrow> world result" where
  "os_Chmod w p m =
     on_tree ''chmod'' p (\<lambda>n. and_then (find_node (comps p) n) (\<lambda>x. place (comps p) (\<lambda>_. Some (set_mode m x)) n)) w"

text \<open>\<open>os.ReadDir\<close>: the entries sorted by name.\<close>

definition os_ReadDir :: "world \<Rightarrow> string \<Rightarrow> (string \<times> node) list result" where
  "os_ReadDir w p =
     (case w_fault w ''open'' p of
        Some e \<Rightarrow> Inl e
      | None \<Rightarrow> and_then (find_node (comps p) (w_root w)) (\<lambda>x.
          case x of
            Dir _ es \<Rightarrow> (case w_fault w ''readdir'' p of Some e \<Rightarrow> Inl e | None \<Rightarrow> Inr (sort_key fst es))
          | _ \<Rightarrow> Inl ENOTDIR))"

text \<open>\<open>os.Getenv\<close>: the first entry of the environment with that name.\<close>

definition Getenv :: "string list \<Rightarrow> string \<Rightarrow> string" where
  "Getenv environ name =
     (case find (\<lambda>e. HasPrefix e (name @ ''='')) environ of Some e \<Rightarrow> drop (length name + 1) e | None \<Rightarrow> [])"

subsection \<open>The environment of the server process\<close>

definition childID :: "string list \<Rightarrow> string \<Rightarrow> nat \<Rightarrow> uint32 result" where
  "childID environ name fallback =
     (let v = Getenv environ name; v = (if v = [] then nat_to_string fallback else v)
      in case ParseUint v 32 of
           None \<Rightarrow> Inl (Errorf (name @ '' must be a numeric user or group ID''))
         | Some n \<Rightarrow> Inr (of_nat n))"

definition env_name :: "string \<Rightarrow> string" where
  "env_name e = takeWhile (\<lambda>c. c \<noteq> CHR ''='') e"

definition blocked_names :: "string list" where
  "blocked_names = [''AWS_ACCESS_KEY_ID'', ''AWS_SECRET_ACCESS_KEY'', ''AWS_SESSION_TOKEN'', ''FLY_API_TOKEN'', ''FLY_TOKEN'',
     ''HOME'', ''HOSTPACK_FLY_API_TOKEN'', ''PWD'']"

definition childEnvironment :: "string list \<Rightarrow> string list" where
  "childEnvironment parent =
     filter (\<lambda>e. \<not> (env_name e \<in> set blocked_names \<or> HasPrefix (env_name e) ''RCLONE_CONFIG_'')) parent"

subsection \<open>Preparing the directory\<close>

type_synonym owners = "string \<Rightarrow> uint32 \<times> uint32"

text \<open>The paths handed to \<open>Lchown\<close>, up to the first error.\<close>

fun chown_walk :: "world \<Rightarrow> string \<Rightarrow> (string list \<times> node) list \<Rightarrow> string list \<times> go_error option" where
  "chown_walk w root [] = ([], None)"
| "chown_walk w root ((cs, n) # es) =
     (let p = walk_path root cs in
      case w_fault w ''lchown'' p of
        Some e \<Rightarrow> ([], Some e)
      | None \<Rightarrow>
          (case (if is_dir n then w_fault w ''readdir'' p else None) of
             Some e \<Rightarrow> ([p], Some e)
           | None \<Rightarrow> let (ps, e) = chown_walk w root es in (p # ps, e)))"

definition ensureTreeOwner :: "world \<Rightarrow> owners \<Rightarrow> string \<Rightarrow> uint32 \<Rightarrow> uint32 \<Rightarrow> string list \<times> go_error option" where
  "ensureTreeOwner w own root uid gid =
     (case os_Stat w root of
        Inl e \<Rightarrow> ([], Some e)
      | Inr n \<Rightarrow>
          if own root = (uid, gid) then ([], None)
          else (case w_fault w ''lstat'' root of
              Some e \<Rightarrow> ([], Some (Wrap ''set Minecraft instance ownership'' e))
            | None \<Rightarrow> let (ps, e) = chown_walk w root (walk [] n)
                      in (ps, map_option (Wrap ''set Minecraft instance ownership'') e)))"

definition quotes :: string where
  "quotes = [CHR 0x22, CHR 0x27]"

text \<open>The loop over the lines: \<open>None\<close> when nothing changes.\<close>

fun repair_lines :: "bool \<Rightarrow> string list \<Rightarrow> string list option" where
  "repair_lines has_run [] = None"
| "repair_lines has_run (l # ls) =
     (if \<not> HasPrefix l ''SERVER='' then map_option (Cons l) (repair_lines has_run ls)
      else let v = Trim (TrimPrefix l ''SERVER='') quotes
           in if v \<noteq> ''run.sh'' \<and> path_base v = ''run.sh'' \<and> has_run
              then Some ((''SERVER='' @ [CHR 0x22] @ ''run.sh'' @ [CHR 0x22]) # ls) else None)"

definition write_repair :: "world \<Rightarrow> string \<Rightarrow> byte list \<Rightarrow> world \<times> go_error option" where
  "write_repair w tmp b =
     (case on_tree ''write'' tmp (write_node 0 b (comps tmp)) w of
        Inl e \<Rightarrow> (w, Some e)
      | Inr w1 \<Rightarrow>
          (case w_fault w1 ''sync'' tmp of
             Some e \<Rightarrow> (w1, Some e)
           | None \<Rightarrow>
               (case os_Chmod w1 tmp 0x1A0 of
                  Inl e \<Rightarrow> (w1, Some e)
                | Inr w2 \<Rightarrow>
                    (w2, case w_fault w2 ''chown'' tmp of Some e \<Rightarrow> Some e | None \<Rightarrow> w_fault w2 ''close'' tmp))))"

definition repairModrinthServerPath :: "world \<Rightarrow> string \<Rightarrow> world \<times> go_error option" where
  "repairModrinthServerPath w inst =
     (let path = path_join [inst, ''.install-modrinth.env''] in
      case os_ReadFile w path of
        Inl e \<Rightarrow> (w, if is_not_exist e then None else Some (Wrap ''read Modrinth installer results'' e))
      | Inr data \<Rightarrow>
          (case repair_lines (case os_Stat w (path_join [inst, ''run.sh'']) of Inr _ \<Rightarrow> True | Inl _ \<Rightarrow> False)
                  (split_on newline (string_of data)) of
             None \<Rightarrow> (w, None)
           | Some ls \<Rightarrow>
               (case os_CreateTemp w inst ''.install-modrinth-repair-'' of
                  Inl e \<Rightarrow> (w, Some (Wrap ''repair Modrinth installer results'' e))
                | Inr (w1, tmp) \<Rightarrow>
                    (case write_repair w1 tmp (bytes_of (Join ls [newline])) of
                       (w2, Some e) \<Rightarrow> (remove_temp w2 tmp, Some (Wrap ''repair Modrinth installer results'' e))
                     | (w2, None) \<Rightarrow>
                         (case os_Rename w2 tmp path of
                            Inl e \<Rightarrow> (remove_temp w2 tmp, Some (Wrap ''replace Modrinth installer results'' e))
                          | Inr w3 \<Rightarrow> (remove_temp w3 tmp, None))))))"

fun is_regular :: "node \<Rightarrow> bool" where
  "is_regular (File m c) = True"
| "is_regular n = False"

fun remove_excluded :: "unicode \<Rightarrow> string \<Rightarrow> string list \<Rightarrow> world \<Rightarrow> (string \<times> node) list \<Rightarrow> world \<times> go_error option" where
  "remove_excluded u mods patterns w [] = (w, None)"
| "remove_excluded u mods patterns w ((name, n) # es) =
     (case w_fault w ''lstat'' (path_join [mods, name]) of
        Some e \<Rightarrow> (w, Some (Wrap (''inspect Modrinth mod '' @ Quote u name) e))
      | None \<Rightarrow>
          if is_regular n \<and> list_ex (Contains name) patterns then
            (case os_Remove w (path_join [mods, name]) of
               Inl e \<Rightarrow> (w, Some (Wrap (''remove excluded Modrinth file '' @ Quote u name) e))
             | Inr w1 \<Rightarrow> remove_excluded u mods patterns w1 es)
          else remove_excluded u mods patterns w es)"

definition removeModrinthExcludedFiles :: "unicode \<Rightarrow> world \<Rightarrow> string \<Rightarrow> string list \<Rightarrow> world \<times> go_error option" where
  "removeModrinthExcludedFiles u w inst patterns =
     (if patterns = [] then (w, None)
      else let mods = path_join [inst, ''mods''] in
        case os_ReadDir w mods of
          Inl e \<Rightarrow> (w, if is_not_exist e then None else Some (Wrap ''read Modrinth mods directory'' e))
        | Inr es \<Rightarrow> remove_excluded u mods patterns w es)"

fun remove_credentials :: "unicode \<Rightarrow> string \<Rightarrow> world \<Rightarrow> string list \<Rightarrow> world \<times> go_error option" where
  "remove_credentials u inst w [] = (w, None)"
| "remove_credentials u inst w (name # ns) =
     (case os_Remove w (path_join [inst, name]) of
        Inl e \<Rightarrow> if is_not_exist e then remove_credentials u inst w ns
                 else (w, Some (Wrap (''remove runtime credential file '' @ Quote u name) e))
      | Inr w1 \<Rightarrow> remove_credentials u inst w1 ns)"

definition removeRuntimeCredentialFiles :: "unicode \<Rightarrow> world \<Rightarrow> string \<Rightarrow> world \<times> go_error option" where
  "removeRuntimeCredentialFiles u w inst = remove_credentials u inst w [''.rcon-cli.env'', ''.rcon-cli.yaml'']"

subsection \<open>Starting the server\<close>

record itzg_launcher =
  StateRoot :: string
  DataLink :: string
  StartCommand :: string
  RCONPassword :: string

record command =
  cmd_Path :: string
  cmd_Dir :: string
  cmd_Env :: "string list"
  cmd_Uid :: uint32
  cmd_Gid :: uint32

definition child_env :: "itzg_launcher \<Rightarrow> string list \<Rightarrow> string \<Rightarrow> string \<Rightarrow> pack \<Rightarrow> locked_pack \<Rightarrow> string list" where
  "child_env l environ home inst p lp =
     childEnvironment environ
     @ [''HOME='' @ home, ''HOSTPACK_MINECRAFT_HOME='' @ home, ''PWD='' @ inst, ''EULA=TRUE'', ''SERVER_IP=127.0.0.1'',
        ''SERVER_PORT=25566'', ''ENABLE_STATUS=TRUE'', ''ONLINE_MODE=TRUE'', ''ENABLE_RCON=TRUE'', ''RCON_PORT=25575'',
        ''RCON_PASSWORD='' @ RCONPassword l, ''MEMORY='' @ itoa (MemoryMB p) @ ''M'', ''SKIP_CHOWN_DATA=TRUE'']
     @ (if Java p = 17 then [''PATH=/opt/java17/bin:'' @ Getenv environ ''PATH'', ''JAVA_HOME=/opt/java17'']
        else [''PATH=/opt/java21/bin:'' @ Getenv environ ''PATH'', ''JAVA_HOME=/opt/java21''])
     @ (if Provider p = ''modrinth'' then
          [''TYPE=MODRINTH'', ''MODRINTH_MODPACK='' @ ProjectID p, ''MODRINTH_VERSION='' @ VersionID p]
          @ (if ModrinthExcludeFiles p \<noteq> [] then [''MODRINTH_EXCLUDE_FILES='' @ Join (ModrinthExcludeFiles p) '',''] else [])
        else [''TYPE=AUTO_CURSEFORGE'', ''CF_SLUG='' @ lp_Slug lp, ''CF_FILE_ID='' @ itoa (FileID p)])"

text \<open>A call that may fail after it has changed the disk, followed by the rest of the function.\<close>

definition try_then :: "world \<times> go_error option \<Rightarrow> (world \<Rightarrow> world \<times> 'a result) \<Rightarrow> world \<times> 'a result" where
  "try_then r k = (case r of (w, Some e) \<Rightarrow> (w, Inl e) | (w, None) \<Rightarrow> k w)"

definition attempt :: "world \<Rightarrow> world result \<Rightarrow> world \<times> go_error option" where
  "attempt w r = (case r of Inl e \<Rightarrow> (w, Some e) | Inr w1 \<Rightarrow> (w1, None))"

definition link_current :: "itzg_launcher \<Rightarrow> string \<Rightarrow> world \<Rightarrow> world \<times> go_error option" where
  "link_current l inst w =
     (let current = path_join [StateRoot l, ''runtime'', ''current''] in
      case os_MkdirAll w (path_dir current) 0x1E8 of
        Inl e \<Rightarrow> (w, Some e)
      | Inr w1 \<Rightarrow>
          let tmp = current @ ''.new''; w2 = (case os_Remove w1 tmp of Inl _ \<Rightarrow> w1 | Inr w2 \<Rightarrow> w2) in
          (case os_Symlink w2 inst tmp of
             Inl e \<Rightarrow> (w2, Some e)
           | Inr w3 \<Rightarrow> attempt w3 (os_Rename w3 tmp current)))"

definition prepare_home :: "string \<Rightarrow> world \<Rightarrow> world \<times> go_error option" where
  "prepare_home home w =
     (case os_MkdirAll w home 0x1C0 of
        Inl e \<Rightarrow> (w, Some (Wrap ''create Minecraft runtime home'' e))
      | Inr w1 \<Rightarrow>
          (case w_fault w1 ''chown'' home of
             Some e \<Rightarrow> (w1, Some (Wrap ''set Minecraft runtime home ownership'' e))
           | None \<Rightarrow>
               (case os_Chmod w1 home 0x1C0 of
                  Inl e \<Rightarrow> (w1, Some (Wrap ''set Minecraft runtime home permissions'' e))
                | Inr w2 \<Rightarrow> (w2, None))))"

definition ItzgLauncher_Start ::
    "itzg_launcher \<Rightarrow> unicode \<Rightarrow> string list \<Rightarrow> owners \<Rightarrow> (command \<Rightarrow> go_error option) \<Rightarrow> world \<Rightarrow> string \<Rightarrow> pack \<Rightarrow> locked_pack
       \<Rightarrow> world \<times> command result" where
  "ItzgLauncher_Start l u environ own exec w i p lp =
     (let inst = path_join [StateRoot l, ''instances'', i, ''server''];
          home = path_join [StateRoot l, ''runtime'', ''tmp'', ''minecraft-home''] in
      try_then (attempt w (os_MkdirAll w inst 0x1E8)) (\<lambda>w.
      try_then (link_current l inst w) (\<lambda>w.
      case childID environ ''HOSTPACK_MINECRAFT_UID'' 1000 of
        Inl e \<Rightarrow> (w, Inl e)
      | Inr uid \<Rightarrow>
          (case childID environ ''HOSTPACK_MINECRAFT_GID'' 1000 of
             Inl e \<Rightarrow> (w, Inl e)
           | Inr gid \<Rightarrow>
               let (ps, err) = ensureTreeOwner w own (path_dir inst) uid gid in
               try_then (w, err) (\<lambda>w.
               try_then (w, snd (ensureTreeOwner w (\<lambda>p. if p \<in> set ps then (uid, gid) else own p) inst uid gid)) (\<lambda>w.
               try_then (if Provider p = ''modrinth'' then repairModrinthServerPath w inst else (w, None)) (\<lambda>w.
               try_then (if Provider p = ''modrinth'' then removeModrinthExcludedFiles u w inst (ModrinthExcludeFiles p)
                         else (w, None)) (\<lambda>w.
               try_then (removeRuntimeCredentialFiles u w inst) (\<lambda>w.
               try_then (prepare_home home w) (\<lambda>w.
               let cmd = \<lparr>cmd_Path = (if StartCommand l = [] then ''/start'' else StartCommand l), cmd_Dir = inst,
                          cmd_Env = child_env l environ home inst p lp, cmd_Uid = uid, cmd_Gid = gid\<rparr>
               in (case exec cmd of
                     Some e \<Rightarrow> (w, Inl (Wrap ''start minecraft'' e))
                   | None \<Rightarrow> (w, Inr cmd))))))))))))"

subsection \<open>What a launch leaves alone\<close>

text \<open>\<open>spares D w w'\<close>: everything visible in \<open>w\<close> that is not at or below one of the places \<open>D\<close> is unchanged.\<close>

definition spares :: "string list set \<Rightarrow> world \<Rightarrow> world \<Rightarrow> bool" where
  "spares D w w' =
     (w_fault w' = w_fault w \<and> w_rand w' = w_rand w \<and> (node_wf (w_root w) \<longrightarrow> node_wf (w_root w'))
      \<and> (\<forall>ds s. stat_at ds (w_root w) = Some s \<longrightarrow> (\<forall>T\<in>D. take (length T) ds \<noteq> T) \<longrightarrow> stat_at ds (w_root w') = Some s))"

lemma spares_refl [simp, intro]: "spares D w w"
  by (simp add: spares_def)

lemma spares_trans: "spares D w w' \<Longrightarrow> spares D w' w'' \<Longrightarrow> spares D w w''"
  by (simp add: spares_def)

lemma spares_mono: "spares D w w' \<Longrightarrow> D \<subseteq> D' \<Longrightarrow> spares D' w w'"
  unfolding spares_def by blast

lemma spares_elsewhere: "elsewhere D w w' \<Longrightarrow> spares D w w'"
  by (auto simp: elsewhere_def spares_def)

abbreviation names :: "string list \<Rightarrow> bool" where
  "names cs \<equiv> \<forall>c\<in>set cs. name_ok c"

lemma spares_change:
  "parent_ok cs (w_root w) \<Longrightarrow> names cs \<Longrightarrow> (\<And>x k. f x = Some k \<Longrightarrow> node_wf k) \<Longrightarrow>
     spares {cs} w (w\<lparr>w_root := change cs f (w_root w)\<rparr>)"
  by (rule spares_elsewhere [OF elsewhere_change])

lemma spares_MkdirAll: "os_MkdirAll w p m = Inr w' \<Longrightarrow> names (comps p) \<Longrightarrow> spares D w w'"
  using kept_MkdirAll [of w p m w'] mkdirs_wf [of "masked w m" "comps p" "w_root w"]
  by (auto simp: spares_def kept_def os_MkdirAll_def on_tree_def and_then_eq_Inr split: option.splits)

lemma spares_Remove:
  assumes "os_Remove w p = Inr w'" "names (comps p)"
  shows "spares {comps p} w w'"
proof -
  obtain x n where x: "find_node (comps p) (w_root w) = Inr x" "w' = w\<lparr>w_root := n\<rparr>"
    "(case x of Dir _ (_ # _) \<Rightarrow> Inl ENOTEMPTY | _ \<Rightarrow> place (comps p) (\<lambda>_. None) (w_root w)) = Inr n"
    using assms(1) by (auto simp: os_Remove_def on_tree_def and_then_eq_Inr split: option.splits)
  then have "place (comps p) (\<lambda>_. None) (w_root w) = Inr n" by (cases x) (auto split: list.splits)
  then show ?thesis using spares_change [of "comps p" w "\<lambda>_. None"] assms(2) x(2) by (simp add: place_Inr)
qed

lemma spares_Symlink: "os_Symlink w t p = Inr w' \<Longrightarrow> names (comps p) \<Longrightarrow> spares {comps p} w w'"
  using spares_change [of "comps p" w "\<lambda>_. Some (Symlink t)"]
  by (auto simp: os_Symlink_def on_tree_def and_then_eq_Inr place_Inr split: option.splits if_splits)

lemma node_wf_set_mode [simp]: "node_wf (set_mode m x) = node_wf x"
  by (cases x) simp_all

lemma found_wf: "find_node cs n = Inr x \<Longrightarrow> node_wf n \<Longrightarrow> node_wf x"
  using node_wf_lookup [of n cs x] by (simp add: find_node_lookup)

text \<open>A change that puts a node of the tree (or nothing) somewhere.\<close>

lemma spares_put:
  assumes "parent_ok cs (w_root w)" "names cs" "\<And>x k. node_wf (w_root w) \<Longrightarrow> f x = Some k \<Longrightarrow> node_wf k"
  shows "spares {cs} w (w\<lparr>w_root := change cs f (w_root w)\<rparr>)"
proof -
  have "node_wf (change cs f (w_root w))" if "node_wf (w_root w)"
    by (rule node_wf_change [OF that assms(2)]) (rule assms(3) [OF that])
  then show ?thesis using stat_change [OF assms(1)] by (simp add: spares_def)
qed

lemma spares_Chmod:
  assumes "os_Chmod w p m = Inr w'" "names (comps p)"
  shows "spares {comps p} w w'"
proof -
  obtain x where x: "find_node (comps p) (w_root w) = Inr x" "parent_ok (comps p) (w_root w)"
    "w' = w\<lparr>w_root := change (comps p) (\<lambda>_. Some (set_mode m x)) (w_root w)\<rparr>"
    using assms(1) by (auto simp: os_Chmod_def on_tree_def and_then_eq_Inr place_Inr split: option.splits)
  show ?thesis unfolding x(3)
    by (rule spares_put [OF x(2) assms(2)]) (use found_wf [OF x(1)] in auto)
qed

lemma spares_Rename:
  assumes "os_Rename w p q = Inr w'" "names (comps p)" "names (comps q)"
  shows "spares {comps p, comps q} w w'"
proof -
  obtain n where n: "rename_node (comps p) (comps q) (w_root w) = Inr n" "w' = w\<lparr>w_root := n\<rparr>"
    using assms(1) by (auto simp: os_Rename_def on_tree_def and_then_eq_Inr split: option.splits)
  obtain x where x: "find_node (comps p) (w_root w) = Inr x"
    using n(1) unfolding rename_node_def by (auto simp: and_then_eq_Inr)
  let ?w1 = "w\<lparr>w_root := change (comps p) (\<lambda>_. None) (w_root w)\<rparr>"
  have "n = w_root w \<or> parent_ok (comps p) (w_root w) \<and> parent_ok (comps q) (w_root ?w1)
      \<and> n = change (comps q) (\<lambda>_. Some x) (w_root ?w1)"
    using n(1) unfolding rename_node_def x by (auto simp: and_then_eq_Inr place_Inr split: option.splits node.splits if_splits)
  then show ?thesis
  proof
    assume a: "parent_ok (comps p) (w_root w) \<and> parent_ok (comps q) (w_root ?w1) \<and> n = change (comps q) (\<lambda>_. Some x) (w_root ?w1)"
    have wf: "node_wf n" if "node_wf (w_root w)"
    proof -
      have "node_wf (w_root ?w1)" using node_wf_change [OF that assms(2), of "\<lambda>_. None"] by simp
      then show ?thesis using a node_wf_change [OF _ assms(3), of "w_root ?w1" "\<lambda>_. Some x"] found_wf [OF x that] by blast
    qed
    have "stat_at ds n = stat_at ds (w_root w)" if "take (length (comps p)) ds \<noteq> comps p" "take (length (comps q)) ds \<noteq> comps q" for ds
      using a that stat_change [of "comps p" "w_root w" ds] stat_change [of "comps q" "w_root ?w1" ds] by simp
    then show ?thesis using wf n(2) by (simp add: spares_def)
  qed (simp add: n(2))
qed

lemma path_join_list:
  assumes "p \<noteq> []" "\<forall>c\<in>set cs. name_ok c" "cs \<noteq> []"
  shows "path_join (p # cs) = path_join [p, Join cs [slash]]"
proof -
  have "filter (\<lambda>e. e \<noteq> []) cs = cs" using assms(2) by (auto simp: name_ok_def intro: filter_True)
  moreover have "Join cs [slash] \<noteq> []" using assms(2,3) by (cases cs) (auto simp: Join_Cons name_ok_def)
  ultimately show ?thesis using assms(1,3) by (simp add: path_join_def Join_Cons)
qed

lemma comps_join_list:
  assumes "p \<noteq> []" "\<forall>c\<in>set cs. name_ok c" "cs \<noteq> []"
  shows "comps (path_join (p # cs)) = comps p @ cs" "comps (path_dir (path_join (p # cs))) = comps p @ butlast cs"
  using comps_path_join(1) [OF assms] comps_dir_join [OF assms] path_join_list [OF assms] by simp_all

lemma remove_temp_spares: "names (comps tmp) \<Longrightarrow> spares {comps tmp} w (remove_temp w tmp)"
  by (rule spares_elsewhere [OF remove_temp_elsewhere])

lemma write_spares:
  assumes "on_tree op p (write_node m b cs) w = Inr w'" "names cs"
  shows "spares {cs} w w'"
  using assms spares_change [of cs w "\<lambda>_. Some (File m0 b)" for m0]
  by (auto simp: on_tree_def write_node_def and_then_eq_Inr place_Inr split: option.splits node.splits)

lemma write_repair_spares:
  assumes "write_repair w tmp b = (w', e)" "names (comps tmp)"
  shows "spares {comps tmp} w w'"
proof (cases "on_tree ''write'' tmp (write_node 0 b (comps tmp)) w")
  case (Inr w1)
  have 1: "spares {comps tmp} w w1" by (rule write_spares [OF Inr assms(2)])
  have "w' = w1 \<or> (\<exists>w2. os_Chmod w1 tmp 0x1A0 = Inr w2 \<and> w' = w2)"
    using assms(1) Inr by (auto simp: write_repair_def split: option.splits sum.splits)
  then show ?thesis using 1 spares_trans [OF 1 spares_Chmod [OF _ assms(2)]] by blast
qed (use assms in \<open>auto simp: write_repair_def\<close>)

text \<open>The places a launch may write to, inside the directory of the pack.\<close>

definition repair_area :: "world \<Rightarrow> string \<Rightarrow> string list set" where
  "repair_area w inst =
     insert (comps inst @ [''.install-modrinth.env''])
       ((\<lambda>r. comps inst @ [''.install-modrinth-repair-'' @ r]) ` set (w_rand w))"

definition excluded_area :: "string \<Rightarrow> string list \<Rightarrow> string list set" where
  "excluded_area inst patterns = {comps inst @ [''mods'', x] |x. list_ex (Contains x) patterns}"

definition credential_area :: "string \<Rightarrow> string list set" where
  "credential_area inst = {comps inst @ [''.rcon-cli.env''], comps inst @ [''.rcon-cli.yaml'']}"

definition rand_ok :: "world \<Rightarrow> bool" where
  "rand_ok w = (\<forall>r\<in>set (w_rand w). r \<noteq> [] \<and> all_digits r)"

lemma repair_spares:
  assumes run: "repairModrinthServerPath w inst = (w', e)" and inst: "inst \<noteq> []" "names (comps inst)" and rand: "rand_ok w"
  shows "spares (repair_area w inst) w w'"
proof -
  let ?path = "path_join [inst, ''.install-modrinth.env'']"
  have p: "comps ?path = comps inst @ [''.install-modrinth.env'']"
    by (rule temp_comps [OF inst(1)]) (simp add: name_ok_def)
  then have np: "names (comps ?path)" using inst(2) by (simp add: name_ok_def)
  consider "w' = w" | w1 tmp w2 b e2 where "os_CreateTemp w inst ''.install-modrinth-repair-'' = Inr (w1, tmp)"
      "write_repair w1 tmp b = (w2, e2)" "w' = remove_temp w2 tmp \<or> (\<exists>w3. os_Rename w2 tmp ?path = Inr w3 \<and> w' = remove_temp w3 tmp)"
    using run by (fastforce simp: repairModrinthServerPath_def Let_def split: sum.splits option.splits prod.splits)
  then show ?thesis
  proof cases
    case (2 w1 tmp w2 b e2)
    note c = CreateTemp_new [OF 2(1)]
    obtain r where r: "r \<in> set (w_rand w)" "tmp = path_join [inst, ''.install-modrinth-repair-'' @ r]" using c(4) by blast
    have nm: "name_ok (''.install-modrinth-repair-'' @ r)"
      using r(1) rand by (intro temp_name_ok) (auto simp: rand_ok_def)
    have t: "comps tmp = comps inst @ [''.install-modrinth-repair-'' @ r]" using temp_comps [OF inst(1) nm] r(2) by simp
    then have nt: "names (comps tmp)" using inst(2) nm by simp
    let ?A = "repair_area w inst"
    have A: "{comps tmp} \<subseteq> ?A" "{comps tmp, comps ?path} \<subseteq> ?A" using t p r(1) by (auto simp: repair_area_def)
    have "spares {comps tmp} w w1" unfolding c(3) by (rule spares_change [OF c(2) nt]) simp
    then have 1: "spares ?A w w2"
      using spares_mono [OF _ A(1)] write_repair_spares [OF 2(2) nt] spares_trans by blast
    have rm: "spares ?A v (remove_temp v tmp)" for v using spares_mono [OF remove_temp_spares [OF nt] A(1)] .
    show ?thesis using 2(3)
    proof
      assume "\<exists>w3. os_Rename w2 tmp ?path = Inr w3 \<and> w' = remove_temp w3 tmp"
      then obtain w3 where w3: "os_Rename w2 tmp ?path = Inr w3" "w' = remove_temp w3 tmp" by blast
      have "spares ?A w2 w3" by (rule spares_mono [OF spares_Rename [OF w3(1) nt np] A(2)])
      then show ?thesis using spares_trans [OF 1 spares_trans [OF _ rm]] w3(2) by simp
    qed (simp add: spares_trans [OF 1 rm])
  qed simp
qed

lemma remove_excluded_spares:
  assumes "remove_excluded u mods patterns w es = (w', e)" "mods \<noteq> []" "names (comps mods)" "\<forall>x\<in>set es. name_ok (fst x)"
  shows "spares {comps mods @ [x] |x. list_ex (Contains x) patterns} w w'"
  using assms
proof (induction u mods patterns w es arbitrary: w' rule: remove_excluded.induct)
  case (2 u mods patterns w name n es)
  let ?p = "path_join [mods, name]" and ?A = "{comps mods @ [x] |x. list_ex (Contains x) patterns}"
  show ?case
  proof (cases "w_fault w ''lstat'' ?p")
    case None
    show ?thesis
    proof (cases "is_regular n \<and> list_ex (Contains name) patterns")
      case True
      have c: "comps ?p = comps mods @ [name]" using 2(4,6) by (intro temp_comps) auto
      then have n: "names (comps ?p)" using 2(5,6) by simp
      show ?thesis
      proof (cases "os_Remove w ?p")
        case (Inr w1)
        have "spares ?A w w1" by (rule spares_mono [OF spares_Remove [OF Inr n]]) (use c True in auto)
        moreover have "spares ?A w1 w'" using 2(1) [OF None True Inr] 2(3-6) None True Inr by simp
        ultimately show ?thesis by (rule spares_trans)
      qed (use 2(3) None True in auto)
    qed (use 2 None in auto)
  qed (use 2(3) in auto)
qed simp

lemma excluded_spares:
  assumes run: "removeModrinthExcludedFiles u w inst patterns = (w', e)" and inst: "inst \<noteq> []" "names (comps inst)"
    and wf: "node_wf (w_root w)"
  shows "spares (excluded_area inst patterns) w w'"
proof -
  let ?mods = "path_join [inst, ''mods'']"
  have c: "comps ?mods = comps inst @ [''mods'']" by (rule temp_comps [OF inst(1)]) (simp add: name_ok_def)
  then have n: "names (comps ?mods)" "?mods \<noteq> []" using inst by (auto simp: name_ok_def path_join_def)
  consider "w' = w" | es where "os_ReadDir w ?mods = Inr es" "remove_excluded u ?mods patterns w es = (w', e)"
    using run by (auto simp: removeModrinthExcludedFiles_def Let_def split: if_splits sum.splits)
  then show ?thesis
  proof cases
    case (2 es)
    obtain x where x: "find_node (comps ?mods) (w_root w) = Inr x"
      "(case x of Dir _ es \<Rightarrow> (case w_fault w ''readdir'' ?mods of Some e \<Rightarrow> Inl e | None \<Rightarrow> Inr (sort_key fst es))
          | _ \<Rightarrow> Inl ENOTDIR) = Inr es"
      using 2(1) by (auto simp: os_ReadDir_def and_then_eq_Inr split: option.splits)
    then obtain m ds where d: "find_node (comps ?mods) (w_root w) = Inr (Dir m ds)" "es = sort_key fst ds"
      by (cases x) (auto split: option.splits)
    then have "\<forall>x\<in>set es. name_ok (fst x)" using found_wf [OF d(1) wf] by (auto simp: list_all_iff)
    from remove_excluded_spares [OF 2(2) n(2,1) this] show ?thesis by (simp add: c excluded_area_def)
  qed simp
qed

lemma credentials_spares:
  assumes run: "removeRuntimeCredentialFiles u w inst = (w', e)" and inst: "inst \<noteq> []" "names (comps inst)"
  shows "spares (credential_area inst) w w'"
proof -
  have "spares ((\<lambda>x. comps inst @ [x]) ` set ns) w w'" if "remove_credentials u inst w ns = (w', e)" "names ns" for ns w w' e
    using that
  proof (induction ns arbitrary: w)
    case (Cons x ns)
    let ?p = "path_join [inst, x]" and ?A = "(\<lambda>x. comps inst @ [x]) ` set (x # ns)"
    have c: "comps ?p = comps inst @ [x]" using Cons.prems(2) by (intro temp_comps [OF inst(1)]) simp
    have n: "names (comps ?p)" using c inst(2) Cons.prems(2) by simp
    have rest: "spares ?A v w'" if "remove_credentials u inst v ns = (w', e)" for v
      using spares_mono [OF Cons.IH [OF that]] Cons.prems(2) by auto
    show ?case
    proof (cases "os_Remove w ?p")
      case (Inl err)
      then show ?thesis using Cons.prems(1) rest by (cases "is_not_exist err") auto
    next
      case (Inr w1)
      have "spares ?A w w1" by (rule spares_mono [OF spares_Remove [OF Inr n]]) (use c in auto)
      then show ?thesis using Cons.prems(1) Inr rest spares_trans by simp
    qed
  qed simp
  from this [of w "[''.rcon-cli.env'', ''.rcon-cli.yaml'']" w' e] run show ?thesis
    by (simp add: removeRuntimeCredentialFiles_def credential_area_def name_ok_def)
qed

definition launch_area :: "itzg_launcher \<Rightarrow> world \<Rightarrow> string \<Rightarrow> pack \<Rightarrow> string list set" where
  "launch_area l w i p =
     (let inst = path_join [StateRoot l, ''instances'', i, ''server''] in
      {comps (StateRoot l) @ [''runtime'', ''current''], comps (StateRoot l) @ [''runtime'', ''current.new''],
       comps (StateRoot l) @ [''runtime'', ''tmp'', ''minecraft-home'']}
      \<union> repair_area w inst \<union> excluded_area inst (ModrinthExcludeFiles p) \<union> credential_area inst)"

lemma comps_suffix:
  assumes "p \<noteq> []" "names (cs @ [c, c @ t])"
  shows "comps (path_join (p # cs @ [c]) @ t) = comps p @ cs @ [c @ t]"
proof -
  have ne: "comps p @ cs @ [c] \<noteq> []" "comps p @ cs @ [c @ t] \<noteq> []" by simp_all
  have snoc: "Join (xs @ [c]) [slash] @ t = Join (xs @ [c @ t]) [slash]" for xs
    by (cases "xs = []") (simp_all add: Join_snoc)
  have "path_join (p # cs @ [c]) @ t = path_text (IsAbs p) (comps p @ cs @ [c]) @ t"
    using path_join_list [OF assms(1), of "cs @ [c]"] path_join_text [OF assms(1), of "cs @ [c]"] assms(2) by simp
  also have "\<dots> = path_text (IsAbs p) (comps p @ cs @ [c @ t])"
    using ne snoc [of "comps p @ cs"] by (simp add: path_text_def)
  also have "\<dots> = path_join (p # cs @ [c @ t])"
    using path_join_list [OF assms(1), of "cs @ [c @ t]"] path_join_text [OF assms(1), of "cs @ [c @ t]"] assms(2) by simp
  finally show ?thesis using comps_join_list(1) [OF assms(1), of "cs @ [c @ t]"] assms(2) by simp
qed

lemma link_current_spares:
  assumes run: "link_current l inst w = (w', e)" and root: "StateRoot l \<noteq> []" "names (comps (StateRoot l))"
  shows "spares {comps (StateRoot l) @ [''runtime'', ''current''], comps (StateRoot l) @ [''runtime'', ''current.new'']} w w'"
proof -
  let ?c = "path_join [StateRoot l, ''runtime'', ''current'']" and ?R = "comps (StateRoot l)"
  let ?D = "{?R @ [''runtime'', ''current''], ?R @ [''runtime'', ''current.new'']}"
  have c: "comps ?c = ?R @ [''runtime'', ''current'']" "comps (path_dir ?c) = ?R @ [''runtime'']"
    using comps_join_list [OF root(1), of "[''runtime'', ''current'']"] by (simp_all add: name_ok_def)
  have t: "comps (?c @ ''.new'') = ?R @ [''runtime'', ''current.new'']"
    using comps_suffix [OF root(1), of "[''runtime'']" "''current''" "''.new''"] by (simp add: name_ok_def)
  have n: "names (comps ?c)" "names (comps (path_dir ?c))" "names (comps (?c @ ''.new''))"
    using c t root(2) by (simp_all add: name_ok_def)
  have D: "{comps ?c} \<subseteq> ?D" "{comps (?c @ ''.new'')} \<subseteq> ?D" "{comps (?c @ ''.new''), comps ?c} \<subseteq> ?D" using c t by simp_all
  consider "w' = w" | w1 w2 where "os_MkdirAll w (path_dir ?c) 0x1E8 = Inr w1"
      "w2 = w1 \<or> os_Remove w1 (?c @ ''.new'') = Inr w2"
      "w' = w2 \<or> (\<exists>w3. os_Symlink w2 inst (?c @ ''.new'') = Inr w3 \<and> (w' = w3 \<or> os_Rename w3 (?c @ ''.new'') ?c = Inr w'))"
    using run by (fastforce simp: link_current_def Let_def attempt_def split: sum.splits)
  then show ?thesis
  proof cases
    case (2 w1 w2)
    have 1: "spares ?D w w1" by (rule spares_MkdirAll [OF 2(1) n(2)])
    have "spares ?D w1 w2" using 2(2) spares_mono [OF spares_Remove [OF _ n(3)] D(2)] by auto
    then have 12: "spares ?D w w2" by (rule spares_trans [OF 1])
    show ?thesis using 2(3)
    proof
      assume "\<exists>w3. os_Symlink w2 inst (?c @ ''.new'') = Inr w3 \<and> (w' = w3 \<or> os_Rename w3 (?c @ ''.new'') ?c = Inr w')"
      then obtain w3 where w3: "os_Symlink w2 inst (?c @ ''.new'') = Inr w3" "w' = w3 \<or> os_Rename w3 (?c @ ''.new'') ?c = Inr w'"
        by blast
      have 3: "spares ?D w w3" by (rule spares_trans [OF 12 spares_mono [OF spares_Symlink [OF w3(1) n(3)] D(2)]])
      have "spares ?D w3 w'" using w3(2) spares_mono [OF spares_Rename [OF _ n(3,1)] D(3)] by auto
      then show ?thesis by (rule spares_trans [OF 3])
    qed (simp add: 12)
  qed simp
qed

lemma prepare_home_spares:
  assumes "prepare_home home w = (w', e)" "names (comps home)"
  shows "spares {comps home} w w'"
proof (cases "os_MkdirAll w home 0x1C0")
  case (Inr w1)
  have 1: "spares {comps home} w w1" by (rule spares_MkdirAll [OF Inr assms(2)])
  have "w' = w1 \<or> os_Chmod w1 home 0x1C0 = Inr w'"
    using assms(1) Inr by (auto simp: prepare_home_def split: option.splits sum.splits)
  then show ?thesis using 1 spares_trans [OF 1 spares_Chmod [OF _ assms(2)]] by auto
qed (use assms in \<open>auto simp: prepare_home_def\<close>)

text \<open>Running a step and then the rest, one step at a time.\<close>

definition settled :: "string list \<Rightarrow> world \<Rightarrow> bool" where
  "settled R w = (node_wf (w_root w) \<and> w_rand w = R)"

lemma settled_spares: "spares D w v \<Longrightarrow> settled R w \<Longrightarrow> settled R v"
  by (simp add: spares_def settled_def)

lemma try_then_spares:
  assumes "try_then r k = (w', res)" "settled R w" "\<And>v e. r = (v, e) \<Longrightarrow> spares D w v"
    "\<And>v. settled R v \<Longrightarrow> k v = (w', res) \<Longrightarrow> spares D v w'"
  shows "spares D w w'"
proof -
  obtain v e where r: "r = (v, e)" by (cases r)
  note 1 = assms(3) [OF r]
  show ?thesis
  proof (cases e)
    case None
    have "k v = (w', res)" using assms(1) r None by (simp add: try_then_def)
    then show ?thesis by (rule spares_trans [OF 1 assms(4) [OF settled_spares [OF 1 assms(2)]]])
  next
    case (Some err)
    then show ?thesis using assms(1) 1 r by (simp add: try_then_def)
  qed
qed

lemma repair_area_rand: "w_rand v = w_rand w \<Longrightarrow> repair_area v inst = repair_area w inst"
  by (simp add: repair_area_def)

text \<open>
  Whatever fails on the way, a launch changes nothing that exists outside its area.
\<close>

lemma launch_spares:
  assumes run: "ItzgLauncher_Start l u environ own exec w i p lp = (w', res)"
    and root: "StateRoot l \<noteq> []" "names (comps (StateRoot l))" and i: "name_ok i"
    and w: "node_wf (w_root w)" "rand_ok w"
  shows "spares (launch_area l w i p) w w'"
proof -
  let ?inst = "path_join [StateRoot l, ''instances'', i, ''server'']" and ?home = "path_join [StateRoot l, ''runtime'', ''tmp'', ''minecraft-home'']"
  let ?D = "launch_area l w i p"
  have c: "comps ?inst = comps (StateRoot l) @ [''instances'', i, ''server'']"
    "comps ?home = comps (StateRoot l) @ [''runtime'', ''tmp'', ''minecraft-home'']"
    using comps_join_list(1) [OF root(1), of "[''instances'', i, ''server'']"]
      comps_join_list(1) [OF root(1), of "[''runtime'', ''tmp'', ''minecraft-home'']"] i by (simp_all add: name_ok_def)
  have n: "names (comps ?inst)" "?inst \<noteq> []" "names (comps ?home)" using c root i by (auto simp: name_ok_def path_join_def)
  have st: "settled (w_rand w) w" using w by (simp add: settled_def)
  have D: "{comps (StateRoot l) @ [''runtime'', ''current''], comps (StateRoot l) @ [''runtime'', ''current.new'']} \<subseteq> ?D"
    "{comps ?home} \<subseteq> ?D" "repair_area w ?inst \<subseteq> ?D" "excluded_area ?inst (ModrinthExcludeFiles p) \<subseteq> ?D" "credential_area ?inst \<subseteq> ?D"
    using c(2) by (auto simp: launch_area_def Let_def)
  have link: "spares ?D v v'" if "link_current l ?inst v = (v', e)" for v v' e
    by (rule spares_mono [OF link_current_spares [OF that root] D(1)])
  have repair: "spares ?D v v'" if "(if b then repairModrinthServerPath v ?inst else (v, None)) = (v', e)" "settled (w_rand w) v" for v v' e b
  proof (cases b)
    case True
    then have "spares (repair_area v ?inst) v v'"
      using repair_spares [OF _ n(2,1)] that w(2) by (simp add: settled_def rand_ok_def)
    moreover have "repair_area v ?inst = repair_area w ?inst"
      by (rule repair_area_rand) (use that(2) in \<open>simp add: settled_def\<close>)
    ultimately show ?thesis using spares_mono [OF _ D(3)] by simp
  qed (use that in simp)
  have excl: "spares ?D v v'"
    if "(if b then removeModrinthExcludedFiles u v ?inst (ModrinthExcludeFiles p) else (v, None)) = (v', e)" "settled (w_rand w) v" for v v' e b
    using that spares_mono [OF excluded_spares [OF _ n(2,1)] D(4)] by (cases b) (auto simp: settled_def)
  have cred: "spares ?D v v'" if "removeRuntimeCredentialFiles u v ?inst = (v', e)" for v v' e
    by (rule spares_mono [OF credentials_spares [OF that n(2,1)] D(5)])
  have home: "spares ?D v v'" if "prepare_home ?home v = (v', e)" for v v' e
    by (rule spares_mono [OF prepare_home_spares [OF that n(3)] D(2)])
  have mk: "spares ?D v v'" if "attempt v (os_MkdirAll v ?inst 0x1E8) = (v', e)" for v v' e
    using that spares_MkdirAll [OF _ n(1)] by (auto simp: attempt_def split: sum.splits)
  show ?thesis
    apply (insert run [unfolded ItzgLauncher_Start_def Let_def case_prod_beta])
    apply (erule try_then_spares [OF _ st])
     apply (erule mk)
    apply (erule (1) try_then_spares, erule link)
    apply (simp split: sum.splits)
    apply (erule (1) try_then_spares, simp)
    apply (erule (1) try_then_spares, simp)
    apply (erule (1) try_then_spares, erule (1) repair)
    apply (erule (1) try_then_spares, erule (1) excl)
    apply (erule (1) try_then_spares, erule cred)
    apply (erule (1) try_then_spares, erule home)
    apply (simp split: option.splits)
    done
qed

lemma prefix_split:
  "take (length (as @ bs)) (as @ cs) = as @ bs \<longleftrightarrow> take (length bs) cs = bs"
  by simp

definition launch_spared :: "pack \<Rightarrow> string list \<Rightarrow> bool" where
  "launch_spared p es =
     (case es of
        [] \<Rightarrow> True
      | x # xs \<Rightarrow> x \<notin> {''.install-modrinth.env'', ''.rcon-cli.env'', ''.rcon-cli.yaml''}
          \<and> \<not> HasPrefix x ''.install-modrinth-repair-''
          \<and> \<not> (x = ''mods'' \<and> xs \<noteq> [] \<and> list_ex (Contains (hd xs)) (ModrinthExcludeFiles p)))"

lemma take_Suc_0_eq: "take (Suc 0) es = [x] \<longleftrightarrow> (\<exists>xs. es = x # xs)"
  by (cases es) auto

lemma launch_area_spared:
  assumes "StateRoot l \<noteq> []" "names (comps (StateRoot l))" "name_ok i" "T \<in> launch_area l w i p"
    "j \<noteq> i \<or> launch_spared p es"
  shows "take (length T) (comps (StateRoot l) @ [''instances'', j, ''server''] @ es) \<noteq> T"
proof -
  let ?R = "comps (StateRoot l)" and ?inst = "path_join [StateRoot l, ''instances'', i, ''server'']"
  have c: "comps ?inst = ?R @ [''instances'', i, ''server'']"
    using comps_join_list(1) [OF assms(1), of "[''instances'', i, ''server'']"] assms(3) by (simp add: name_ok_def)
  have low: "take (length T) (?R @ [''instances'', j, ''server''] @ es) \<noteq> T"
    if "T = ?R @ [''instances'', i, ''server''] @ xs" "launch_spared p es \<Longrightarrow> take (length xs) es \<noteq> xs" for xs
    using that assms(5) by (auto simp: prefix_split numeral_3_eq_3)
  have one: "take (length T) (?R @ [''instances'', j, ''server''] @ es) \<noteq> T"
    if "T = comps ?inst @ [x]" "\<And>xs. \<not> launch_spared p (x # xs)" for x
  proof (rule low [of "[x]"])
    show "T = ?R @ [''instances'', i, ''server''] @ [x]" using that(1) c by simp
    show "take (length [x]) es \<noteq> [x]" if "launch_spared p es"
      using that \<open>\<And>xs. \<not> launch_spared p (x # xs)\<close> by (auto simp: take_Suc_0_eq)
  qed
  have "T = ?R @ [''runtime'', ''current''] \<or> T = ?R @ [''runtime'', ''current.new'']
      \<or> T = ?R @ [''runtime'', ''tmp'', ''minecraft-home''] \<or> T \<in> repair_area w ?inst
      \<or> T \<in> excluded_area ?inst (ModrinthExcludeFiles p) \<or> T \<in> credential_area ?inst"
    using assms(4) unfolding launch_area_def Let_def by blast
  then consider x xs where "T = ?R @ ''runtime'' # x # xs" | "T \<in> repair_area w ?inst"
    | "T \<in> excluded_area ?inst (ModrinthExcludeFiles p)" | "T \<in> credential_area ?inst"
    by blast
  then show ?thesis
  proof cases
    case 2
    then consider "T = comps ?inst @ [''.install-modrinth.env'']" | r where "T = comps ?inst @ [''.install-modrinth-repair-'' @ r]"
      unfolding repair_area_def by blast
    then show ?thesis by cases (erule one, simp add: launch_spared_def HasPrefix_def)+
  next
    case 3
    then obtain x where x: "T = comps ?inst @ [''mods'', x]" "list_ex (Contains x) (ModrinthExcludeFiles p)"
      unfolding excluded_area_def by blast
    have "take (Suc (Suc 0)) es \<noteq> [''mods'', x]" if "launch_spared p es"
      using that x(2) by (cases es; cases "tl es") (auto simp: launch_spared_def)
    then show ?thesis using x(1) c by (intro low [of "[''mods'', x]"]) auto
  next
    case 4
    then consider "T = comps ?inst @ [''.rcon-cli.env'']" | "T = comps ?inst @ [''.rcon-cli.yaml'']"
      unfolding credential_area_def by blast
    then show ?thesis by cases (erule one, simp add: launch_spared_def)+
  qed (simp add: prefix_split)
qed


subsection \<open>What the server process is given\<close>

text \<open>The value a process sees: of entries with the same name, \<open>os/exec\<close> keeps the last.\<close>

definition env_value :: "string list \<Rightarrow> string \<Rightarrow> string option" where
  "env_value es name = map_option (drop (length name + 1)) (find (\<lambda>e. env_name e = name) (rev es))"

definition secret :: "string \<Rightarrow> bool" where
  "secret name =
     (name \<in> {''AWS_ACCESS_KEY_ID'', ''AWS_SECRET_ACCESS_KEY'', ''AWS_SESSION_TOKEN'', ''FLY_API_TOKEN'', ''FLY_TOKEN'',
        ''HOSTPACK_FLY_API_TOKEN''} \<or> HasPrefix name ''RCLONE_CONFIG_'')"

lemma childEnvironment_names:
  "e \<in> set (childEnvironment parent) \<longleftrightarrow> e \<in> set parent \<and> \<not> secret (env_name e) \<and> env_name e \<notin> {''HOME'', ''PWD''}"
  by (auto simp: childEnvironment_def blocked_names_def secret_def)

lemma Start_command:
  assumes "ItzgLauncher_Start l u environ own exec w i p lp = (w', Inr cmd)"
  shows "cmd_Env cmd = child_env l environ (path_join [StateRoot l, ''runtime'', ''tmp'', ''minecraft-home''])
      (path_join [StateRoot l, ''instances'', i, ''server'']) p lp"
    "cmd_Dir cmd = path_join [StateRoot l, ''instances'', i, ''server'']" "exec cmd = None"
  using assms unfolding ItzgLauncher_Start_def Let_def
  by (auto simp: try_then_def split: prod.splits option.splits sum.splits)

definition own_names :: "string list" where
  "own_names = [''HOME'', ''HOSTPACK_MINECRAFT_HOME'', ''PWD'', ''EULA'', ''SERVER_IP'', ''SERVER_PORT'', ''ENABLE_STATUS'', ''ONLINE_MODE'',
     ''ENABLE_RCON'', ''RCON_PORT'', ''RCON_PASSWORD'', ''MEMORY'', ''SKIP_CHOWN_DATA'', ''PATH'', ''JAVA_HOME'', ''TYPE'',
     ''MODRINTH_MODPACK'', ''MODRINTH_VERSION'', ''MODRINTH_EXCLUDE_FILES'', ''CF_SLUG'', ''CF_FILE_ID'']"

lemma own_names_safe: "list_all (\<lambda>n. \<not> secret n) own_names"
  by code_simp

lemma env_name_append: "CHR ''='' \<notin> set n \<Longrightarrow> env_name (n @ CHR ''='' # v) = n"
  by (simp add: env_name_def takeWhile_append)


subsection \<open>Excluded mods\<close>

lemma Remove_none:
  assumes "os_Remove w p = Inr w'"
  shows "stat_at (comps p) (w_root w') = None" "stat_at ds (w_root w') \<in> {None, stat_at ds (w_root w)}"
proof -
  obtain x n where x: "find_node (comps p) (w_root w) = Inr x" "w' = w\<lparr>w_root := n\<rparr>"
    "(case x of Dir _ (_ # _) \<Rightarrow> Inl ENOTEMPTY | _ \<Rightarrow> place (comps p) (\<lambda>_. None) (w_root w)) = Inr n"
    using assms by (auto simp: os_Remove_def on_tree_def and_then_eq_Inr split: option.splits)
  then have "place (comps p) (\<lambda>_. None) (w_root w) = Inr n" by (cases x) (auto split: list.splits)
  then have n: "parent_ok (comps p) (w_root w)" "n = change (comps p) (\<lambda>_. None) (w_root w)" by (auto simp: place_Inr)
  show "stat_at (comps p) (w_root w') = None" "stat_at ds (w_root w') \<in> {None, stat_at ds (w_root w)}"
    using stat_change [OF n(1), of _ "\<lambda>_. None"] n(2) x(2) by simp_all
qed

lemma remove_excluded_shrinks:
  "remove_excluded u mods patterns w es = (w', e) \<Longrightarrow> stat_at ds (w_root w') \<in> {None, stat_at ds (w_root w)}"
proof (induction u mods patterns w es arbitrary: w' rule: remove_excluded.induct)
  case (2 u mods patterns w name k es)
  consider "w' = w" | "remove_excluded u mods patterns w es = (w', e)" "w_fault w ''lstat'' (path_join [mods, name]) = None"
      "\<not> (is_regular k \<and> list_ex (Contains name) patterns)"
    | w1 where "os_Remove w (path_join [mods, name]) = Inr w1" "remove_excluded u mods patterns w1 es = (w', e)"
      "w_fault w ''lstat'' (path_join [mods, name]) = None" "is_regular k \<and> list_ex (Contains name) patterns"
    using 2(3) by (auto split: option.splits if_splits sum.splits)
  then show ?case
  proof cases
    case 2
    then show ?thesis using "2.IH"(2) by blast
  next
    case (3 w1)
    then show ?thesis using "2.IH"(1) [OF 3(3,4,1,2)] Remove_none(2) [OF 3(1), of ds] by auto
  qed simp
qed simp

lemma remove_excluded_gone:
  assumes "remove_excluded u mods patterns w es = (w', None)" "mods \<noteq> []" "\<forall>x\<in>set es. name_ok (fst x)"
    "(x, n) \<in> set es" "is_regular n" "list_ex (Contains x) patterns"
  shows "stat_at (comps mods @ [x]) (w_root w') = None"
  using assms
proof (induction u mods patterns w es arbitrary: w' rule: remove_excluded.induct)
  case (2 u mods patterns w name k es)
  let ?p = "path_join [mods, name]"
  have nf: "w_fault w ''lstat'' ?p = None" using 2(3) by (auto split: option.splits)
  show ?case
  proof (cases "is_regular k \<and> list_ex (Contains name) patterns")
    case True
    obtain w1 where w1: "os_Remove w ?p = Inr w1" "remove_excluded u mods patterns w1 es = (w', None)"
      using 2(3) nf True by (auto split: sum.splits)
    show ?thesis
    proof (cases "(x, n) = (name, k)")
      case same: True
      have "comps ?p = comps mods @ [name]" using 2(4,5) by (intro temp_comps) auto
      then have "stat_at (comps mods @ [x]) (w_root w1) = None" using Remove_none(1) [OF w1(1)] same by simp
      then show ?thesis using remove_excluded_shrinks [OF w1(2), of "comps mods @ [x]"] by auto
    next
      case False
      then show ?thesis using 2(1) [OF nf True w1(1,2)] 2(4-8) by auto
    qed
  next
    case False
    then have "(x, n) \<in> set es" "remove_excluded u mods patterns w es = (w', None)" using 2(3,6-8) nf by auto
    then show ?thesis using 2(2) [OF nf False] 2(4-8) by simp
  qed
qed simp

text \<open>
  When the removal of excluded mods succeeds, no regular file in the \<open>mods\<close> directory has a name that
  contains one of the patterns.
\<close>

theorem excluded_mods_removed:
  assumes "removeModrinthExcludedFiles u w inst patterns = (w', None)" "inst \<noteq> []" "node_wf (w_root w)"
    "\<forall>op p e. w_fault w op p = Some e \<longrightarrow> \<not> is_not_exist e" "list_ex (Contains x) patterns"
  shows "stat_at (comps inst @ [''mods'', x]) (w_root w') \<noteq> Some (SFile m b)"
proof
  assume f: "stat_at (comps inst @ [''mods'', x]) (w_root w') = Some (SFile m b)"
  let ?mods = "path_join [inst, ''mods'']"
  have c: "comps ?mods = comps inst @ [''mods'']" by (rule temp_comps [OF assms(2)]) (simp add: name_ok_def)
  have ne: "?mods \<noteq> []" by (auto simp: path_join_def)
  have f': "stat_at (comps ?mods @ [x]) (w_root w') = Some (SFile m b)" using f c by simp
  have pat: "patterns \<noteq> []" using assms(5) by auto
  show False
  proof (cases "os_ReadDir w ?mods")
    case (Inl e)
    then have w': "w' = w" "is_not_exist e"
      using assms(1) pat by (auto simp: removeModrinthExcludedFiles_def Let_def split: if_splits)
    obtain k where "lookup (comps ?mods @ [x]) (w_root w) = Some k" using f' w'(1) by (auto simp: stat_at_def)
    then obtain d where d: "lookup (comps ?mods) (w_root w) = Some d" "lookup [x] d = Some k"
      by (auto simp: lookup_append split: option.splits)
    then obtain dm es where "d = Dir dm es" by (cases d) auto
    then show False
      using Inl w'(2) assms(4) d(1) by (auto simp: os_ReadDir_def find_node_lookup [symmetric] split: option.splits)
  next
    case (Inr es)
    then have run: "remove_excluded u ?mods patterns w es = (w', None)"
      using assms(1) pat by (auto simp: removeModrinthExcludedFiles_def Let_def)
    obtain d where d: "find_node (comps ?mods) (w_root w) = Inr d"
      "(case d of Dir _ es \<Rightarrow> (case w_fault w ''readdir'' ?mods of Some e \<Rightarrow> Inl e | None \<Rightarrow> Inr (sort_key fst es))
          | _ \<Rightarrow> Inl ENOTDIR) = Inr es"
      using Inr by (auto simp: os_ReadDir_def and_then_eq_Inr split: option.splits)
    then obtain dm ds where ds: "d = Dir dm ds" "es = sort_key fst ds" by (cases d) (auto split: option.splits)
    have wfd: "node_wf (Dir dm ds)" using found_wf [OF d(1) assms(3)] ds(1) by simp
    have old: "stat_at (comps ?mods @ [x]) (w_root w) = Some (SFile m b)"
      using remove_excluded_shrinks [OF run, of "comps ?mods @ [x]"] f' by auto
    then obtain k where k: "map_of ds x = Some k" "shape_of k = SFile m b"
      using d(1) ds(1) by (auto simp: stat_at_def lookup_append find_node_lookup split: option.splits)
    then have "is_regular k" "(x, k) \<in> set es" using ds(2) map_of_SomeD by (cases k, fastforce+)
    moreover have "\<forall>x\<in>set es. name_ok (fst x)" using wfd ds(2) by (auto simp: list_all_iff)
    ultimately show False using remove_excluded_gone [OF run ne] assms(5) f' by simp
  qed
qed

subsection \<open>A launch of the sample pack\<close>

definition sample_launcher :: itzg_launcher where
  "sample_launcher = \<lparr>StateRoot = ''/state'', DataLink = ''/data'', StartCommand = [], RCONPassword = ''pw''\<rparr>"

definition sample_environ :: "string list" where
  "sample_environ = [''PATH=/bin'', ''HOME=/root'', ''FLY_API_TOKEN=t'', ''RCLONE_CONFIG_R_TYPE=s3'', ''TZ=UTC'']"

definition sample_instance :: world where
  "sample_instance = \<lparr>w_root = Dir 0x1ED [(''state'', Dir 0x1ED [(''instances'', Dir 0x1ED [(''vanilla'', Dir 0x1ED [(''server'',
       Dir 0x1ED [(''level.dat'', File 0x1A4 [1, 2, 3]), (''mods'', Dir 0x1ED [(''a.jar'', File 0x1A4 [4])])])])])])],
     w_fault = (\<lambda>_ _. None), w_rand = [''5''], w_umask = 0x12\<rparr>"

abbreviation sample_launch :: "world \<times> command result" where
  "sample_launch \<equiv> ItzgLauncher_Start sample_launcher sample_unicode sample_environ (\<lambda>_. (1000, 1000)) (\<lambda>_. None) sample_instance
     ''vanilla'' sample_pack sample_locked"

text \<open>The launch evaluated stage by stage.\<close>

abbreviation sample_server :: string where
  "sample_server \<equiv> path_join [StateRoot sample_launcher, ''instances'', ''vanilla'', ''server'']"

definition "launch1 = fst (attempt sample_instance (os_MkdirAll sample_instance sample_server 0x1E8))"
definition "launch2 = fst (link_current sample_launcher sample_server launch1)"
definition "launch3 = fst (repairModrinthServerPath launch2 sample_server)"
definition "launch4 = fst (removeModrinthExcludedFiles sample_unicode launch3 sample_server (ModrinthExcludeFiles sample_pack))"
definition "launch5 = fst (removeRuntimeCredentialFiles sample_unicode launch4 sample_server)"

lemma sample_stages:
  "snd (attempt sample_instance (os_MkdirAll sample_instance sample_server 0x1E8)) = None"
  "snd (link_current sample_launcher sample_server launch1) = None"
  "snd (repairModrinthServerPath launch2 sample_server) = None"
  "snd (removeModrinthExcludedFiles sample_unicode launch3 sample_server (ModrinthExcludeFiles sample_pack)) = None"
  "snd (removeRuntimeCredentialFiles sample_unicode launch4 sample_server) = None"
  "snd (prepare_home (path_join [StateRoot sample_launcher, ''runtime'', ''tmp'', ''minecraft-home'']) launch5) = None"
       apply code_simp
      apply code_simp
     apply code_simp
    apply code_simp
   apply code_simp
  apply code_simp
  done

lemma sample_ids:
  "childID sample_environ ''HOSTPACK_MINECRAFT_UID'' 1000 = Inr 1000" "childID sample_environ ''HOSTPACK_MINECRAFT_GID'' 1000 = Inr 1000"
  by (simp_all add: childID_def Getenv_def sample_environ_def HasPrefix_def ParseUint_def nat_to_string_def digits_rev.simps
      digit_val_def code_of_def)

lemma sample_owned:
  "os_Stat launch2 (path_dir sample_server) \<in> range Inr" "os_Stat launch2 sample_server \<in> range Inr"
proof -
  have "\<not> isl (os_Stat launch2 (path_dir sample_server))" "\<not> isl (os_Stat launch2 sample_server)" by code_simp+
  then show "os_Stat launch2 (path_dir sample_server) \<in> range Inr" "os_Stat launch2 sample_server \<in> range Inr"
    by (metis isl_def rangeI sum.exhaust_sel)+
qed

lemma sample_launch_ok: "\<exists>w' cmd. sample_launch = (w', Inr cmd)"
proof -
  have st: "attempt sample_instance (os_MkdirAll sample_instance sample_server 0x1E8) = (launch1, None)"
    "link_current sample_launcher sample_server launch1 = (launch2, None)"
    "repairModrinthServerPath launch2 sample_server = (launch3, None)"
    "removeModrinthExcludedFiles sample_unicode launch3 sample_server (ModrinthExcludeFiles sample_pack) = (launch4, None)"
    "removeRuntimeCredentialFiles sample_unicode launch4 sample_server = (launch5, None)"
    using sample_stages by (simp_all add: prod_eq_iff launch1_def launch2_def launch3_def launch4_def launch5_def)
  obtain w' where home: "prepare_home (path_join [StateRoot sample_launcher, ''runtime'', ''tmp'', ''minecraft-home'']) launch5 = (w', None)"
    using sample_stages(6) by (metis prod.collapse)
  have own: "ensureTreeOwner launch2 (\<lambda>_. (1000, 1000)) (path_dir sample_server) 1000 1000 = ([], None)"
    "ensureTreeOwner launch2 (\<lambda>_. (1000, 1000)) sample_server 1000 1000 = ([], None)"
    using sample_owned by (auto simp: ensureTreeOwner_def)
  have "Provider sample_pack = ''modrinth''" by (simp add: sample_pack_def)
  then show ?thesis
    unfolding ItzgLauncher_Start_def Let_def st(1) try_then_def
    by (simp add: st(2-5) sample_ids own home)
qed

lemma sample_instance_ok: "node_wf (w_root sample_instance)" "rand_ok sample_instance" "comps ''/state'' = [''state'']"
  by (simp_all add: sample_instance_def name_ok_def rand_ok_def all_digits_def code_of_def comps_def clean_step_def IsAbs_def HasPrefix_def)



theorem excluded_mods_removed_witness:
  "\<exists>w'. removeModrinthExcludedFiles sample_unicode sample_instance ''/state/instances/vanilla/server'' [''a.jar''] = (w', None)
     \<and> stat_at (comps ''/state/instances/vanilla/server'' @ [''mods'', ''a.jar'']) (w_root w') \<noteq> Some (SFile 0x1A4 [4])"
proof -
  have "snd (removeModrinthExcludedFiles sample_unicode sample_instance ''/state/instances/vanilla/server'' [''a.jar'']) = None"
    by code_simp
  then obtain w' where r: "removeModrinthExcludedFiles sample_unicode sample_instance ''/state/instances/vanilla/server'' [''a.jar''] = (w', None)"
    by (metis prod.collapse)
  have "\<forall>op p e. w_fault sample_instance op p = Some e \<longrightarrow> \<not> is_not_exist e" by (simp add: sample_instance_def)
  moreover have "list_ex (Contains ''a.jar'') [''a.jar'']" by code_simp
  ultimately show ?thesis using excluded_mods_removed [OF r _ sample_instance_ok(1)] r by blast
qed

end
