(* ===== verification/Supervisor.thy ===== *)
theory Supervisor
  imports Launcher
begin

text \<open>
  The supervisor as a transition system: any goroutine may run next, logins and signals arrive at any
  time, the disk starts or stops failing, the Minecraft server writes to its directory, and the supervisor
  may be killed and started again at any moment, also between the two uploads of a commit.
\<close>

record 's system =
  sys :: "'s manager"
  gos :: "goroutine multiset"

datatype event =
    Ran goroutine
  | Ensured string
  | Touched
  | ShutDown
  | Closed
  | Crashed
  | Torn string
  | Weather
  | Played string

definition answers_ok :: "answers \<Rightarrow> bool" where
  "answers_ok a = (is_ascii (a_now a) \<and> rfc3339 (a_now a))"

definition weather_ok :: "(string \<Rightarrow> string \<Rightarrow> go_error option) \<Rightarrow> string list \<Rightarrow> bool" where
  "weather_ok f rs = ((\<forall>op p e. f op p = Some e \<longrightarrow> \<not> is_not_exist e) \<and> (\<forall>r\<in>set rs. r \<noteq> [] \<and> all_digits r))"

inductive step :: "'s env \<Rightarrow> 's system \<Rightarrow> event \<Rightarrow> 's system \<Rightarrow> bool" for env where
  run: "g \<in># gos c \<Longrightarrow> answers_ok a \<Longrightarrow> go_step env a (sys c) g = (m, gs) \<Longrightarrow>
    step env c (Ran g) \<lparr>sys = m, gos = gos c - {#g#} + mset gs\<rparr>"
| ensure: "pack_of (e_cfg env) i \<noteq> None \<Longrightarrow> answers_ok a \<Longrightarrow> Ensure env a (sys c) i = (m, gs, r) \<Longrightarrow>
    step env c (Ensured i) \<lparr>sys = m, gos = gos c + mset gs\<rparr>"
| touch: "answers_ok a \<Longrightarrow> step env c Touched (c\<lparr>sys := Touch a (sys c)\<rparr>)"
| shutdown: "answers_ok a \<Longrightarrow> Shutdown env a (sys c) = (m, gs) \<Longrightarrow>
    step env c ShutDown \<lparr>sys = m, gos = gos c + mset gs\<rparr>"
| close: "step env c Closed (c\<lparr>sys := Close (sys c)\<rparr>)"
| crash: "answers_ok a \<Longrightarrow> NewManager env a (m_disk (sys c)) (m_store (sys c)) = (m, gs) \<Longrightarrow>
    step env c Crashed \<lparr>sys = m, gos = mset gs\<rparr>"
| torn: "Stop k (Committing i g) \<in># gos c \<Longrightarrow> Head (e_store env) (m_store (sys c)) i = Inr h \<Longrightarrow> \<not> conflicts h g \<Longrightarrow>
    writeArchive (e_codec env) (m_disk (sys c)) (server_dir env i) = Inr b \<Longrightarrow>
    be_Put (e_store env) (m_store (sys c)) (archive_key i (g + 1)) (Inr b) = (s, None, True) \<Longrightarrow>
    answers_ok a \<Longrightarrow> NewManager env a (m_disk (sys c)) s = (m, gs) \<Longrightarrow>
    step env c (Torn i) \<lparr>sys = m, gos = mset gs\<rparr>"
| weather: "weather_ok f rs \<Longrightarrow>
    step env c Weather (c\<lparr>sys := (sys c)\<lparr>m_disk := (m_disk (sys c))\<lparr>w_fault := f, w_rand := rs\<rparr>\<rparr>\<rparr>)"
| play: "pack_of (e_cfg env) i \<noteq> None \<Longrightarrow> outside (comps (server_dir env i)) (m_disk (sys c)) w \<Longrightarrow>
    step env c (Played i) (c\<lparr>sys := (sys c)\<lparr>m_disk := w\<rparr>\<rparr>)"

inductive_cases ran_cases: "step env c (Ran g) c'"

inductive steps :: "'s env \<Rightarrow> 's system \<Rightarrow> 's system \<Rightarrow> bool" for env c where
  stay: "steps env c c"
| move: "steps env c c' \<Longrightarrow> step env c' e c'' \<Longrightarrow> steps env c c''"

subsection \<open>The packs a supervisor works on\<close>

primrec caller_ids :: "caller \<Rightarrow> string set" where
  "caller_ids (Switching i) = {i}"
| "caller_ids (Idling i) = {i}"
| "caller_ids ShuttingDown = {}"

primrec stop_ids :: "stop_at \<Rightarrow> string set" where
  "stop_ids StopEntry = {}"
| "stop_ids (SaveAll i) = {i}"
| "stop_ids (ExpectStop i) = {i}"
| "stop_ids (SendStop i) = {i}"
| "stop_ids (StopRefused i e) = {i}"
| "stop_ids (Awaiting i d) = {i}"
| "stop_ids (CheckExit i) = {i}"
| "stop_ids (ReadGeneration i) = {i}"
| "stop_ids (Committing i g) = {i}"
| "stop_ids (Committed i r) = {i}"
| "stop_ids (Evicting i m) = {i}"

primrec ids_of :: "goroutine \<Rightarrow> string set" where
  "ids_of (Start i rec at) = {i}"
| "ids_of (WaitProcess p) = {}"
| "ids_of (Exited p e) = {}"
| "ids_of (Fail i e d) = {i}"
| "ids_of (SwitchTo i) = {i}"
| "ids_of (Stop c at) = caller_ids c \<union> stop_ids at"
| "ids_of (Stopped c e) = caller_ids c"
| "ids_of Monitor = {}"
| "ids_of Tick = {}"
| "ids_of (TickProbe i) = {i}"
| "ids_of (IdleDrain i) = {i}"

definition known :: "'s env \<Rightarrow> string set" where
  "known env = insert [] {i. pack_of (e_cfg env) i \<noteq> None}"

text \<open>
  Either every id in play is a configured pack (or none), or the state file named a pack that is not
  configured: then the supervisor only fails, and runs nothing, until a login finds it idle.
\<close>

definition strange :: "'s env \<Rightarrow> 's system \<Rightarrow> bool" where
  "strange env c =
     (let i = ActiveID (m_state (sys c)) in
      i \<notin> known env \<and> Phase (m_state (sys c)) \<in> {Idle, Recovering, Failed} \<and> m_process (sys c) = None
      \<and> (\<forall>g\<in>#gos c. g = Monitor \<or> g = Tick
           \<or> Phase (m_state (sys c)) \<noteq> Idle \<and> (g = Start i True Entry \<or> (\<exists>e d. g = Fail i e d))))"

definition ids_inv :: "'s env \<Rightarrow> 's system \<Rightarrow> bool" where
  "ids_inv env c =
     (ActiveID (m_state (sys c)) \<in> known env \<and> (\<forall>g\<in>#gos c. ids_of g \<subseteq> known env) \<or> strange env c)"

lemma update_state_simps [simp]:
  "m_state (update_state env a f m) = f (m_state m)" "m_process (update_state env a f m) = m_process m"
  "m_store (update_state env a f m) = m_store m" "m_expectedStop (update_state env a f m) = m_expectedStop m"
  "m_loginSeen (update_state env a f m) = m_loginSeen m" "m_done (update_state env a f m) = m_done m"
  "m_cancelled (update_state env a f m) = m_cancelled m"
  "m_disk (update_state env a f m) = fst (Save (state_path env) (a_now a) (m_disk m) (f (m_state m)))"
  by (simp_all add: update_state_def Let_def)

lemmas call_defs = fail_def waitProcess_exit_def signalDone_def switchTo_def tick_def tick_probe_def idle_drain_def
  Touch_def Close_def loading_state_def idle_state_def zero_state_def

lemma go_step_ids:
  assumes "go_step env a m g = (m', gs)" "ActiveID (m_state m) \<in> known env" "ids_of g \<subseteq> known env"
  shows "ActiveID (m_state m') \<in> known env \<and> (\<forall>g\<in>set gs. ids_of g \<subseteq> known env)"
proof (cases g)
  case (Start i rec at)
  then show ?thesis using assms
    by (cases at) (auto simp: Let_def split: if_splits sum.splits prod.splits option.splits)
next
  case (Stop c at)
  then show ?thesis using assms
    by (cases at) (auto simp: Let_def split: if_splits sum.splits prod.splits option.splits)
next
  case (Stopped c e)
  then show ?thesis using assms
    by (cases c; cases e) (auto simp: call_defs known_def split: if_splits)
qed (use assms in \<open>auto simp: call_defs Let_def split: if_splits sum.splits option.splits\<close>)

lemma go_step_store:
  assumes "go_step env a m g = (m', gs)" "\<And>k i n. g \<noteq> Stop k (Committing i n)"
  shows "m_store m' = m_store m"
proof (cases g)
  case (Start i rec at)
  then show ?thesis using assms
    by (cases at) (auto simp: Let_def split: if_splits sum.splits prod.splits option.splits)
next
  case (Stop c at)
  then show ?thesis using assms
    by (cases at) (auto simp: Let_def split: if_splits sum.splits prod.splits option.splits)
next
  case (Stopped c e)
  then show ?thesis using assms
    by (cases c; cases e) (auto simp: call_defs split: if_splits)
qed (use assms in \<open>auto simp: call_defs Let_def split: if_splits sum.splits option.splits\<close>)

lemma NewManager_ids:
  assumes "NewManager env a w s = (m, gs)"
  shows "ids_inv env \<lparr>sys = m, gos = mset gs\<rparr>" "m_store m = s"
  using assms by (auto simp: NewManager_def Let_def ids_inv_def strange_def known_def split: if_splits)

lemma step_ids: "step env c e c' \<Longrightarrow> ids_inv env c \<Longrightarrow> ids_inv env c'"
proof (induction rule: step.induct)
  case (run g c a m gs)
  show ?case
  proof (cases "strange env c")
    case True
    let ?i = "ActiveID (m_state (sys c))"
    have p: "pack_of (e_cfg env) ?i = None" "Phase (m_state (sys c)) \<in> {Idle, Recovering, Failed}"
      using True by (auto simp: strange_def known_def Let_def)
    have g: "g = Monitor \<or> g = Tick \<or> Phase (m_state (sys c)) \<noteq> Idle \<and> (g = Start ?i True Entry \<or> (\<exists>e d. g = Fail ?i e d))"
      using True run(1) by (auto simp: strange_def Let_def)
    have "ActiveID (m_state m) = ?i \<and> m_process m = m_process (sys c)
        \<and> Phase (m_state m) \<in> {Idle, Recovering, Failed} \<and> (Phase (m_state m) = Idle \<longrightarrow> Phase (m_state (sys c)) = Idle)
        \<and> (\<forall>g\<in>set gs. g = Monitor \<or> g = Tick \<or> Phase (m_state m) \<noteq> Idle \<and> (\<exists>e d. g = Fail ?i e d))"
      using g run(3) p by (auto simp: call_defs split: if_splits) blast+
    then show ?thesis using True unfolding ids_inv_def strange_def Let_def by (auto dest: in_diffD)
  next
    case False
    then have "ActiveID (m_state (sys c)) \<in> known env" "\<forall>g\<in>#gos c. ids_of g \<subseteq> known env"
      using run.prems by (auto simp: ids_inv_def)
    then have "ActiveID (m_state m) \<in> known env" "\<forall>g\<in>set gs. ids_of g \<subseteq> known env"
      and "\<forall>g'\<in>#gos c - {#g#}. ids_of g' \<subseteq> known env"
      using go_step_ids [OF run(3)] run(1) by (blast dest: in_diffD)+
    then have "\<forall>g'\<in>#gos c - {#g#} + mset gs. ids_of g' \<subseteq> known env" by (metis set_mset_mset union_iff)
    then show ?thesis using \<open>ActiveID (m_state m) \<in> known env\<close> unfolding ids_inv_def by simp
  qed
next
  case (ensure i a c m gs r)
  have new: "ids_of g \<subseteq> known env" if "g \<in> set gs" for g
    using ensure(1,3) that by (auto simp: Ensure_def Let_def known_def split: if_splits)
  show ?case
  proof (cases "strange env c")
    case True
    show ?thesis
    proof (cases "Phase (m_state (sys c)) = Idle")
      case idle: True
      then have "ActiveID (m_state m) \<in> known env" "\<forall>g\<in>#gos c. ids_of g = {}"
        using ensure(1,3) True by (auto simp: Ensure_def Let_def known_def loading_state_def strange_def)
      then show ?thesis using new by (auto simp: ids_inv_def)
    next
      case busy: False
      have "ActiveID (m_state (sys c)) \<notin> known env" "Phase (m_state (sys c)) \<in> {Idle, Recovering, Failed}"
        using True by (simp_all add: strange_def Let_def)
      then have "ActiveID (m_state (sys c)) \<noteq> i" "Phase (m_state (sys c)) \<noteq> Ready"
        using ensure(1) by (auto simp: known_def)
      then have "m_state m = m_state (sys c) \<and> gs = [] \<and> m_process m = m_process (sys c)"
        using ensure(3) busy by (auto simp: Ensure_def Let_def)
      then show ?thesis using True by (simp add: ids_inv_def strange_def)
    qed
  next
    case False
    then have "ActiveID (m_state (sys c)) \<in> known env" "\<forall>g\<in>#gos c. ids_of g \<subseteq> known env"
      using ensure.prems by (auto simp: ids_inv_def)
    moreover from this have "ActiveID (m_state m) \<in> known env"
      using ensure(1,3) by (auto simp: Ensure_def Let_def known_def call_defs split: if_splits)
    ultimately show ?thesis using new by (auto simp: ids_inv_def)
  qed
next
  case (shutdown a c m gs)
  show ?case
  proof (cases "m_process (sys c) = None")
    case True
    then have "m = sys c" "gs = []" using shutdown(2) by (auto simp: Shutdown_def)
    then show ?thesis using shutdown.prems by (simp add: ids_inv_def strange_def)
  next
    case False
    then have "\<not> strange env c" by (simp add: strange_def Let_def)
    then have "ActiveID (m_state (sys c)) \<in> known env" "\<forall>g\<in>#gos c. ids_of g \<subseteq> known env"
      using shutdown.prems by (auto simp: ids_inv_def)
    moreover have "ActiveID (m_state m) = ActiveID (m_state (sys c))" "\<forall>g\<in>set gs. ids_of g = {}"
      using shutdown(2) by (auto simp: Shutdown_def split: if_splits)
    ultimately show ?thesis by (auto simp: ids_inv_def)
  qed
next
  case (crash a c m gs)
  then show ?case by (simp add: NewManager_ids)
next
  case (torn k i g c h b s a m gs)
  then show ?case by (simp add: NewManager_ids)
qed (simp_all add: ids_inv_def strange_def Touch_def Close_def)

lemma NewManager_store: "NewManager env a w s = (m, gs) \<Longrightarrow> m_store m = s"
  by (rule NewManager_ids(2))

lemma committing_known:
  assumes "ids_inv env c" "Stop k (Committing i g) \<in># gos c"
  shows "i \<in> known env"
  using assms by (fastforce simp: ids_inv_def strange_def Let_def)

text \<open>The only transitions that touch the store.\<close>

lemma step_store:
  assumes "step env c e c'"
  obtains (same) "m_store (sys c') = m_store (sys c)"
    | (commit) k i g r and a :: answers where "e = Ran (Stop k (Committing i g))" "Stop k (Committing i g) \<in># gos c"
        "Commit (e_store env) (e_codec env) (e_digest env) (a_now a) (m_disk (sys c)) (m_store (sys c)) i (server_dir env i) g
           = (m_store (sys c'), r)"
    | (torn) k i g h b where "e = Torn i" "Stop k (Committing i g) \<in># gos c"
        "Head (e_store env) (m_store (sys c)) i = Inr h" "\<not> conflicts h g"
        "be_Put (e_store env) (m_store (sys c)) (archive_key i (g + 1)) (Inr b) = (m_store (sys c'), None, True)"
  using assms
proof (cases rule: step.cases)
  case (run g a m gs)
  show ?thesis
  proof (cases "\<exists>k i n. g = Stop k (Committing i n)")
    case True
    then obtain k i n where g: "g = Stop k (Committing i n)" by blast
    then show ?thesis using commit [of k i n a] run by (auto simp: case_prod_beta Let_def prod_eq_iff)
  next
    case False
    then show ?thesis using same go_step_store [OF run(5)] run by auto
  qed
next
  case (torn k i g h b s a m gs)
  have "m_store (sys c') = s" using torn(2) NewManager_store [OF torn(9)] by simp
  then show ?thesis using that(3) [of i k g h b] torn by simp
next
  case (ensure i a m gs r)
  then have "m_store m = m_store (sys c)" by (auto simp: Ensure_def Let_def split: if_splits)
  then show ?thesis using same ensure by simp
next
  case (shutdown a m gs)
  then have "m_store m = m_store (sys c)" by (auto simp: Shutdown_def split: if_splits)
  then show ?thesis using same shutdown by simp
next
  case (crash a m gs)
  then show ?thesis using same NewManager_store [OF crash(4)] by simp
qed (use same in \<open>simp_all add: Touch_def Close_def\<close>)

subsection \<open>Backups are permanent\<close>

text \<open>Every generation that is intact before is intact after, with the same manifest and the same archive.\<close>

definition keeps :: "(string \<Rightarrow> string \<Rightarrow> byte list option) \<Rightarrow> (string \<Rightarrow> string \<Rightarrow> byte list option) \<Rightarrow> bool" where
  "keeps v v' = (\<forall>i g m. name_ok i \<longrightarrow> intact (v i) i (manifest_name g) = Some m \<longrightarrow>
     intact (v' i) i (manifest_name g) = Some m \<and> v' i (archive_name g) = v i (archive_name g))"

lemma keeps_refl: "keeps v v"
  by (simp add: keeps_def)

lemma keeps_trans: "keeps u v \<Longrightarrow> keeps v w \<Longrightarrow> keeps u w"
  by (simp add: keeps_def)

definition names_ok :: "'s env \<Rightarrow> bool" where
  "names_ok env = (\<forall>i. pack_of (e_cfg env) i \<noteq> None \<longrightarrow> name_ok i)"

lemma dnsLabel_name: "dnsLabel i \<Longrightarrow> name_ok i"
  using dnsLabel_chars(3) [of i] by (auto simp: name_ok_def dnsLabel_def list_all_iff is_alnum_def code_of_def)

lemma validated_names:
  assumes "Validate u c = (e_cfg env, None)"
  shows "names_ok env"
proof -
  have "\<forall>ip\<in>set (Packs (e_cfg env)). pack_problems u (Capacity (e_cfg env)) ip = []"
    by (rule config_problems_Nil(9)) (use assms in \<open>simp add: Validate_def Let_def split: if_splits\<close>)
  then have "\<forall>ip\<in>set (Packs (e_cfg env)). dnsLabel (fst ip)" by (simp add: pack_problems_def Let_def)
  then show ?thesis by (auto simp: names_ok_def pack_of_def dest!: map_of_SomeD intro!: dnsLabel_name)
qed

definition all_filed :: "(string \<Rightarrow> string \<Rightarrow> byte list option) \<Rightarrow> bool" where
  "all_filed v = (\<forall>i. name_ok i \<longrightarrow> filed (v i) i)"

context backend_laws
begin

lemma keeps_same:
  assumes "all_filed (view s)" "\<forall>j y. name_ok j \<longrightarrow> view s' j y = view s j y"
  shows "all_filed (view s') \<and> keeps (view s) (view s')"
proof -
  have "view s' j = view s j" if "name_ok j" for j using assms(2) that by (auto simp: fun_eq_iff)
  then show ?thesis using assms(1) by (simp add: all_filed_def keeps_def)
qed

lemma put_anonymous_keeps:
  assumes "good s" "x = archive_name n \<or> x = manifest_name n" "be_Put be s (object_key [] x) st = (s', e, d)"
  shows "good s' \<and> (\<forall>j y. name_ok j \<longrightarrow> view s' j y = view s j y)"
  using good_anonymous [OF assms] put_anonymous [OF good_wf [OF assms(1)] assms(2,3)] by blast

lemma commit_anonymous:
  assumes "good s" "Commit be cd dg now w s [] source g = (s', r)"
  shows "good s' \<and> (\<forall>j y. name_ok j \<longrightarrow> view s' j y = view s j y)"
  using assms(2)
proof (cases rule: Commit_cases)
  case (archive head s1 ue d e)
  then show ?thesis using put_anonymous_keeps [OF assms(1) _ archive(3) [unfolded keys]] by simp
next
  case (manifest head s1 b d2 e)
  then show ?thesis
    using put_anonymous_keeps [OF assms(1) _ manifest(4) [unfolded keys]] put_anonymous_keeps [OF _ _ manifest(5) [unfolded keys]] by simp
next
  case (verified head s1 b d2)
  then show ?thesis
    using put_anonymous_keeps [OF assms(1) _ verified(4) [unfolded keys]] put_anonymous_keeps [OF _ _ verified(5) [unfolded keys]] by simp
qed (use assms(1) in auto)

lemma commit_keeps:
  assumes "good s" "all_filed (view s)" "i = [] \<or> name_ok i" "Commit be cd dg now w s i source g = (s', r)"
  shows "good s' \<and> all_filed (view s') \<and> keeps (view s) (view s')"
proof (cases "i = []")
  case True
  then show ?thesis using commit_anonymous [OF assms(1), of cd dg now w source g s' r] assms(4) keeps_same [OF assms(2)] by simp
next
  case False
  then have i: "name_ok i" using assms(3) by simp
  then have fl: "filed (view s i) i" using assms(2) by (simp add: all_filed_def)
  note p = commit_permanent [OF assms(1) i fl assms(4)]
  have other: "view s' j = view s j" if "name_ok j" "j \<noteq> i" for j
    using commit_keeps_objects [OF good_wf [OF assms(1)] i assms(4)] that by (auto simp: fun_eq_iff)
  have "filed (view s' j) j" if "name_ok j" for j
    using p(2) other [OF that] assms(2) that by (cases "j = i") (simp_all add: all_filed_def)
  moreover have "intact (view s' j) j (manifest_name n) = Some m \<and> view s' j (archive_name n) = view s j (archive_name n)"
    if "name_ok j" "intact (view s j) j (manifest_name n) = Some m" for j n m
    using p(3) other [OF that(1)] that(2) by (cases "j = i") simp_all
  ultimately show ?thesis using p(1) by (simp add: all_filed_def keeps_def)
qed

lemma torn_keeps:
  assumes "good s" "all_filed (view s)" "i = [] \<or> name_ok i" "Head be s i = Inr h" "\<not> conflicts h g"
    "be_Put be s (archive_key i (g + 1)) (Inr b) = (s', None, True)"
  shows "good s' \<and> all_filed (view s') \<and> keeps (view s) (view s')"
proof (cases "i = []")
  case True
  then show ?thesis
    using put_anonymous_keeps [OF assms(1), of "archive_name (g + 1)" "g + 1"] assms(6) keeps_same [OF assms(2)] by (simp add: keys)
next
  case False
  then have i: "name_ok i" using assms(3) by simp
  then have fl: "filed (view s i) i" using assms(2) by (simp add: all_filed_def)
  note p = torn_permanent [OF assms(1) i fl assms(4-6)]
  have other: "view s' j = view s j" if "name_ok j" "j \<noteq> i" for j
    using p(4) that by (auto simp: fun_eq_iff)
  have "filed (view s' j) j" if "name_ok j" for j
    using p(2) other [OF that] assms(2) that by (cases "j = i") (simp_all add: all_filed_def)
  moreover have "intact (view s' j) j (manifest_name n) = Some m \<and> view s' j (archive_name n) = view s j (archive_name n)"
    if "name_ok j" "intact (view s j) j (manifest_name n) = Some m" for j n m
    using p(3) other [OF that(1)] that(2) by (cases "j = i") simp_all
  ultimately show ?thesis using p(1) by (simp add: all_filed_def keeps_def)
qed

lemma step_keeps:
  assumes "step env c e c'" "e_store env = be" "names_ok env" "ids_inv env c"
    "good (m_store (sys c))" "all_filed (view (m_store (sys c)))"
  shows "good (m_store (sys c')) \<and> all_filed (view (m_store (sys c'))) \<and> keeps (view (m_store (sys c))) (view (m_store (sys c')))"
  using assms(1)
proof (cases rule: step_store)
  case same
  then show ?thesis using assms(5,6) by (simp add: keeps_refl)
next
  case (commit k i g r a)
  have "i = [] \<or> name_ok i"
    using committing_known [OF assms(4) commit(2)] assms(3) by (auto simp: known_def names_ok_def)
  then show ?thesis using commit_keeps [OF assms(5,6)] commit(3) assms(2) by blast
next
  case (torn k i g h b)
  have "i = [] \<or> name_ok i"
    using committing_known [OF assms(4) torn(2)] assms(3) by (auto simp: known_def names_ok_def)
  then show ?thesis using torn_keeps [OF assms(5,6)] torn(3-5) assms(2) by blast
qed

lemma steps_keeps:
  assumes "steps env c c'" "e_store env = be" "names_ok env" "ids_inv env c"
    "good (m_store (sys c))" "all_filed (view (m_store (sys c)))"
  shows "ids_inv env c' \<and> good (m_store (sys c')) \<and> all_filed (view (m_store (sys c')))
    \<and> keeps (view (m_store (sys c))) (view (m_store (sys c')))"
  using assms(1)
proof (induction rule: steps.induct)
  case stay
  show ?case using assms(4-6) by (simp add: keeps_refl)
next
  case (move c' e c'')
  then show ?case using step_keeps [OF move(2) assms(2,3)] step_ids [OF move(2)] keeps_trans by blast
qed

end

end
