(* ===== verification/World_Safety.thy ===== *)
theory World_Safety
  imports Supervisor
begin

text \<open>
  What the supervisor does to the worlds on the local disk: it restores into free places, and it deletes a
  world only when its backup is in the store. The launcher is used through the locale \<open>launcher\<close>,
  interpreted on \<open>ItzgLauncher_Start\<close>.
\<close>

subsection \<open>The interface of the launcher\<close>

definition disk_ok :: "world \<Rightarrow> bool" where
  "disk_ok w = (node_wf (w_root w) \<and> weather_ok (w_fault w) (w_rand w))"

lemma disk_ok_simps: "disk_ok w \<Longrightarrow> node_wf (w_root w)" "disk_ok w \<Longrightarrow> rand_ok w"
  by (simp_all add: disk_ok_def weather_ok_def rand_ok_def)

lemma disk_ok_spares: "spares D w w' \<Longrightarrow> disk_ok w \<Longrightarrow> disk_ok w'"
  by (simp add: disk_ok_def spares_def)

definition world_path :: "string \<Rightarrow> string \<Rightarrow> string list" where
  "world_path root i = comps root @ [''instances'', i, ''server'']"

definition root_ok :: "string \<Rightarrow> bool" where
  "root_ok root = clean_path root"

lemma root_ok_names: "root_ok root \<Longrightarrow> root \<noteq> [] \<and> names (comps root)"
  using Clean_not_Nil [of root] by (auto simp: root_ok_def clean_path_def)

locale launcher =
  fixes launch :: "world \<Rightarrow> string \<Rightarrow> pack \<Rightarrow> locked_pack \<Rightarrow> world \<times> go_error option"
    and root :: string
  assumes launch_ok: "launch w i p lp = (w', e) \<Longrightarrow> root_ok root \<Longrightarrow> name_ok i \<Longrightarrow> disk_ok w \<Longrightarrow> disk_ok w'"
    and launch_keeps: "launch w i p lp = (w', e) \<Longrightarrow> root_ok root \<Longrightarrow> name_ok i \<Longrightarrow> disk_ok w \<Longrightarrow>
      stat_at (world_path root j @ es) (w_root w) = Some s \<Longrightarrow> j \<noteq> i \<or> launch_spared p es \<Longrightarrow>
      stat_at (world_path root j @ es) (w_root w') = Some s"

definition launcher_of :: "itzg_launcher \<Rightarrow> unicode \<Rightarrow> string list \<Rightarrow> owners \<Rightarrow> (command \<Rightarrow> go_error option)
    \<Rightarrow> world \<Rightarrow> string \<Rightarrow> pack \<Rightarrow> locked_pack \<Rightarrow> world \<times> go_error option" where
  "launcher_of l u environ own exec w i p lp =
     (case ItzgLauncher_Start l u environ own exec w i p lp of
        (w', Inl e) \<Rightarrow> (w', Some e)
      | (w', Inr _) \<Rightarrow> (w', None))"

lemma launcher_of_Start:
  assumes "launcher_of l u environ own exec w i p lp = (w', e)"
  obtains res where "ItzgLauncher_Start l u environ own exec w i p lp = (w', res)"
  using assms by (auto simp: launcher_of_def split: prod.splits sum.splits)

interpretation itzg: launcher "launcher_of l u environ own exec" "StateRoot l" for l u environ own exec
proof
  fix w i p lp w' e j es s
  assume run: "launcher_of l u environ own exec w i p lp = (w', e)" and root: "root_ok (StateRoot l)" and i: "name_ok i" and w: "disk_ok w"
  obtain res where r: "ItzgLauncher_Start l u environ own exec w i p lp = (w', res)" using run by (rule launcher_of_Start)
  have rt: "StateRoot l \<noteq> []" "names (comps (StateRoot l))" using root_ok_names [OF root] by blast+
  note sp = launch_spares [OF r rt i disk_ok_simps [OF w]]
  show "disk_ok w'" by (rule disk_ok_spares [OF sp w])
  assume s: "stat_at (world_path (StateRoot l) j @ es) (w_root w) = Some s" "j \<noteq> i \<or> launch_spared p es"
  have "\<forall>T\<in>launch_area l w i p. take (length T) (world_path (StateRoot l) j @ es) \<noteq> T"
    using launch_area_spared [OF rt i _ s(2)] unfolding world_path_def append_assoc by blast
  then show "stat_at (world_path (StateRoot l) j @ es) (w_root w') = Some s"
    using sp s(1) unfolding spares_def by blast
qed

subsection \<open>Operations that keep every world\<close>

definition worlds_kept :: "string \<Rightarrow> world \<Rightarrow> world \<Rightarrow> bool" where
  "worlds_kept root w w' =
     (\<forall>j es s. stat_at (world_path root j @ es) (w_root w) = Some s \<longrightarrow> stat_at (world_path root j @ es) (w_root w') = Some s)"

lemma world_named: "disk_ok w \<Longrightarrow> stat_at (world_path root i @ es) (w_root w) = Some s \<Longrightarrow> name_ok i"
  using node_wf_lookup [of "w_root w" "world_path root i @ es"] by (auto simp: stat_at_def disk_ok_def world_path_def)

lemma worlds_kept_refl [simp]: "worlds_kept root w w"
  by (simp add: worlds_kept_def)

lemma worlds_kept_trans: "worlds_kept root w w' \<Longrightarrow> worlds_kept root w' w'' \<Longrightarrow> worlds_kept root w w''"
  by (simp add: worlds_kept_def)

text \<open>A change confined to places that are not on the way to a world.\<close>

lemma worlds_kept_spares:
  assumes "spares D w w'" "\<And>T. T \<in> D \<Longrightarrow> \<exists>a x xs. T = comps root @ a # x # xs \<and> (a \<noteq> ''instances'' \<or> (\<exists>y ys. xs = y # ys \<and> y \<noteq> ''server''))"
  shows "worlds_kept root w w'"
proof -
  have "take (length T) (world_path root j @ es) \<noteq> T" if TD: "T \<in> D" for T j es
  proof -
    obtain a x xs where T: "T = comps root @ a # x # xs" "a \<noteq> ''instances'' \<or> (\<exists>y ys. xs = y # ys \<and> y \<noteq> ''server'')"
      using assms(2) [OF TD] by blast
    show ?thesis
    proof (cases "a = ''instances''")
      case True
      then obtain y ys where "xs = y # ys" "y \<noteq> ''server''" using T(2) by blast
      then show ?thesis using T(1) by (simp add: world_path_def numeral_3_eq_3)
    qed (simp add: T(1) world_path_def)
  qed
  then show ?thesis using assms(1) unfolding spares_def worlds_kept_def by blast
qed

lemma below_root:
  assumes "root_ok root" "names cs" "cs \<noteq> []"
  shows "comps (path_join (root # cs)) = comps root @ cs" "clean_path (path_join (root # cs))" "path_join (root # cs) \<noteq> []"
proof -
  have r: "root \<noteq> []" "names (comps root @ cs)" using root_ok_names [OF assms(1)] assms(2) by auto
  show "comps (path_join (root # cs)) = comps root @ cs" by (rule comps_join_list(1) [OF r(1) assms(2,3)])
  show c: "clean_path (path_join (root # cs))"
    unfolding path_join_list [OF r(1) assms(2,3)] by (rule clean_path_join [OF r assms(3)])
  show "path_join (root # cs) \<noteq> []" using c Clean_not_Nil [of "path_join (root # cs)"] by (auto simp: clean_path_def)
qed

lemma paths:
  assumes "root_ok (e_root env)"
  shows "comps (state_path env) = comps (e_root env) @ [''runtime'', ''active.json'']" "clean_path (state_path env)"
    "name_ok i \<Longrightarrow> comps (instance_root env i) = comps (e_root env) @ [''instances'', i]"
    "name_ok i \<Longrightarrow> clean_path (instance_root env i)" "name_ok i \<Longrightarrow> instance_root env i \<noteq> []"
    "name_ok i \<Longrightarrow> comps (server_dir env i) = world_path (e_root env) i"
    "name_ok i \<Longrightarrow> clean_path (server_dir env i)"
proof -
  show "comps (state_path env) = comps (e_root env) @ [''runtime'', ''active.json'']" "clean_path (state_path env)"
    using below_root(1,2) [OF assms, of "[''runtime'', ''active.json'']"] by (simp_all add: state_path_def name_ok_def)
  assume i: "name_ok i"
  then have n: "names [''instances'', i]" by (simp add: name_ok_def)
  show c: "comps (instance_root env i) = comps (e_root env) @ [''instances'', i]" and "clean_path (instance_root env i)"
    and ne: "instance_root env i \<noteq> []"
    using below_root [OF assms n] by (simp_all add: instance_root_def)
  have sv: "names [''server'']" by (simp add: name_ok_def)
  show "comps (server_dir env i) = world_path (e_root env) i"
    using comps_join_list(1) [OF ne sv] c by (simp add: server_dir_def world_path_def)
  have "names (comps (instance_root env i) @ [''server''])" using c n sv root_ok_names [OF assms] by auto
  then show "clean_path (server_dir env i)"
    using clean_path_join [OF ne, of "[''server'']"] by (simp add: server_dir_def)
qed

text \<open>The directory of the empty id is that of a pack named \<open>server\<close>.\<close>

lemma anonymous_dir:
  assumes "root_ok (e_root env)"
  shows "comps (server_dir env []) = comps (e_root env) @ [''instances'', ''server'']" "clean_path (server_dir env [])"
proof -
  have n: "names [''instances'']" "names [''server'']" by (simp_all add: name_ok_def)
  have r: "instance_root env [] = path_join [e_root env, ''instances'']" by (simp add: instance_root_def path_join_def)
  note b = below_root [OF assms n(1)]
  show "comps (server_dir env []) = comps (e_root env) @ [''instances'', ''server'']"
    using comps_join_list(1) [OF b(3) n(2)] b(1) by (simp add: server_dir_def r)
  have "names (comps (path_join [e_root env, ''instances'']) @ [''server''])" using b(1) n root_ok_names [OF assms] by auto
  then show "clean_path (server_dir env [])" using clean_path_join [OF b(3), of "[''server'']"] by (simp add: server_dir_def r)
qed

lemma Save_worlds:
  assumes "root_ok (e_root env)" "disk_ok w" "Save (state_path env) now w st = (w', e)"
  shows "disk_ok w' \<and> worlds_kept (e_root env) w w'"
proof -
  have ok: "state_path_ok (state_path env) w"
    using paths(1,2) [OF assms(1)] assms(2) by (auto simp: state_path_ok_def disk_ok_def weather_ok_def)
  note sv = Save_any [OF ok assms(3)]
  have sp: "spares (state_area (state_path env) w) w w'" using sv(1-5) by (simp add: spares_def)
  have "\<exists>a x xs. T = comps (e_root env) @ a # x # xs \<and> (a \<noteq> ''instances'' \<or> (\<exists>y ys. xs = y # ys \<and> y \<noteq> ''server''))"
    if "T \<in> state_area (state_path env) w" for T
    using that paths(1) [OF assms(1)] by (auto simp: state_area_def temps_def butlast_append)
  from worlds_kept_spares [OF sp this] disk_ok_spares [OF sp assms(2)] show ?thesis by blast
qed

lemma identity_worlds:
  assumes "root_ok (e_root env)" "name_ok i" "disk_ok w" "ensureInstanceIdentity w (instance_root env i) l = (w', e)"
  shows "disk_ok w' \<and> worlds_kept (e_root env) w w'"
proof -
  let ?r = "instance_root env i" and ?p = "path_join [instance_root env i, ''pack.lock.json'']"
  note pr = paths(3-5) [OF assms(1,2)]
  have c: "comps ?p = comps (e_root env) @ [''instances'', i, ''pack.lock.json'']"
    using comps_join_list(1) [OF pr(3), of "[''pack.lock.json'']"] pr(1) by (simp add: name_ok_def)
  have n: "names (comps ?r)" using pr(2) by (simp add: clean_path_def)
  consider "w' = w" | w1 b where "os_MkdirAll w ?r 0x1E8 = Inr w1" "replace_file w1 ?r ''.pack-lock-'' ?p b = (w', e)"
    | w1 where "os_MkdirAll w ?r 0x1E8 = Inr w1" "w' = w1"
    using assms(4) by (auto simp: ensureInstanceIdentity_def Let_def split: sum.splits option.splits if_splits)
  then show ?thesis
  proof cases
    case (2 w1 b)
    have s1: "spares {} w w1" by (rule spares_MkdirAll [OF 2(1) n])
    have w1: "disk_ok w1" by (rule disk_ok_spares [OF s1 assms(3)])
    have t: "target_ok w1 ?r ''.pack-lock-'' ?p"
    proof -
      have "name_ok (''.pack-lock-'' @ r) \<and> ''.pack-lock-'' @ r \<noteq> ''pack.lock.json''" if "r \<in> set (w_rand w1)" for r
        using that w1 by (intro conjI temp_name_ok) (auto simp: disk_ok_def weather_ok_def)
      then show ?thesis using c pr n by (simp add: target_ok_def name_ok_def butlast_append)
    qed
    have "elsewhere (insert (comps ?p) (temps w1 ''.pack-lock-'' ?p)) w1 w'"
      using replace_file_any [OF t 2(2)] elsewhere_mono [of "temps w1 ''.pack-lock-'' ?p" w1 w'] by (auto split: option.splits)
    then have s2: "spares (insert (comps ?p) (temps w1 ''.pack-lock-'' ?p)) w1 w'" by (rule spares_elsewhere)
    have sp: "spares (insert (comps ?p) (temps w1 ''.pack-lock-'' ?p)) w w'"
      by (rule spares_trans [OF spares_mono [OF s1] s2]) simp
    have "\<exists>a x xs. T = comps (e_root env) @ a # x # xs \<and> (a \<noteq> ''instances'' \<or> (\<exists>y ys. xs = y # ys \<and> y \<noteq> ''server''))"
      if "T \<in> insert (comps ?p) (temps w1 ''.pack-lock-'' ?p)" for T
      using that c by (auto simp: temps_def butlast_append)
    from worlds_kept_spares [OF sp this] disk_ok_spares [OF sp assms(3)] show ?thesis by blast
  next
    case (3 w1)
    have s1: "spares {} w w'" using spares_MkdirAll [OF 3(1) n] 3(2) by simp
    show ?thesis using disk_ok_spares [OF s1 assms(3)] worlds_kept_spares [OF s1, of "e_root env"] by simp
  qed (use assms(3) in simp)
qed

lemma RemoveAll_spares:
  assumes "os_RemoveAll w p = Inr w'" "names (comps p)"
  shows "spares {comps p} w w'"
  using assms spares_change [of "comps p" w "\<lambda>_. None"]
  by (auto simp: os_RemoveAll_def on_tree_def remove_node_def and_then_eq_Inr place_Inr split: option.splits if_splits)

lemma Restore_settled:
  assumes dest: "clean_path destination" and w: "disk_ok w" and run: "Restore be u cd s w i destination = (w', res)"
  shows "disk_ok w'"
proof -
  have nd: "names (comps destination)" "names (comps (path_dir destination))"
    using dest dir_of_clean [OF dest] by (auto simp: clean_path_def dest: in_set_butlastD)
  consider "w' = w" | w1 where "os_MkdirAll w (path_dir destination) 0x1E8 = Inr w1" "w' = w1"
    | m and r :: reader and w1 w2 tmp w3 where "os_MkdirAll w (path_dir destination) 0x1E8 = Inr w1"
        "os_MkdirTemp w1 (path_dir destination) ''.restore-'' = Inr (w2, tmp)"
        "restore_archive u cd w2 tmp destination m (rd_data r) = (w3, res)" "w' = cleanup w3 tmp"
    using run unfolding Restore_def by (auto simp: Let_def split: sum.splits option.splits prod.splits)
  then show ?thesis
  proof cases
    case (2 w1)
    then show ?thesis using disk_ok_spares [OF spares_MkdirAll [OF 2(1) nd(2)] w] by simp
  next
    case (3 m r w1 w2 tmp w3)
    have w1: "disk_ok w1" by (rule disk_ok_spares [OF spares_MkdirAll [OF 3(1) nd(2)] w])
    note t = MkdirTemp_new [OF 3(2)]
    obtain rr where rr: "rr \<in> set (w_rand w1)" "tmp = path_join [path_dir destination, ''.restore-'' @ rr]" using t(6) by blast
    have tmp: "clean_path tmp"
      using temp_beside(1) [OF dest restore_name_ok] w1 rr by (auto simp: disk_ok_def weather_ok_def)
    then have nt: "names (comps tmp)" by (simp add: clean_path_def)
    have "spares {comps tmp} w1 w2" unfolding t(4) by (rule spares_change [OF t(5) nt]) simp
    then have w2: "disk_ok w2" by (rule disk_ok_spares [OF _ w1])
    obtain hs de cons w4 ee where dec: "cd_decode cd (rd_data r) = (hs, de, cons)" and ex: "extract_all u tmp w2 hs = (w4, ee)"
      by (metis prod_cases3 surj_pair)
    have o: "outside (comps tmp) w2 w4" by (rule extract_all_confined [OF tmp _ ex]) (simp add: t(2))
    then have w4: "disk_ok w4" using w2 by (simp add: outside_def disk_ok_def)
    have "w3 = w4 \<or> os_Rename w4 tmp destination = Inr w3"
      using 3(3) dec ex by (auto simp: restore_archive_def install_restored_def split: option.splits if_splits sum.splits)
    then have w3: "disk_ok w3" using w4 disk_ok_spares [OF spares_Rename [OF _ nt nd(1)] w4] by auto
    have "w' = w3 \<or> os_RemoveAll w3 tmp = Inr w'" using 3(4) by (auto simp: cleanup_def split: sum.splits)
    then show ?thesis using w3 disk_ok_spares [OF RemoveAll_spares [OF _ nt] w3] by auto
  qed (use w in simp)
qed

lemma Restore_worlds:
  assumes "root_ok (e_root env)" "name_ok i" "disk_ok w" "Restore be u cd s w i (server_dir env i) = (w', res)"
  shows "disk_ok w' \<and> worlds_kept (e_root env) w w'"
proof -
  have "kept w w'"
    by (rule Restore_kept [OF paths(7) [OF assms(1,2)] _ _ assms(4)]) (use assms(3) in \<open>auto simp: disk_ok_def weather_ok_def\<close>)
  then show ?thesis
    using Restore_settled [OF paths(7) [OF assms(1,2)] assms(3,4)] by (simp add: kept_def worlds_kept_def)
qed

lemma prepare_worlds:
  assumes "root_ok (e_root env)" "name_ok i" "disk_ok (m_disk m)" "prepare_instance env m i = (w', r)"
  shows "disk_ok w' \<and> worlds_kept (e_root env) (m_disk m) w'"
proof -
  have "\<exists>w1. (w1 = m_disk m \<or> (\<exists>res. Restore (e_store env) (e_unicode env) (e_codec env) (m_store m) (m_disk m) i (server_dir env i) = (w1, res)))
      \<and> (w' = w1 \<or> (\<exists>e. ensureInstanceIdentity w1 (instance_root env i) (locked env i) = (w', e)))"
    using assms(4) by (fastforce simp: prepare_instance_def Let_def split: sum.splits option.splits if_splits prod.splits)
  then obtain w1 where w1: "w1 = m_disk m \<or> (\<exists>res. Restore (e_store env) (e_unicode env) (e_codec env) (m_store m) (m_disk m) i (server_dir env i) = (w1, res))"
    "w' = w1 \<or> (\<exists>e. ensureInstanceIdentity w1 (instance_root env i) (locked env i) = (w', e))"
    by blast
  have 1: "disk_ok w1 \<and> worlds_kept (e_root env) (m_disk m) w1"
    using w1(1) assms(3) Restore_worlds [OF assms(1-3), of "e_store env"] by (elim disjE exE) (simp, blast)
  have "disk_ok w' \<and> worlds_kept (e_root env) w1 w'"
    using w1(2) 1 identity_worlds [OF assms(1,2)] by (elim disjE exE) (simp, blast)
  then show ?thesis using 1 worlds_kept_trans by blast
qed

lemma update_state_worlds:
  assumes "root_ok (e_root env)" "disk_ok (m_disk m)"
  shows "disk_ok (m_disk (update_state env a f m)) \<and> worlds_kept (e_root env) (m_disk m) (m_disk (update_state env a f m))"
  using Save_worlds [OF assms] by (metis prod.collapse update_state_simps(8))

text \<open>Every step leaves the disk alone or saves the state, but for three.\<close>

lemma go_step_disk:
  assumes "go_step env a m g = (m', gs)" "\<And>i rec. g \<noteq> Start i rec Preparing" "\<And>i rec. g \<noteq> Start i rec Launching"
    "\<And>k i mf. g \<noteq> Stop k (Evicting i mf)"
  shows "m_disk m' = m_disk m \<or> (\<exists>f. m_disk m' = m_disk (update_state env a f m))"
proof (cases g)
  case (Start i rec at)
  then show ?thesis using assms(1-3)
    by (cases at) (auto simp: Let_def split: if_splits sum.splits prod.splits option.splits)
next
  case (Stop c at)
  then show ?thesis using assms(1,4)
    by (cases at) (auto simp: Let_def split: if_splits sum.splits prod.splits option.splits)
next
  case (Stopped c e)
  then show ?thesis using assms(1)
    by (cases c; cases e) (auto simp: call_defs split: if_splits)
next
  case (Exited p e)
  have "m_disk (update_state env a f (m\<lparr>m_process := None\<rparr>)) = m_disk (update_state env a f m)" for f by simp
  then show ?thesis using assms(1) Exited by (auto simp: waitProcess_exit_def Let_def split: if_splits)
next
  case (Fail i e d)
  then show ?thesis using assms(1) by (auto simp: fail_def signalDone_def)
next
  case (TickProbe i)
  then show ?thesis using assms(1) by (auto simp: tick_probe_def Let_def split: sum.splits)
next
  case (IdleDrain i)
  then show ?thesis using assms(1) by (auto simp: idle_drain_def split: if_splits)
next
  case (SwitchTo i)
  then show ?thesis using assms(1) by (auto simp: switchTo_def split: if_splits)
next
  case Tick
  then show ?thesis using assms(1) by (auto simp: tick_def signalDone_def split: if_splits)
qed (use assms(1) in auto)

definition lives :: "'s env \<Rightarrow> goroutine \<Rightarrow> world \<Rightarrow> world \<Rightarrow> bool" where
  "lives env g w w' =
     (\<forall>j es s. stat_at (world_path (e_root env) j @ es) (w_root w) = Some s \<longrightarrow>
        stat_at (world_path (e_root env) j @ es) (w_root w') = Some s
        \<or> (\<exists>rec. g = Start j rec Launching) \<and> \<not> launch_spared (cfg_pack env j) es \<or> (\<exists>k mf. g = Stop k (Evicting j mf))
        \<or> j = ''server'' \<and> (\<exists>k mf. g = Stop k (Evicting [] mf)))"

lemma livesD:
  assumes "lives env g w w'" "stat_at (world_path (e_root env) j @ es) (w_root w) = Some s" "stat_at (world_path (e_root env) j @ es) (w_root w') \<noteq> Some s"
  shows "(\<exists>rec. g = Start j rec Launching) \<and> \<not> launch_spared (cfg_pack env j) es \<or> (\<exists>k mf. g = Stop k (Evicting j mf))
    \<or> j = ''server'' \<and> (\<exists>k mf. g = Stop k (Evicting [] mf))"
  using assms(1) [unfolded lives_def, rule_format, OF assms(2)] assms(3) by argo

lemma lives_kept: "worlds_kept (e_root env) w w' \<Longrightarrow> lives env g w w'"
  by (simp add: worlds_kept_def lives_def)

context launcher
begin

lemma go_step_worlds:
  assumes env: "e_launch env = launch" "e_root env = root" "root_ok root" and m: "disk_ok (m_disk m)"
    and run: "go_step env a m g = (m', gs)"
    and ids: "\<And>i rec at. g = Start i rec at \<Longrightarrow> at \<noteq> Entry \<Longrightarrow> name_ok i" "\<And>k i mf. g = Stop k (Evicting i mf) \<Longrightarrow> i = [] \<or> name_ok i"
  shows "disk_ok (m_disk m') \<and> lives env g (m_disk m) (m_disk m')"
proof -
  have ro: "root_ok (e_root env)" using env by simp
  consider (prep) i rec where "g = Start i rec Preparing" | (launch) i rec where "g = Start i rec Launching"
    | (evict) k i mf where "g = Stop k (Evicting i mf)" | (other) "\<And>i rec. g \<noteq> Start i rec Preparing" "\<And>i rec. g \<noteq> Start i rec Launching"
      "\<And>k i mf. g \<noteq> Stop k (Evicting i mf)"
    by blast
  then show ?thesis
  proof cases
    case (prep i rec)
    obtain w r where p: "prepare_instance env m i = (w, r)" by (cases "prepare_instance env m i")
    have "m_disk m' = w" using run prep p by (auto split: sum.splits)
    then show ?thesis using prepare_worlds [OF ro ids(1) [OF prep] m p] lives_kept [of env "m_disk m" w g] by simp
  next
    case (launch i rec)
    obtain w e where l: "launch (m_disk m) i (cfg_pack env i) (locked env i) = (w, e)"
      by (cases "launch (m_disk m) i (cfg_pack env i) (locked env i)")
    have i: "name_ok i" using ids(1) [OF launch] by simp
    have "m_disk m' = w" using run launch l env(1) by (auto split: option.splits)
    moreover have "lives env g (m_disk m) w"
      unfolding lives_def env(2) using launch_keeps [OF l env(3) i m] launch by auto
    ultimately show ?thesis using launch_ok [OF l env(3) i m] by simp
  next
    case (evict k i mf)
    have i: "i = [] \<or> name_ok i" by (rule ids(2) [OF evict])
    have n: "names (comps (server_dir env i))" using i paths(7) [OF ro, of i] anonymous_dir(2) [OF ro] by (auto simp: clean_path_def)
    show ?thesis
    proof (cases "os_RemoveAll (m_disk m) (server_dir env i)")
      case (Inr w)
      then have w: "m_disk m' = w" using run evict by auto
      note sp = RemoveAll_spares [OF Inr n]
      have keep: "stat_at (world_path (e_root env) j @ es) (w_root w) = Some s"
        if "j \<noteq> i" "i = [] \<longrightarrow> j \<noteq> ''server''" "stat_at (world_path (e_root env) j @ es) (w_root (m_disk m)) = Some s" for j es s
      proof -
        have "take (length (comps (server_dir env i))) (world_path (e_root env) j @ es) \<noteq> comps (server_dir env i)"
          using that(1,2) i anonymous_dir(1) [OF ro] paths(6) [OF ro, of i] by (auto simp: world_path_def)
        then show ?thesis using sp that(3) unfolding spares_def by blast
      qed
      have "lives env g (m_disk m) w"
        unfolding lives_def
      proof (intro allI impI)
        fix j es s assume x: "stat_at (world_path (e_root env) j @ es) (w_root (m_disk m)) = Some s"
        show "stat_at (world_path (e_root env) j @ es) (w_root w) = Some s
          \<or> (\<exists>rec. g = Start j rec Launching) \<and> \<not> launch_spared (cfg_pack env j) es \<or> (\<exists>k mf. g = Stop k (Evicting j mf))
          \<or> j = ''server'' \<and> (\<exists>k mf. g = Stop k (Evicting [] mf))"
          using keep [OF _ _ x] evict by (cases "j = i"; cases "i = []"; cases "j = ''server''") simp_all
      qed
      then show ?thesis using disk_ok_spares [OF sp m] w by simp
    qed (use run evict m in \<open>auto simp: lives_def\<close>)
  next
    case other
    then show ?thesis
      using go_step_disk [OF run other] update_state_worlds [OF ro m] m lives_kept [of env "m_disk m"] worlds_kept_refl by metis
  qed
qed

end

subsection \<open>Goroutines past their checks\<close>

definition started :: "'s system \<Rightarrow> bool" where
  "started c = (\<forall>i rec at. Start i rec at \<in># gos c \<longrightarrow> at \<noteq> Entry \<longrightarrow> name_ok i)"

definition evict_ok :: "(string \<Rightarrow> string \<Rightarrow> byte list option) \<Rightarrow> 's system \<Rightarrow> bool" where
  "evict_ok v c =
     (\<forall>k i mf. Stop k (Committed i (Inr mf)) \<in># gos c \<or> Stop k (Evicting i mf) \<in># gos c \<longrightarrow>
        i = [] \<or> name_ok i \<and> intact (v i) i (manifest_name (Generation mf)) = Some mf)"

lemma go_step_new:
  assumes "go_step env a m g = (m', gs)"
  shows "Start i rec at \<in> set gs \<Longrightarrow> at \<noteq> Entry \<Longrightarrow> \<exists>at0. g = Start i rec at0 \<and> (at0 = Entry \<longrightarrow> pack_of (e_cfg env) i \<noteq> None)"
    "Stop k (Evicting i mf) \<in> set gs \<Longrightarrow> g = Stop k (Committed i (Inr mf))"
    "Stop k (Committed i r) \<in> set gs \<Longrightarrow> \<exists>n. g = Stop k (Committing i n)
       \<and> Commit (e_store env) (e_codec env) (e_digest env) (a_now a) (m_disk m) (m_store m) i (server_dir env i) n = (m_store m', r)"
proof -
  have "(Start i rec at \<in> set gs \<longrightarrow> at \<noteq> Entry \<longrightarrow> (\<exists>at0. g = Start i rec at0 \<and> (at0 = Entry \<longrightarrow> pack_of (e_cfg env) i \<noteq> None)))
    \<and> (Stop k (Evicting i mf) \<in> set gs \<longrightarrow> g = Stop k (Committed i (Inr mf)))
    \<and> (Stop k (Committed i r) \<in> set gs \<longrightarrow> (\<exists>n. g = Stop k (Committing i n)
       \<and> Commit (e_store env) (e_codec env) (e_digest env) (a_now a) (m_disk m) (m_store m) i (server_dir env i) n = (m_store m', r)))"
  proof (cases g)
    case (Start i0 rec0 at0)
    then show ?thesis using assms
      by (cases at0) (auto simp: Let_def split: if_splits sum.splits prod.splits option.splits)
  next
    case (Stop c at0)
    then show ?thesis using assms
      by (cases at0) (auto simp: Let_def split: if_splits sum.splits prod.splits option.splits)
  next
    case (Stopped c e)
    then show ?thesis using assms by (cases c; cases e) (auto split: if_splits)
  qed (use assms in \<open>auto simp: switchTo_def tick_def tick_probe_def idle_drain_def Let_def split: if_splits sum.splits option.splits\<close>)
  then show "Start i rec at \<in> set gs \<Longrightarrow> at \<noteq> Entry \<Longrightarrow> \<exists>at0. g = Start i rec at0 \<and> (at0 = Entry \<longrightarrow> pack_of (e_cfg env) i \<noteq> None)"
    "Stop k (Evicting i mf) \<in> set gs \<Longrightarrow> g = Stop k (Committed i (Inr mf))"
    "Stop k (Committed i r) \<in> set gs \<Longrightarrow> \<exists>n. g = Stop k (Committing i n)
       \<and> Commit (e_store env) (e_codec env) (e_digest env) (a_now a) (m_disk m) (m_store m) i (server_dir env i) n = (m_store m', r)"
    by blast+
qed

text \<open>The goroutines of a new state: old ones, what a goroutine continued as, and fresh starts and stops.\<close>

definition fresh :: "goroutine \<Rightarrow> bool" where
  "fresh g = (case g of Start i rec at \<Rightarrow> at = Entry | Stop k at \<Rightarrow> at = StopEntry | _ \<Rightarrow> True)"

lemma calls_fresh:
  "Ensure env a m i = (m', gs, r) \<Longrightarrow> g \<in> set gs \<Longrightarrow> fresh g" "Shutdown env a m = (m', gs) \<Longrightarrow> g \<in> set gs \<Longrightarrow> fresh g"
  "NewManager env a w s = (m', gs) \<Longrightarrow> g \<in> set gs \<Longrightarrow> fresh g"
  by (auto simp: Ensure_def Shutdown_def NewManager_def Let_def fresh_def split: if_splits)

lemma step_gos:
  assumes "step env c e c'" "g \<in># gos c'"
  obtains "g \<in># gos c" | "fresh g"
    | a g0 gs where "answers_ok a" "e = Ran g0" "g0 \<in># gos c" "go_step env a (sys c) g0 = (sys c', gs)" "g \<in> set gs"
  using assms
proof (cases rule: step.cases)
  case (run g0 a m gs)
  have "g \<in># gos c - {#g0#} + mset gs" using assms(2) run(2) by simp
  then have "g \<in># gos c \<or> g \<in> set gs" by (metis in_diffD set_mset_mset union_iff)
  then show ?thesis using that(1) that(3) [of a g0 gs] run by auto
next
  case (ensure i a m gs r)
  then show ?thesis using that(1,2) calls_fresh(1) [OF ensure(5)] assms(2) by auto
next
  case (shutdown a m gs)
  then show ?thesis using that(1,2) calls_fresh(2) [OF shutdown(4)] assms(2) by auto
next
  case (crash a m gs)
  then show ?thesis using that(2) calls_fresh(3) [OF crash(4)] assms(2) by auto
next
  case (torn k i g h b s a m gs)
  then show ?thesis using that(2) calls_fresh(3) [OF torn(9)] assms(2) by auto
qed (use that(1) assms(2) in auto)

lemma step_started:
  assumes "step env c e c'" "started c" "names_ok env"
  shows "started c'"
  unfolding started_def
proof (intro allI impI)
  fix i rec at assume g: "Start i rec at \<in># gos c'" and ne: "at \<noteq> Entry"
  show "name_ok i"
    using assms(1) g
  proof (cases rule: step_gos)
    case (3 a g0 gs)
    obtain at0 where "g0 = Start i rec at0" "at0 = Entry \<longrightarrow> pack_of (e_cfg env) i \<noteq> None"
      using go_step_new(1) [OF 3(4,5) ne] by blast
    then show ?thesis using 3(3) assms(2,3) by (cases "at0 = Entry") (auto simp: started_def names_ok_def)
  qed (use assms(2) ne in \<open>auto simp: started_def fresh_def\<close>)
qed

context backend_laws
begin

lemma commit_intact:
  assumes "good s" "all_filed (view s)" "i = [] \<or> name_ok i" "Commit be cd dg now w s i source g = (s', Inr mf)"
  shows "i = [] \<or> name_ok i \<and> intact (view s' i) i (manifest_name (Generation mf)) = Some mf"
proof (cases "i = []")
  case False
  then have i: "name_ok i" using assms(3) by simp
  note k = commit_keeps [OF assms]
  have "Head be s' i = Inr (Some mf)" using commit_sound [OF good_wf [OF assms(1)] i assms(4)] by blast
  then have "newest (view s' i) i (Some mf)" using head_newest [of s' i] k i by (auto simp: all_filed_def)
  then show ?thesis using i by (simp add: newest_def)
qed simp

lemma step_evict:
  assumes st: "step env c e c'" and env: "e_store env = be" "names_ok env" and inv: "ids_inv env c"
    and store: "good (m_store (sys c))" "all_filed (view (m_store (sys c)))" and ok: "evict_ok (view (m_store (sys c))) c"
  shows "evict_ok (view (m_store (sys c'))) c'"
proof -
  have k: "keeps (view (m_store (sys c))) (view (m_store (sys c')))" using step_keeps [OF st env inv store] by blast
  have old: "i = [] \<or> name_ok i \<and> intact (view (m_store (sys c')) i) i (manifest_name (Generation mf)) = Some mf"
    if "Stop k (Committed i (Inr mf)) \<in># gos c \<or> Stop k (Evicting i mf) \<in># gos c" for k i mf
    using ok k that unfolding evict_ok_def keeps_def by blast
  have "i = [] \<or> name_ok i \<and> intact (view (m_store (sys c')) i) i (manifest_name (Generation mf)) = Some mf"
    if g: "Stop k (Evicting i mf) \<in># gos c'" for k i mf
    using st g
  proof (cases rule: step_gos)
    case (3 a g0 gs)
    then show ?thesis using old go_step_new(2) [OF 3(4,5)] by blast
  qed (use old in \<open>auto simp: fresh_def\<close>)
  moreover have "i = [] \<or> name_ok i \<and> intact (view (m_store (sys c')) i) i (manifest_name (Generation mf)) = Some mf"
    if g: "Stop k (Committed i (Inr mf)) \<in># gos c'" for k i mf
    using st g
  proof (cases rule: step_gos)
    case (3 a g0 gs)
    obtain n where n: "g0 = Stop k (Committing i n)"
      "Commit be (e_codec env) (e_digest env) (a_now a) (m_disk (sys c)) (m_store (sys c)) i (server_dir env i) n = (m_store (sys c'), Inr mf)"
      using go_step_new(3) [OF 3(4,5)] env(1) by blast
    have "i = [] \<or> name_ok i"
      using committing_known [OF inv, of k i n] 3(3) n(1) env(2) by (auto simp: known_def names_ok_def)
    then show ?thesis by (rule commit_intact [OF store _ n(2)])
  qed (use old in \<open>auto simp: fresh_def\<close>)
  ultimately show ?thesis unfolding evict_ok_def by blast
qed

end

subsection \<open>Worlds are deleted only after their backup\<close>

lemma weather_disk_ok: "disk_ok w \<Longrightarrow> weather_ok f rs \<Longrightarrow> disk_ok (w\<lparr>w_fault := f, w_rand := rs\<rparr>)"
  by (simp add: disk_ok_def)

lemma play_disk_ok: "outside T w w' \<Longrightarrow> disk_ok w \<Longrightarrow> disk_ok w'"
  by (simp add: outside_def disk_ok_def)

lemma NewManager_worlds:
  assumes "NewManager env a w s = (m, gs)" "root_ok (e_root env)" "disk_ok w"
  shows "disk_ok (m_disk m) \<and> worlds_kept (e_root env) w (m_disk m)"
proof -
  let ?m = "\<lparr>m_state = fst (Load (state_path env) w), m_process = None, m_expectedStop = False, m_lastActivity = instant (a_now a),
    m_loginSeen = False, m_done = False, m_cancelled = False, m_disk = w, m_store = s\<rparr>"
  have "m = ?m \<or> (\<exists>f. m = update_state env a f ?m)"
    using assms(1) by (auto simp: NewManager_def Let_def split: if_splits)
  then show ?thesis using assms(3) update_state_worlds [OF assms(2), of ?m a] by auto
qed

context launcher
begin

lemma step_worlds:
  assumes st: "step env c e c'" and env: "e_launch env = launch" "e_root env = root" "root_ok root"
    and inv: "started c" "disk_ok (m_disk (sys c))" "evict_ok v c"
  shows "disk_ok (m_disk (sys c'))
    \<and> (\<forall>g. e = Ran g \<longrightarrow> lives env g (m_disk (sys c)) (m_disk (sys c')))
    \<and> ((\<nexists>g. e = Ran g) \<longrightarrow> (\<nexists>i. e = Played i) \<longrightarrow> worlds_kept root (m_disk (sys c)) (m_disk (sys c')))"
proof -
  have ro: "root_ok (e_root env)" using env by simp
  have call: "disk_ok (m_disk m') \<and> worlds_kept root w0 (m_disk m')"
    if "m_disk m' = m_disk m \<or> (\<exists>f. m_disk m' = m_disk (update_state env a f m))" "m_disk m = w0" "disk_ok w0" for m' m :: "'a manager" and a w0
    using that update_state_worlds [OF ro, of m a] env(2) by auto
  show ?thesis
    using st
  proof (cases rule: step.cases)
    case (run g a m gs)
    have "disk_ok (m_disk m) \<and> lives env g (m_disk (sys c)) (m_disk m)"
    proof (rule go_step_worlds [OF env inv(2) run(5)])
      show "name_ok i" if "g = Start i rec at" "at \<noteq> Entry" for i rec at
        using inv(1) run(3) that unfolding started_def by blast
      show "i = [] \<or> name_ok i" if "g = Stop k (Evicting i mf)" for k i mf
        using inv(3) run(3) that unfolding evict_ok_def by blast
    qed
    then show ?thesis using run by simp
  next
    case (ensure i a m gs r)
    have "m_disk m = m_disk (sys c) \<or> (\<exists>f. m_disk m = m_disk (update_state env a f (sys c)))"
      using ensure(5) by (auto simp: Ensure_def Let_def split: if_splits)
    then show ?thesis using call [OF _ refl inv(2)] ensure by auto
  next
    case (shutdown a m gs)
    have "m_disk m = m_disk (sys c) \<or> (\<exists>f. m_disk m = m_disk (update_state env a f (sys c)))"
      using shutdown(4) by (auto simp: Shutdown_def split: if_splits)
    then show ?thesis using call [OF _ refl inv(2)] shutdown by auto
  next
    case (crash a m gs)
    then show ?thesis using NewManager_worlds [OF crash(4) ro inv(2)] env(2) by auto
  next
    case (torn k i g h b s a m gs)
    then show ?thesis using NewManager_worlds [OF torn(9) ro inv(2)] env(2) by auto
  next
    case (weather f rs)
    then show ?thesis using weather_disk_ok [OF inv(2)] by (auto simp: worlds_kept_def)
  next
    case (play i w)
    then show ?thesis using play_disk_ok [OF _ inv(2)] by auto
  qed (use inv(2) in \<open>simp_all add: Touch_def Close_def\<close>)
qed

end

text \<open>
  A supervisor with the daemon's launcher, on a store whose objects are given by \<open>view\<close> and which works (\<open>good\<close>).
\<close>

definition sound_state :: "'s env \<Rightarrow> ('s \<Rightarrow> string \<Rightarrow> string \<Rightarrow> byte list option) \<Rightarrow> ('s \<Rightarrow> bool) \<Rightarrow> 's system \<Rightarrow> bool" where
  "sound_state env view good c =
     (ids_inv env c \<and> started c \<and> disk_ok (m_disk (sys c)) \<and> good (m_store (sys c))
      \<and> all_filed (view (m_store (sys c))) \<and> evict_ok (view (m_store (sys c))) c)"

definition daemon :: "'s env \<Rightarrow> itzg_launcher \<Rightarrow> bool" where
  "daemon env l =
     ((\<exists>u environ own exec. e_launch env = launcher_of l u environ own exec)
      \<and> e_root env = StateRoot l \<and> root_ok (StateRoot l) \<and> names_ok env)"

context backend_laws
begin

lemma step_sound:
  assumes d: "e_store env = be" "daemon env l" and st: "step env c e c'" and inv: "sound_state env view good c"
  shows "sound_state env view good c'"
proof -
  obtain u environ own exec where env: "e_launch env = launcher_of l u environ own exec"
    "e_root env = StateRoot l" "root_ok (StateRoot l)" "names_ok env"
    using d(2) by (auto simp: daemon_def)
  have i: "ids_inv env c" "started c" "disk_ok (m_disk (sys c))" "good (m_store (sys c))"
    "all_filed (view (m_store (sys c)))" "evict_ok (view (m_store (sys c))) c"
    using inv by (simp_all add: sound_state_def)
  show ?thesis
    using step_ids [OF st i(1)] step_started [OF st i(2) env(4)] itzg.step_worlds [OF st env(1-3) i(2,3,6)]
      step_keeps [OF st d(1) env(4) i(1,4,5)] step_evict [OF st d(1) env(4) i(1,4-6)]
    by (simp add: sound_state_def)
qed

lemma steps_sound:
  "steps env c c' \<Longrightarrow> e_store env = be \<Longrightarrow> daemon env l \<Longrightarrow> sound_state env view good c \<Longrightarrow> sound_state env view good c'"
  by (induction rule: steps.induct) (auto intro: step_sound)

end

lemma NewManager_sound:
  assumes "daemon env l" "good s" "all_filed (view s)" "disk_ok w" "NewManager env a w s = (m, gs)"
  shows "sound_state env view good \<lparr>sys = m, gos = mset gs\<rparr>"
proof -
  have "root_ok (e_root env)" using assms(1) by (auto simp: daemon_def)
  moreover have "started \<lparr>sys = m, gos = mset gs\<rparr>" "evict_ok v \<lparr>sys = m, gos = mset gs\<rparr>" for v
    using calls_fresh(3) [OF assms(5)] by (fastforce simp: started_def evict_ok_def fresh_def)+
  ultimately show ?thesis
    using NewManager_ids [OF assms(5)] NewManager_worlds [OF assms(5) _ assms(4)] assms(2,3) by (simp add: sound_state_def)
qed


subsection \<open>Backups survive\<close>



subsection \<open>A sample daemon\<close>

definition sample_env :: "world env" where
  "sample_env = \<lparr>e_cfg = valid_sample, e_lock = sample_lock, e_store = NewFilesystem ''/backups'', e_codec = sample_codec,
     e_unicode = sample_unicode, e_digest = None,
     e_launch = launcher_of sample_launcher sample_unicode sample_environ (\<lambda>_. (1000, 1000)) (\<lambda>_. None),
     e_sizer = False, e_root = ''/state'', e_rcon = \<lparr>Address = ''127.0.0.1:25575'', Password = ''pw''\<rparr>\<rparr>"

definition sample_answers :: answers where
  "sample_answers = \<lparr>a_now = ''2024-05-06T07:08:09Z'', a_sizer = Inr False, a_dial = Inl EOF, a_pid = 7, a_exit = None, a_timeout = False\<rparr>"

definition sample_disk :: world where
  "sample_disk = \<lparr>w_root = Dir 0x1ED [(''state'', Dir 0x1ED [(''instances'', Dir 0x1ED [(''vanilla'', Dir 0x1ED [(''server'', sample_tree)])])])],
     w_fault = (\<lambda>_ _. None), w_rand = [''5''], w_umask = 0x12\<rparr>"

lemma sample_answers_ok: "answers_ok sample_answers"
proof -
  have "rfc3339 ''2024-05-06T07:08:09Z''" "is_ascii ''2024-05-06T07:08:09Z''" by code_simp+
  then show ?thesis by (simp add: answers_ok_def sample_answers_def)
qed

lemma sample_root: "root_ok ''/state''"
proof -
  have c: "comps ''/state'' = [''state'']" by (rule sample_instance_ok(3))
  show ?thesis unfolding root_ok_def clean_path_def Clean_def c by (simp add: path_text_def IsAbs_def HasPrefix_def name_ok_def)
qed

lemma sample_valid: "Validate sample_unicode sample_config = (e_cfg sample_env, None)"
  by (simp add: sample_env_def sample_config_valid)

lemma sample_laws: "backend_laws (e_store sample_env) (fs_view ''/backups'') (fs_wf ''/backups'') (fs_good ''/backups'')"
  using fs.backend_laws_axioms by (simp add: sample_env_def)

lemma sample_daemon: "daemon sample_env sample_launcher"
  using validated_names [OF sample_valid] sample_root
  by (auto simp: daemon_def sample_env_def sample_launcher_def)

lemma sample_disk_ok: "disk_ok sample_disk"
  by (simp add: disk_ok_def weather_ok_def sample_disk_def sample_tree_def name_ok_def all_digits_def code_of_def)

lemma sample_store_filed: "all_filed (fs_view ''/backups'' empty_disk)"
  by (simp add: all_filed_def empty_filed)

lemma sample_store:
  obtains s where "fs_good ''/backups'' s" "all_filed (fs_view ''/backups'' s)"
    "intact (fs_view ''/backups'' s ''vanilla'') ''vanilla'' (manifest_name 1) = Some (new_manifest None ''2024-05-06T07:08:09Z'' ''vanilla'' 1 [9, 9])"
    "fs_view ''/backups'' s ''vanilla'' (archive_name 1) = Some [9, 9]"
proof -
  obtain s where s: "Commit (NewFilesystem ''/backups'') sample_codec None ''2024-05-06T07:08:09Z'' sample_world empty_disk
     ''vanilla'' ''/data'' 0 = (s, Inr (new_manifest None ''2024-05-06T07:08:09Z'' ''vanilla'' 1 [9, 9]))" by (rule sample_commit)
  show ?thesis
    using that [of s] fs.commit_keeps [OF empty_disk_good sample_store_filed _ s] fs.commit_intact [OF empty_disk_good sample_store_filed _ s]
      fs.commit_sound [OF empty_disk_wf sample_id s] sample_archive sample_id
    by (simp add: new_manifest_def)
qed

lemma sample_played:
  "outside (comps (server_dir sample_env ''vanilla'')) sample_disk
     (sample_disk\<lparr>w_root := change (comps (server_dir sample_env ''vanilla'') @ [''level.dat'']) (\<lambda>_. Some (File 0x1A4 [7])) (w_root sample_disk)\<rparr>)"
proof (rule outside_change)
  have c: "comps (server_dir sample_env ''vanilla'') = [''state'', ''instances'', ''vanilla'', ''server'']"
    using paths(6) [of sample_env "''vanilla''"] sample_root sample_id sample_instance_ok(3) by (simp add: sample_env_def world_path_def)
  show "parent_ok (comps (server_dir sample_env ''vanilla'') @ [''level.dat'']) (w_root sample_disk)"
    by (simp add: c parent_ok_def sample_disk_def sample_tree_def)
  show "\<forall>c\<in>set (comps (server_dir sample_env ''vanilla'') @ [''level.dat'']). name_ok c" by (simp add: c name_ok_def)
qed auto


text \<open>The supervisor may be killed at any moment.\<close>

lemma sample_crash: "\<exists>c'. step sample_env c Crashed c'"
proof -
  obtain m gs where "NewManager sample_env sample_answers (m_disk (sys c)) (m_store (sys c)) = (m, gs)"
    by (cases "NewManager sample_env sample_answers (m_disk (sys c)) (m_store (sys c))")
  then show ?thesis using step.crash [OF sample_answers_ok] by blast
qed


lemma sample_disk_archive: "writeArchive sample_codec sample_disk (server_dir sample_env ''vanilla'') = Inr [9, 9]"
proof -
  have c: "comps (server_dir sample_env ''vanilla'') = [''state'', ''instances'', ''vanilla'', ''server'']"
    using paths(6) [of sample_env "''vanilla''"] sample_root sample_id sample_instance_ok(3) by (simp add: sample_env_def world_path_def)
  have "cd_encode sample_codec (map (\<lambda>(cs, k). node_entry (rel_text cs) k) (archived sample_tree)) = Inr [9, 9]"
    using writeArchive_entries [of sample_world "''/data''" sample_tree sample_codec] sample_archive sample_find by (simp add: sample_world_def)
  then show ?thesis
    using writeArchive_entries [of sample_disk "server_dir sample_env ''vanilla''" sample_tree sample_codec]
    by (simp add: c sample_disk_def)
qed


end
