(* ===== verification/Object_Store.thy ===== *)
theory Object_Store
  imports Archive_Restore
begin

text \<open>
  The S3 backend of \<open>internal/store/s3.go\<close> keeps the contract of a backend, on every object store that works
  the way S3 documents it: a \<open>PutObject\<close> stores the whole object or nothing, and reading and listing see every
  object that was stored. The keys of the backend are joined with a prefix by \<open>path.Join\<close>, which also cuts the
  slash at the end of the prefix that is listed.
\<close>

subsection \<open>The object store\<close>

text \<open>
  \<open>objects c k\<close> is the object under key \<open>k\<close> of the bucket, \<open>up c\<close> says that the service answers. A \<open>PutObject\<close>
  that reports an error may have stored the object all the same: its answer may be lost.
\<close>

definition object_laws :: "'c object_client \<Rightarrow> string \<Rightarrow> ('c \<Rightarrow> string \<Rightarrow> byte list option) \<Rightarrow> ('c \<Rightarrow> bool) \<Rightarrow> bool" where
  "object_laws oc bucket objects up =
     ((\<forall>c p. up c \<longrightarrow> (\<exists>ks. oc_ListObjects oc c bucket p = map Inr ks \<and> set ks = {k. HasPrefix k p \<and> objects c k \<noteq> None}))
    \<and> (\<forall>c k b. up c \<longrightarrow> objects c k = Some b \<longrightarrow> oc_GetObject oc c bucket k = Inr \<lparr>rd_data = b, rd_err = None, rd_close = None\<rparr>)
    \<and> (\<forall>c k. up c \<longrightarrow> objects c k = None \<longrightarrow> (\<exists>e. oc_GetObject oc c bucket k = Inl e))
    \<and> (\<forall>c k st c' e d. oc_PutObject oc c bucket k st = (c', e, d) \<longrightarrow>
         (\<forall>k'. k' \<noteq> k \<longrightarrow> objects c' k' = objects c k')
         \<and> (case e of None \<Rightarrow> \<exists>b. st = Inr b \<and> objects c' k = Some b
             | Some _ \<Rightarrow> objects c' k = objects c k \<or> (\<exists>b. st = Inr b \<and> objects c' k = Some b)))
    \<and> (\<forall>c k b. up c \<longrightarrow> (\<exists>c'. oc_PutObject oc c bucket k (Inr b) = (c', None, True) \<and> up c'))
    \<and> (\<forall>c k err c' e d. up c \<longrightarrow> oc_PutObject oc c bucket k (Inl err) = (c', e, d) \<longrightarrow> up c'))"

lemma object_lawsD:
  assumes "object_laws oc bucket objects up"
  shows "up c \<Longrightarrow> \<exists>ks. oc_ListObjects oc c bucket p = map Inr ks \<and> set ks = {k. HasPrefix k p \<and> objects c k \<noteq> None}"
    "up c \<Longrightarrow> objects c k = Some b \<Longrightarrow> oc_GetObject oc c bucket k = Inr \<lparr>rd_data = b, rd_err = None, rd_close = None\<rparr>"
    "up c \<Longrightarrow> objects c k = None \<Longrightarrow> \<exists>e. oc_GetObject oc c bucket k = Inl e"
    "oc_PutObject oc c bucket k st = (c', e, d) \<Longrightarrow>
         (\<forall>k'. k' \<noteq> k \<longrightarrow> objects c' k' = objects c k')
         \<and> (case e of None \<Rightarrow> \<exists>b. st = Inr b \<and> objects c' k = Some b
             | Some _ \<Rightarrow> objects c' k = objects c k \<or> (\<exists>b. st = Inr b \<and> objects c' k = Some b))"
    "up c \<Longrightarrow> \<exists>c'. oc_PutObject oc c bucket k (Inr b) = (c', None, True) \<and> up c'"
    "up c \<Longrightarrow> oc_PutObject oc c bucket k (Inl err) = (c', e, d) \<Longrightarrow> up c'"
proof -
  note l = assms [unfolded object_laws_def]
  note l2 = l [THEN conjunct2] and l3 = l [THEN conjunct2, THEN conjunct2] and l4 = l [THEN conjunct2, THEN conjunct2, THEN conjunct2]
  show "up c \<Longrightarrow> \<exists>ks. oc_ListObjects oc c bucket p = map Inr ks \<and> set ks = {k. HasPrefix k p \<and> objects c k \<noteq> None}"
    by (rule l [THEN conjunct1, rule_format])
  show "up c \<Longrightarrow> objects c k = Some b \<Longrightarrow> oc_GetObject oc c bucket k = Inr \<lparr>rd_data = b, rd_err = None, rd_close = None\<rparr>"
    by (rule l2 [THEN conjunct1, rule_format])
  show "up c \<Longrightarrow> objects c k = None \<Longrightarrow> \<exists>e. oc_GetObject oc c bucket k = Inl e" by (rule l3 [THEN conjunct1, rule_format])
  show "oc_PutObject oc c bucket k st = (c', e, d) \<Longrightarrow>
         (\<forall>k'. k' \<noteq> k \<longrightarrow> objects c' k' = objects c k')
         \<and> (case e of None \<Rightarrow> \<exists>b. st = Inr b \<and> objects c' k = Some b
             | Some _ \<Rightarrow> objects c' k = objects c k \<or> (\<exists>b. st = Inr b \<and> objects c' k = Some b))"
    using l4 [THEN conjunct1] by blast
  show "up c \<Longrightarrow> \<exists>c'. oc_PutObject oc c bucket k (Inr b) = (c', None, True) \<and> up c'" using l4 [THEN conjunct2, THEN conjunct1] by blast
  show "up c \<Longrightarrow> oc_PutObject oc c bucket k (Inl err) = (c', e, d) \<Longrightarrow> up c'" using l4 [THEN conjunct2, THEN conjunct2] by blast
qed

subsection \<open>Keys\<close>

definition s3_ok :: "s3 \<Rightarrow> bool" where
  "s3_ok s = (s3_prefix s = [] \<or> clean_path (s3_prefix s) \<and> \<not> IsAbs (s3_prefix s))"

definition below :: "s3 \<Rightarrow> string \<Rightarrow> string" where
  "below s k = (if s3_prefix s = [] then k else s3_prefix s @ slash # k)"

lemma below_prefix [simp]: "HasPrefix (below s k) (below s p) = HasPrefix k p" "below s k = below s l \<longleftrightarrow> k = l"
  by (auto simp: below_def HasPrefix_iff)

lemma join_below:
  assumes "clean_path p" "\<not> IsAbs p" "\<forall>c\<in>set cs. name_ok c" "cs \<noteq> []" "comps q = comps p @ cs" "\<not> IsAbs q"
  shows "Clean q = p @ slash # Join cs [slash]"
proof -
  have p: "p = Join (comps p) [slash]" "comps p \<noteq> []"
    using clean_path_text [OF assms(1)] assms(1,2) by (simp_all add: clean_path_def path_text_def)
  have "Clean q = Join (comps p @ cs) [slash]" using assms(4-6) by (simp add: Clean_def path_text_def)
  also have "\<dots> = Join (comps p) [slash] @ [slash] @ Join cs [slash]" by (rule Join_append [OF p(2) assms(4)])
  finally show ?thesis using p(1) by simp
qed

lemma s3_key_object:
  assumes "s3_ok s" "name_ok i" "name_ok x"
  shows "s3_key s (object_key i x) = below s (object_key i x)"
proof (cases "s3_prefix s = []")
  case False
  let ?p = "s3_prefix s" and ?cs = "[i, ''saves'', x]"
  have p: "clean_path ?p" "\<not> IsAbs ?p" using assms(1) False by (simp_all add: s3_ok_def)
  have n: "\<forall>c\<in>set ?cs. name_ok c" using assms by (simp add: name_ok_def)
  have k: "object_key i x = Join ?cs [slash]" by (simp add: object_key_def saves_prefix_def)
  have "Clean (?p @ [slash] @ Join ?cs [slash]) = ?p @ slash # Join ?cs [slash]"
    by (rule join_below [OF p n]) (use comps_join [OF False n] p(2) False in \<open>simp_all add: IsAbs_append\<close>)
  then show ?thesis using False by (simp add: s3_key_def below_def path_join_def k)
qed (simp add: s3_key_def below_def)

lemma s3_key_anonymous:
  assumes "s3_ok s" "name_ok x"
  shows "s3_key s (object_key [] x) = (if s3_prefix s = [] then object_key [] x else below s (''saves/'' @ x))"
proof (cases "s3_prefix s = []")
  case False
  let ?p = "s3_prefix s" and ?cs = "[''saves'', x]"
  have p: "clean_path ?p" "\<not> IsAbs ?p" using assms(1) False by (simp_all add: s3_ok_def)
  have n: "\<forall>c\<in>set ?cs. name_ok c" using assms by (simp add: name_ok_def)
  let ?q = "(?p @ [slash]) @ [slash] @ Join ?cs [slash]"
  have "Clean ?q = ?p @ slash # Join ?cs [slash]"
  proof (rule join_below [OF p n])
    show "comps ?q = comps ?p @ ?cs" using comps_join [of "?p @ [slash]" ?cs] n comps_trailing_slash [OF False] by simp
    show "\<not> IsAbs ?q" using p(2) IsAbs_append [OF False] by simp
  qed simp
  then show ?thesis using False by (simp add: s3_key_def below_def path_join_def object_key_def saves_prefix_def)
qed (simp add: s3_key_def)

lemma s3_key_list:
  assumes "s3_ok s" "name_ok i"
  shows "s3_key s (saves_prefix i) = (if s3_prefix s = [] then saves_prefix i else below s (i @ ''/saves''))"
proof (cases "s3_prefix s = []")
  case False
  let ?p = "s3_prefix s" and ?cs = "[i, ''saves'']"
  have p: "clean_path ?p" "\<not> IsAbs ?p" using assms(1) False by (simp_all add: s3_ok_def)
  have n: "\<forall>c\<in>set ?cs. name_ok c" using assms by (simp add: name_ok_def)
  let ?q = "(?p @ [slash] @ Join ?cs [slash]) @ [slash]"
  have "Clean ?q = ?p @ slash # Join ?cs [slash]"
  proof (rule join_below [OF p n])
    show "comps ?q = comps ?p @ ?cs" using comps_join [OF False n] comps_trailing_slash [of "?p @ [slash] @ Join ?cs [slash]"] by simp
    show "\<not> IsAbs ?q" using p(2) IsAbs_append [OF False] by simp
  qed simp
  then show ?thesis using False assms(2) by (simp add: s3_key_def below_def path_join_def saves_prefix_def name_ok_def)
qed (simp add: s3_key_def)

lemma listed_id:
  assumes "name_ok i" "name_ok j" "HasPrefix (j @ slash # t) (i @ slash # u)"
  shows "i = j"
proof -
  obtain v where v: "j @ slash # t = i @ slash # u @ v" using assms(3) by (auto simp: HasPrefix_iff)
  have "takeWhile (\<lambda>c. c \<noteq> slash) (k @ slash # z) = k" if "name_ok k" for k z
    using that by (auto simp: name_ok_def takeWhile_append)
  then show ?thesis using arg_cong [OF v, of "takeWhile (\<lambda>c. c \<noteq> slash)"] assms(1,2) by metis
qed

lemma trim_below:
  assumes "k \<noteq> []" "hd k \<noteq> slash"
  shows "TrimPrefix (TrimPrefix (below s k) (s3_prefix s)) ''/'' = k"
  using assms by (cases k) (auto simp: below_def TrimPrefix_def HasPrefix_def)

lemma object_key_head: "name_ok i \<Longrightarrow> object_key i x \<noteq> [] \<and> hd (object_key i x) \<noteq> slash"
  by (cases i) (auto simp: object_key_def saves_prefix_def name_ok_def)

subsection \<open>The contract\<close>

definition s3_view :: "s3 \<Rightarrow> ('c \<Rightarrow> string \<Rightarrow> byte list option) \<Rightarrow> 'c \<Rightarrow> string \<Rightarrow> string \<Rightarrow> byte list option" where
  "s3_view s objects c i x = (if published x then objects c (s3_key s (object_key i x)) else None)"

text \<open>Below its prefix the bucket holds nothing but what the program has stored.\<close>

definition s3_wf :: "s3 \<Rightarrow> ('c \<Rightarrow> string \<Rightarrow> byte list option) \<Rightarrow> 'c \<Rightarrow> bool" where
  "s3_wf s objects c =
     (s3_ok s \<and> (\<forall>k. objects c k \<noteq> None \<longrightarrow> HasPrefix k (below s []) \<longrightarrow>
        (\<exists>i x. name_ok i \<and> published x \<and> k = below s (object_key i x))
        \<or> (\<exists>g. k = s3_key s (object_key [] (archive_name g)) \<or> k = s3_key s (object_key [] (manifest_name g)))))"

definition s3_good :: "s3 \<Rightarrow> ('c \<Rightarrow> string \<Rightarrow> byte list option) \<Rightarrow> ('c \<Rightarrow> bool) \<Rightarrow> 'c \<Rightarrow> bool" where
  "s3_good s objects up c = (up c \<and> s3_wf s objects c)"

lemma s3_collect_Inr: "s3_collect s (map Inr ks) = Inr (map (\<lambda>k. TrimPrefix (TrimPrefix k (s3_prefix s)) ''/'') ks)"
  by (induction ks) simp_all

text \<open>No object of the empty id is listed for a pack.\<close>

lemma anonymous_unlisted:
  assumes "s3_ok s" "name_ok i" "x = archive_name g \<or> x = manifest_name g"
  shows "\<not> HasPrefix (s3_key s (object_key [] x)) (s3_key s (saves_prefix i))"
proof
  assume p: "HasPrefix (s3_key s (object_key [] x)) (s3_key s (saves_prefix i))"
  have x: "name_ok x" using assms(3) published_names published_def by blast
  note keys = s3_key_anonymous [OF assms(1) x] s3_key_list [OF assms(1,2)]
  show False
  proof (cases "s3_prefix s = []")
    case True
    then show False using p keys assms(2) by (cases i) (auto simp: object_key_def saves_prefix_def HasPrefix_iff name_ok_def)
  next
    case False
    then have q: "HasPrefix (''saves'' @ slash # x) (i @ slash # ''saves'')" using p keys by simp
    then have "i = ''saves''" using listed_id [OF assms(2), of "''saves''"] by (simp add: name_ok_def)
    then have "HasPrefix x ''saves''" using q by (auto simp: HasPrefix_iff)
    then have "CHR ''s'' \<in> set (take 1 x)" by (auto simp: HasPrefix_iff)
    moreover have "20 \<le> length (pad_zeros 20 (unat g))" by (simp add: pad_zeros_def Let_def)
    then have "set (take 1 x) \<subseteq> set (pad_zeros 20 (unat g))"
      using assms(3) set_take_subset [of 1 "pad_zeros 20 (unat g)"] by (auto simp: archive_name_def manifest_name_def)
    ultimately show False using set_pad_zeros [of "CHR ''s''" 20 "unat g"] by (auto simp: code_of_def)
  qed
qed

lemma anonymous_other:
  assumes "s3_ok s" "name_ok i" "name_ok y" "x = archive_name g \<or> x = manifest_name g"
  shows "s3_key s (object_key [] x) \<noteq> s3_key s (object_key i y)"
proof
  assume e: "s3_key s (object_key [] x) = s3_key s (object_key i y)"
  have "HasPrefix (s3_key s (object_key i y)) (s3_key s (saves_prefix i))"
    unfolding s3_key_object [OF assms(1-3)] s3_key_list [OF assms(1,2)] by (auto simp: object_key_def saves_prefix_def below_def HasPrefix_iff)
  then show False using anonymous_unlisted [OF assms(1,2,4)] e by simp
qed

lemma s3_list_law:
  assumes "object_laws oc (s3_bucket s) objects up" "s3_good s objects up c" "name_ok i"
  shows "\<exists>ks. be_List (NewS3_backend oc s) c (saves_prefix i) = Inr ks
    \<and> (\<forall>k. k \<in> set ks \<longleftrightarrow> (\<exists>x. k = object_key i x \<and> s3_view s objects c i x \<noteq> None))"
proof -
  have ok: "up c" "s3_wf s objects c" "s3_ok s" using assms(2) by (simp_all add: s3_good_def s3_wf_def)
  let ?p = "s3_key s (saves_prefix i)" and ?t = "\<lambda>k. TrimPrefix (TrimPrefix k (s3_prefix s)) ''/''"
  obtain ks where ks: "oc_ListObjects oc c (s3_bucket s) ?p = map Inr ks" "set ks = {k. HasPrefix k ?p \<and> objects c k \<noteq> None}"
    using object_lawsD(1) [OF assms(1) ok(1)] by blast
  have trim: "?t (s3_key s (object_key i x)) = object_key i x" if "published x" for x
    using trim_below object_key_head [OF assms(3)] s3_key_object [OF ok(3) assms(3)] that by (simp add: published_def)
  have listed: "HasPrefix (s3_key s (object_key i x)) ?p" if "published x" for x
    using s3_key_object [OF ok(3) assms(3)] s3_key_list [OF ok(3) assms(3)] that
    by (auto simp: published_def object_key_def saves_prefix_def below_def HasPrefix_iff)
  have found: "\<exists>x. published x \<and> k = s3_key s (object_key i x)" if k: "HasPrefix k ?p" "objects c k \<noteq> None" for k
  proof -
    have "HasPrefix k (below s [])" using k(1) s3_key_list [OF ok(3) assms(3)] by (auto simp: HasPrefix_iff below_def)
    then consider j x where "name_ok j" "published x" "k = below s (object_key j x)"
      | g where "k = s3_key s (object_key [] (archive_name g)) \<or> k = s3_key s (object_key [] (manifest_name g))"
      using ok(2) k(2) unfolding s3_wf_def by blast
    then show ?thesis
    proof cases
      case (1 j x)
      have "HasPrefix (j @ slash # ''saves/'' @ x) (i @ slash # [])"
        using k(1) 1(3) s3_key_list [OF ok(3) assms(3)]
        by (cases "s3_prefix s = []") (auto simp: object_key_def saves_prefix_def below_def HasPrefix_iff)
      then have "i = j" using listed_id [OF assms(3) 1(1)] by blast
      then show ?thesis using 1 s3_key_object [OF ok(3) 1(1)] by (auto simp: published_def)
    next
      case (2 g)
      then show ?thesis using anonymous_unlisted [OF ok(3) assms(3), of _ g] k(1) by blast
    qed
  qed
  have "k \<in> ?t ` set ks \<longleftrightarrow> (\<exists>x. k = object_key i x \<and> s3_view s objects c i x \<noteq> None)" for k
  proof
    assume "k \<in> ?t ` set ks"
    then obtain o' where o': "k = ?t o'" "HasPrefix o' ?p" "objects c o' \<noteq> None" unfolding ks(2) by blast
    then obtain x where x: "published x" "o' = s3_key s (object_key i x)" using found by blast
    then show "\<exists>x. k = object_key i x \<and> s3_view s objects c i x \<noteq> None" using o' trim [OF x(1)] by (auto simp: s3_view_def)
  next
    assume "\<exists>x. k = object_key i x \<and> s3_view s objects c i x \<noteq> None"
    then obtain x where x: "k = object_key i x" "published x" "objects c (s3_key s (object_key i x)) \<noteq> None"
      by (auto simp: s3_view_def split: if_splits)
    then show "k \<in> ?t ` set ks" unfolding ks(2) using listed trim by (intro image_eqI [of _ _ "s3_key s (object_key i x)"]) auto
  qed
  then show ?thesis by (simp add: NewS3_backend_def ks(1) s3_collect_Inr)
qed

lemma s3_put:
  assumes laws: "object_laws oc (s3_bucket s) objects up" and wf: "s3_wf s objects c"
    and key: "k = s3_key s (object_key i x)" "name_ok i \<and> published x \<or> i = [] \<and> (x = archive_name g \<or> x = manifest_name g)"
    and put: "oc_PutObject oc c (s3_bucket s) k st = (c', e, d)"
  shows "s3_wf s objects c'" "name_ok j \<Longrightarrow> (j, y) \<noteq> (i, x) \<Longrightarrow> s3_view s objects c' j y = s3_view s objects c j y"
    "up c \<Longrightarrow> s3_good s objects up c'"
proof -
  note p = object_lawsD(4) [OF laws put]
  have ok: "s3_ok s" using wf by (simp add: s3_wf_def)
  have form: "(\<exists>i x. name_ok i \<and> published x \<and> k = below s (object_key i x))
      \<or> (\<exists>g. k = s3_key s (object_key [] (archive_name g)) \<or> k = s3_key s (object_key [] (manifest_name g)))"
    using key s3_key_object [OF ok] by (auto simp: published_def)
  show w: "s3_wf s objects c'"
    unfolding s3_wf_def
  proof (intro conjI allI impI)
    fix l assume l: "objects c' l \<noteq> None" "HasPrefix l (below s [])"
    show "(\<exists>i x. name_ok i \<and> published x \<and> l = below s (object_key i x))
      \<or> (\<exists>g. l = s3_key s (object_key [] (archive_name g)) \<or> l = s3_key s (object_key [] (manifest_name g)))"
    proof (cases "l = k")
      case False
      then show ?thesis using p l wf unfolding s3_wf_def by metis
    qed (use form in blast)
  qed (rule ok)
  show "s3_view s objects c' j y = s3_view s objects c j y" if j: "name_ok j" "(j, y) \<noteq> (i, x)"
  proof (cases "published y")
    case True
    then have y: "name_ok y" by (simp add: published_def)
    have "s3_key s (object_key j y) \<noteq> k"
    proof (cases "i = []")
      case True
      then show ?thesis using anonymous_other [OF ok j(1) y, of x g] key by (auto simp: name_ok_def)
    next
      case False
      then have i: "name_ok i" "name_ok x" using key(2) by (auto simp: published_def)
      show ?thesis
        unfolding key(1) s3_key_object [OF ok j(1) y] s3_key_object [OF ok i] using object_key_inj [OF j(1) i(1)] j(2) by auto
    qed
    then show ?thesis using p by (simp add: s3_view_def)
  qed (simp add: s3_view_def)
  show "s3_good s objects up c'" if u: "up c"
  proof (cases st)
    case (Inl err)
    then show ?thesis using object_lawsD(6) [OF laws u] put w by (auto simp: s3_good_def)
  next
    case (Inr b)
    then show ?thesis using object_lawsD(5) [OF laws u, of k b] put w by (auto simp: s3_good_def)
  qed
qed

text \<open>
  C11. The S3 backend keeps the contract of a backend: over any object store that behaves as documented, with
  any clean prefix, \<open>List\<close>, \<open>Open\<close> and \<open>Put\<close> behave as the archive store relies on, so that everything shown
  of commits, restores and the supervisor holds with backups in S3.
\<close>

theorem s3_keeps_contract:
  assumes laws: "object_laws oc (s3_bucket s) objects up"
  shows "backend_laws (NewS3_backend oc s) (s3_view s objects) (s3_wf s objects) (s3_good s objects up)"
proof
  fix c i x b st c' e d err g
  have put: "be_Put (NewS3_backend oc s) c k st = oc_PutObject oc c (s3_bucket s) (s3_key s k) st" for c k st
    by (simp add: NewS3_backend_def)
  show "s3_good s objects up c \<Longrightarrow> s3_wf s objects c" by (simp add: s3_good_def)
  show "s3_view s objects c i x \<noteq> None \<Longrightarrow> published x" by (simp add: s3_view_def split: if_splits)
  show "s3_good s objects up c \<Longrightarrow> name_ok i \<Longrightarrow>
      \<exists>ks. be_List (NewS3_backend oc s) c (saves_prefix i) = Inr ks \<and>
        (\<forall>k. HasSuffix k ''.json'' \<longrightarrow> (k \<in> set ks \<longleftrightarrow> (\<exists>x. k = object_key i x \<and> s3_view s objects c i x \<noteq> None)))"
    using s3_list_law [OF laws, of c i] by blast
  show "s3_good s objects up c \<Longrightarrow> name_ok i \<Longrightarrow> published x \<Longrightarrow> s3_view s objects c i x = Some b \<Longrightarrow>
      be_Open (NewS3_backend oc s) c (object_key i x) = Inr \<lparr>rd_data = b, rd_err = None, rd_close = None\<rparr>"
    using object_lawsD(2) [OF laws] by (simp add: s3_view_def s3_good_def NewS3_backend_def)
  show "s3_good s objects up c \<Longrightarrow> name_ok i \<Longrightarrow> published x \<Longrightarrow> s3_view s objects c i x = None \<Longrightarrow>
      \<exists>e. be_Open (NewS3_backend oc s) c (object_key i x) = Inl e"
    using object_lawsD(3) [OF laws] by (simp add: s3_view_def s3_good_def NewS3_backend_def)
  show "s3_wf s objects c' \<and> (\<forall>j y. name_ok j \<longrightarrow> (j, y) \<noteq> (i, x) \<longrightarrow> s3_view s objects c' j y = s3_view s objects c j y)
      \<and> (case e of None \<Rightarrow> \<exists>b. st = Inr b \<and> s3_view s objects c' i x = Some b
            | Some _ \<Rightarrow> s3_view s objects c' i x = s3_view s objects c i x \<or> (\<exists>b. st = Inr b \<and> s3_view s objects c' i x = Some b))"
    if "s3_wf s objects c" "name_ok i" "published x" "be_Put (NewS3_backend oc s) c (object_key i x) st = (c', e, d)"
  proof -
    note q = that(4) [unfolded put]
    have "name_ok i \<and> published x \<or> i = [] \<and> (x = archive_name 0 \<or> x = manifest_name 0)" using that(2,3) by blast
    note r = s3_put(1,2) [OF laws that(1) refl this q]
    show ?thesis using r object_lawsD(4) [OF laws q] that(3) by (cases e) (simp_all add: s3_view_def)
  qed
  show "\<exists>c'. be_Put (NewS3_backend oc s) c (object_key i x) (Inr b) = (c', None, True) \<and> s3_good s objects up c'"
    if "s3_good s objects up c" "name_ok i" "published x"
  proof -
    have c: "up c" "s3_wf s objects c" using that(1) by (simp_all add: s3_good_def)
    have "name_ok i \<and> published x \<or> i = [] \<and> (x = archive_name 0 \<or> x = manifest_name 0)" using that(2,3) by blast
    then show ?thesis
      unfolding put using object_lawsD(5) [OF laws c(1)] s3_put(3) [OF laws c(2) refl _ _ c(1)] by blast
  qed
  show "s3_good s objects up c'"
    if "s3_good s objects up c" "name_ok i" "published x" "be_Put (NewS3_backend oc s) c (object_key i x) (Inl err) = (c', e, d)"
    using that s3_put(3) [OF laws _ refl _ that(4) [unfolded put]] by (auto simp: s3_good_def)
  show "s3_wf s objects c' \<and> (\<forall>j y. name_ok j \<longrightarrow> s3_view s objects c' j y = s3_view s objects c j y)"
    if "s3_wf s objects c" "x = archive_name g \<or> x = manifest_name g" "be_Put (NewS3_backend oc s) c (object_key [] x) st = (c', e, d)"
  proof -
    note r = s3_put(1,2) [OF laws that(1) refl _ that(3) [unfolded put], of g]
    note x = that(2)
    have "s3_wf s objects c'" using r(1) x by simp
    moreover have "s3_view s objects c' j y = s3_view s objects c j y" if j: "name_ok j" for j y
      using r(2) [of j y] x j by (auto simp: name_ok_def)
    ultimately show ?thesis by blast
  qed
  show "s3_good s objects up c'"
    if "s3_good s objects up c" "x = archive_name g \<or> x = manifest_name g" "be_Put (NewS3_backend oc s) c (object_key [] x) st = (c', e, d)"
    using that s3_put(3) [OF laws _ refl _ that(3) [unfolded put], of g] by (auto simp: s3_good_def)
qed

subsection \<open>A bucket in memory\<close>

definition bucket_client :: "(string \<times> byte list) list object_client" where
  "bucket_client =
     \<lparr>oc_ListObjects = (\<lambda>c _ p. map Inr (filter (\<lambda>k. HasPrefix k p) (map fst c))),
      oc_GetObject = (\<lambda>c _ k. case map_of c k of
          None \<Rightarrow> Inl (Errorf ''The specified key does not exist.'')
        | Some b \<Rightarrow> Inr \<lparr>rd_data = b, rd_err = None, rd_close = None\<rparr>),
      oc_PutObject = (\<lambda>c _ k st. case st of Inl e \<Rightarrow> (c, Some e, True) | Inr b \<Rightarrow> ((k, b) # c, None, True))\<rparr>"

lemma bucket_laws: "object_laws bucket_client bucket map_of (\<lambda>_. True)"
proof -
  have "k \<in> fst ` set c \<longleftrightarrow> map_of c k \<noteq> None" for c :: "(string \<times> byte list) list" and k by (simp add: map_of_eq_None_iff)
  then show ?thesis unfolding object_laws_def by (auto simp: bucket_client_def split: sum.splits option.splits)
qed

definition sample_s3 :: s3 where
  "sample_s3 = \<lparr>s3_bucket = ''hostpack'', s3_prefix = ''packs''\<rparr>"

lemma sample_s3_good: "s3_good sample_s3 map_of (\<lambda>_. True) []"
proof -
  have "comps ''packs'' = [''packs'']" "Clean ''packs'' = ''packs''" "\<not> IsAbs ''packs''" by code_simp+
  then have "clean_path ''packs''" "\<not> IsAbs ''packs''" by (simp_all add: clean_path_def name_ok_def)
  then show ?thesis by (simp add: s3_good_def s3_wf_def s3_ok_def sample_s3_def)
qed

text \<open>A commit to the empty bucket is stored and becomes the newest backup.\<close>

theorem s3_keeps_contract_witness:
  "\<exists>c m. Commit (NewS3_backend bucket_client sample_s3) sample_codec None ''2024-05-06T07:08:09Z'' sample_world [] ''vanilla'' ''/data'' 0 = (c, Inr m)
     \<and> map_of c ''packs/vanilla/saves/00000000000000000001.tar.zst'' = Some [9, 9]
     \<and> Head (NewS3_backend bucket_client sample_s3) c ''vanilla'' = Inr (Some m)"
proof -
  let ?be = "NewS3_backend bucket_client sample_s3" and ?v = "s3_view sample_s3 map_of"
  let ?m = "new_manifest None ''2024-05-06T07:08:09Z'' ''vanilla'' 1 [9, 9]"
  have laws: "backend_laws ?be ?v (s3_wf sample_s3 map_of) (s3_good sample_s3 map_of (\<lambda>_. True))"
    by (rule s3_keeps_contract [OF bucket_laws])
  have e: "?v [] i x = None" for i x by (simp add: s3_view_def)
  then have fl: "filed (?v [] i) i" and nw: "newest (?v [] i) i None" for i by (simp_all add: filed_def newest_def intact_def)
  obtain c where c: "Commit ?be sample_codec None ''2024-05-06T07:08:09Z'' sample_world [] ''vanilla'' ''/data'' 0 = (c, Inr ?m)"
      "?v c ''vanilla'' (archive_name 1) = Some [9, 9]"
    using backend_laws.commit_succeeds [OF laws, OF sample_s3_good sample_id fl nw _ sample_archive, of 0] sample_manifest_wf
    by (auto simp: conflicts_def)
  have "s3_wf sample_s3 map_of []" using sample_s3_good by (simp add: s3_good_def)
  then have "Head ?be c ''vanilla'' = Inr (Some ?m)"
    using backend_laws.commit_sound [OF laws, OF _ sample_id c(1)] by blast
  moreover have "s3_key sample_s3 (object_key ''vanilla'' (archive_name 1)) = ''packs/vanilla/saves/00000000000000000001.tar.zst''"
    by code_simp
  then have "map_of c ''packs/vanilla/saves/00000000000000000001.tar.zst'' = Some [9, 9]" using c(2) by (simp add: s3_view_def)
  ultimately show ?thesis using c(1) by blast
qed

end
