(* ===== verification/Router.thy ===== *)
theory Router
  imports World_Safety
begin

text \<open>
  The connection router of \<open>internal/router/server.go\<close>: the accept loop with its semaphore, and the
  handler of one connection, from the rate limiter to the relay between client and server.

  A \<open>visit\<close> is what the world answers during one connection: the clock at the points where the handler
  reads it, what \<open>waitReady\<close> observes, the dialled backend, and how many bytes each direction of the
  relay had copied when the first of them ended. Reads and writes on the client after its deadline fail.
\<close>

definition second :: int where
  "second = 1000000000"

text \<open>\<open>net.SplitHostPort\<close>: the host, empty on an error.\<close>

definition SplitHost :: "string \<Rightarrow> string" where
  "SplitHost s =
     (case last_index (CHR '':'') s of
        None \<Rightarrow> []
      | Some i \<Rightarrow>
          if s \<noteq> [] \<and> hd s = CHR ''['' then
            (let inner = takeWhile (\<lambda>c. c \<noteq> CHR '']'') (tl s); e = Suc (length inner) in
             if e \<ge> length s \<or> Suc e \<noteq> i then []
             else if CHR ''['' \<in> set (tl s) \<or> CHR '']'' \<in> set (drop (Suc e) s) then [] else inner)
          else if CHR '':'' \<in> set (take i s) \<or> CHR ''['' \<in> set s \<or> CHR '']'' \<in> set s then []
          else take i s)"

record visit =
  v_remote :: string
  v_now :: int
  v_start :: int
  v_answers :: answers
  v_wait :: int
  v_seen :: "(int \<times> state) list"
  v_reply :: int
  v_dial :: "conn result"
  v_up :: nat
  v_down :: nat

record 's handled =
  h_limiter :: ip_limiter
  h_manager :: "'s manager"
  h_gos :: "goroutine list"
  h_client :: conn
  h_backend :: "conn option"
  h_open :: bool

definition em_dash :: string where
  "em_dash = [CHR 0xE2, CHR 0x80, CHR 0x94]"

definition motd :: "pack option \<Rightarrow> string \<Rightarrow> state \<Rightarrow> string" where
  "motd pk i st =
     (case pk of
        None \<Rightarrow> ''Unknown hostpack''
      | Some p \<Rightarrow>
          if ActiveID st = i \<and> Phase st = Ready then DisplayName p @ '' is running''
          else if ActiveID st = i then DisplayName p @ '' is '' @ Phase st
          else if ActiveID st \<noteq> [] then DisplayName p @ '' is sleeping; '' @ ActiveID st @ '' is active''
          else DisplayName p @ '' is sleeping '' @ em_dash @ '' join to start'')"

text \<open>A write to the client at time \<open>t\<close>, under the deadline \<open>dl\<close>.\<close>

definition write_by :: "int \<Rightarrow> int \<Rightarrow> conn \<Rightarrow> string \<Rightarrow> conn" where
  "write_by dl t c message =
     (if t < dl then (case WriteLoginDisconnect c message of Inr c1 \<Rightarrow> c1 | Inl _ \<Rightarrow> c) else c)"

definition status_by :: "int \<Rightarrow> int \<Rightarrow> conn \<Rightarrow> handshake \<Rightarrow> string \<Rightarrow> conn" where
  "status_by dl t c hs text = (if t < dl then fst (WriteStatus c (Protocol hs) ''Hostpack MVP'' text 0 0) else c)"

text \<open>The two copies, from the client's remaining input and from the backend's output.\<close>

definition relay :: "visit \<Rightarrow> conn \<Rightarrow> conn \<Rightarrow> conn \<times> conn" where
  "relay v c b =
     (c\<lparr>conn_in := drop (v_up v) (conn_in c), conn_out := conn_out c @ take (v_down v) (conn_in b)\<rparr>,
      b\<lparr>conn_in := drop (v_down v) (conn_in b), conn_out := conn_out b @ take (v_up v) (conn_in c)\<rparr>)"

definition answer_login :: "'s env \<Rightarrow> visit \<Rightarrow> handshake \<Rightarrow> string \<Rightarrow> 's handled \<Rightarrow> 's handled" where
  "answer_login env v hs i h =
     (let dl = v_start v + 10 * second;
          (m, gs, r) = Ensure env (v_answers v) (h_manager h) i;
          h1 = h\<lparr>h_manager := m, h_gos := gs\<rparr>
      in case (case r of
                 Reply ok msg \<Rightarrow> Some (ok, msg)
               | Waiting \<Rightarrow> waitReady env i (v_wait v + StartupWait (Runtime (e_cfg env))) (v_seen v)) of
           None \<Rightarrow> h1\<lparr>h_open := True\<rparr>
         | Some (ok, msg) \<Rightarrow>
             if \<not> ok then h1\<lparr>h_client := write_by dl (v_reply v) (h_client h) msg\<rparr>
             else (case v_dial v of
                 Inl _ \<Rightarrow> h1\<lparr>h_client := write_by dl (v_reply v) (h_client h) ''Server became unavailable. Please reconnect.''\<rparr>
               | Inr b \<Rightarrow>
                   (case conn_write b (Frame hs) of
                      Inl _ \<Rightarrow> h1\<lparr>h_backend := Some b\<rparr>
                    | Inr b1 \<Rightarrow> let (c2, b2) = relay v (h_client h) b1 in h1\<lparr>h_client := c2, h_backend := Some b2\<rparr>)))"

definition handle :: "'s env \<Rightarrow> visit \<Rightarrow> ip_limiter \<Rightarrow> 's manager \<Rightarrow> conn \<Rightarrow> 's handled" where
  "handle env v l m c =
     (let (l1, admitted) = allow (v_now v) l (SplitHost (v_remote v));
          h = \<lparr>h_limiter = l1, h_manager = m, h_gos = [], h_client = c, h_backend = None, h_open = False\<rparr>;
          dl = v_start v + 10 * second
      in if \<not> admitted then h
         else (case ReadHandshake (conn_in c) of
             Inl _ \<Rightarrow> h
           | Inr (hs, rest) \<Rightarrow>
               let c1 = c\<lparr>conn_in := rest\<rparr>; h1 = h\<lparr>h_client := c1\<rparr>;
                   (i, pk) = PackForHost (e_unicode env) (e_cfg env) (Host hs)
               in if NextState hs = 1 then h1\<lparr>h_client := status_by dl (v_reply v) c1 hs (motd pk i (m_state m))\<rparr>
                  else if pk = None then h1\<lparr>h_client := write_by dl (v_reply v) c1 ''Unknown hostpack hostname.''\<rparr>
                  else answer_login env v hs i h1))"

subsection \<open>The accept loop\<close>

datatype accepted = Accepted | Refused go_error

datatype serving = Serving nat | Returned "go_error option"

text \<open>One turn of the loop of \<open>Serve\<close>, with the number of connections being handled; and the end of a handler.\<close>

definition Serve_turn :: "config \<Rightarrow> bool \<Rightarrow> bool \<Rightarrow> nat \<Rightarrow> accepted \<Rightarrow> serving \<times> bool" where
  "Serve_turn cfg ctx_done manager_done busy r =
     (case r of
        Refused e \<Rightarrow> (Returned (if ctx_done \<or> manager_done then None else Some e), False)
      | Accepted \<Rightarrow> if int busy < MaxConnections (Runtime cfg) then (Serving (Suc busy), True) else (Serving busy, False))"

datatype serve_event = Accept accepted bool bool | Finished

fun Serve_run :: "config \<Rightarrow> nat \<Rightarrow> serve_event list \<Rightarrow> serving \<times> nat list" where
  "Serve_run cfg busy [] = (Serving busy, [busy])"
| "Serve_run cfg busy (Finished # es) = (let (s, bs) = Serve_run cfg (busy - 1) es in (s, busy # bs))"
| "Serve_run cfg busy (Accept r cd md # es) =
     (case Serve_turn cfg cd md busy r of
        (Returned e, _) \<Rightarrow> (Returned e, [busy])
      | (Serving n, _) \<Rightarrow> let (s, bs) = Serve_run cfg n es in (s, busy # bs))"

subsection \<open>Who reaches the supervisor\<close>

text \<open>
  C19. Only a login wakes or disturbs anything: unless the address is within its rate, the handshake is a
  well-formed login and its host is a configured pack, the handler leaves the supervisor exactly as it was
  and starts nothing; and then what it does to the supervisor is \<open>Ensure\<close> of that pack.
\<close>

theorem only_logins_reach_supervisor:
  "h_manager (handle env v l m c) = m \<and> h_gos (handle env v l m c) = [] \<and> h_backend (handle env v l m c) = None
   \<or> (\<exists>hs rest i p r. snd (allow (v_now v) l (SplitHost (v_remote v))) \<and> ReadHandshake (conn_in c) = Inr (hs, rest) \<and> NextState hs \<noteq> 1
       \<and> PackForHost (e_unicode env) (e_cfg env) (Host hs) = (i, Some p)
       \<and> Ensure env (v_answers v) m i = (h_manager (handle env v l m c), h_gos (handle env v l m c), r))"
proof -
  obtain l1 ad where al: "allow (v_now v) l (SplitHost (v_remote v)) = (l1, ad)" by (cases "allow (v_now v) l (SplitHost (v_remote v))")
  show ?thesis
  proof (cases "ad \<and> (\<exists>hs rest. ReadHandshake (conn_in c) = Inr (hs, rest) \<and> NextState hs \<noteq> 1
      \<and> snd (PackForHost (e_unicode env) (e_cfg env) (Host hs)) \<noteq> None)")
    case True
    then obtain hs rest i p where hs: "ad" "ReadHandshake (conn_in c) = Inr (hs, rest)" "NextState hs \<noteq> 1"
      "PackForHost (e_unicode env) (e_cfg env) (Host hs) = (i, Some p)" by (metis option.collapse prod.collapse)
    obtain m1 gs r where e: "Ensure env (v_answers v) m i = (m1, gs, r)" by (cases "Ensure env (v_answers v) m i")
    have "h_manager (handle env v l m c) = m1 \<and> h_gos (handle env v l m c) = gs"
      using al hs e by (simp add: handle_def answer_login_def Let_def case_prod_beta split: option.split sum.split)
    then show ?thesis using al hs e by auto
  next
    case False
    then show ?thesis using al by (auto simp: handle_def Let_def split: sum.splits prod.splits)
  qed
qed

subsection \<open>Relaying\<close>

text \<open>
  C17. A login that the supervisor lets in is relayed faithfully: the server receives exactly the client's
  handshake followed by a prefix of what the client sent after it, and the client receives a prefix of
  what the server sent, and nothing else; the supervisor's state is untouched but for the time of the login.
\<close>

theorem login_relayed:
  assumes "snd (allow (v_now v) l (SplitHost (v_remote v)))" "ReadHandshake (conn_in c) = Inr (hs, rest)" "NextState hs \<noteq> 1"
    "PackForHost (e_unicode env) (e_cfg env) (Host hs) = (i, Some p)" "ActiveID (m_state m) = i" "Phase (m_state m) = Ready"
    "v_dial v = Inr b" "conn_out b = []" "0 < conn_writes b"
  shows "\<exists>b'. h_backend (handle env v l m c) = Some b' \<and> conn_out b' = Frame hs @ take (v_up v) rest
    \<and> conn_out (h_client (handle env v l m c)) = conn_out c @ take (v_down v) (conn_in b)
    \<and> m_state (h_manager (handle env v l m c)) = m_state m \<and> h_gos (handle env v l m c) = []"
proof -
  obtain l1 where al: "allow (v_now v) l (SplitHost (v_remote v)) = (l1, True)"
    using assms(1) by (cases "allow (v_now v) l (SplitHost (v_remote v))") auto
  obtain k where k: "conn_writes b = Suc k" using assms(9) by (cases "conn_writes b") auto
  let ?m = "m\<lparr>m_loginSeen := True, m_lastActivity := instant (a_now (v_answers v))\<rparr>"
  have e: "Ensure env (v_answers v) m i = (?m, [], Reply True [])"
    using assms(5,6) by (simp add: Ensure_def Let_def)
  show ?thesis
    using al assms(2-8) k e by (simp add: handle_def answer_login_def Let_def conn_write_def relay_def)
qed

subsection \<open>Waiting for a pack to start\<close>

text \<open>
  C18. A login to a sleeping supervisor starts the pack: the state is saved as \<open>Loading\<close> that pack, and its
  start is under way, whatever then becomes of the connection.
\<close>

theorem login_starts_pack:
  assumes "snd (allow (v_now v) l (SplitHost (v_remote v)))" "ReadHandshake (conn_in c) = Inr (hs, rest)" "NextState hs \<noteq> 1"
    "PackForHost (e_unicode env) (e_cfg env) (Host hs) = (i, Some p)" "Phase (m_state m) = Idle"
  shows "m_state (h_manager (handle env v l m c)) = loading_state env i \<and> h_gos (handle env v l m c) = [Start i False Entry]
    \<and> m_disk (h_manager (handle env v l m c)) = fst (Save (state_path env) (a_now (v_answers v)) (m_disk m) (loading_state env i))"
proof -
  obtain l1 where al: "allow (v_now v) l (SplitHost (v_remote v)) = (l1, True)"
    using assms(1) by (cases "allow (v_now v) l (SplitHost (v_remote v))") auto
  obtain m1 where e: "Ensure env (v_answers v) m i = (m1, [Start i False Entry], Waiting)" "m_state m1 = loading_state env i"
    "m_disk m1 = fst (Save (state_path env) (a_now (v_answers v)) (m_disk m) (loading_state env i))"
    using assms(5) by (simp add: Ensure_def Let_def)
  show ?thesis
    using al assms(2-4) e by (simp add: handle_def answer_login_def Let_def case_prod_beta split: option.split sum.split)
qed

text \<open>
  C36. The message for a slow start is lost. The connection's deadline is ten seconds after its start; when
  the wait for a pack gives up no earlier than that, as with the configured 25 seconds, nothing is written
  to the client: it sees the connection close instead of the request to reconnect.
\<close>

theorem slow_start_message_lost:
  assumes "ReadHandshake (conn_in c) = Inr (hs, rest)" "NextState hs \<noteq> 1" "Phase (m_state m) = Idle"
    "v_start v + 10 * second \<le> v_reply v"
    "waitReady env (fst (PackForHost (e_unicode env) (e_cfg env) (Host hs))) (v_wait v + StartupWait (Runtime (e_cfg env))) (v_seen v) = Some (False, msg)"
  shows "conn_out (h_client (handle env v l m c)) = conn_out c"
proof -
  obtain l1 ad where al: "allow (v_now v) l (SplitHost (v_remote v)) = (l1, ad)" by (cases "allow (v_now v) l (SplitHost (v_remote v))")
  obtain i pk where p: "PackForHost (e_unicode env) (e_cfg env) (Host hs) = (i, pk)" by (cases "PackForHost (e_unicode env) (e_cfg env) (Host hs)")
  obtain m1 gs where e: "Ensure env (v_answers v) m i = (m1, gs, Waiting)" using assms(3) by (simp add: Ensure_def Let_def)
  show ?thesis
    using al p e assms(1,2,4,5) by (simp add: handle_def answer_login_def Let_def write_by_def)
qed

subsection \<open>Waiting ends\<close>

definition pause :: int where
  "pause = 250000000"

definition paced :: "int list \<Rightarrow> bool" where
  "paced ts = (\<forall>k. Suc k < length ts \<longrightarrow> ts ! k + pause \<le> ts ! Suc k)"

lemma paced_tail: "paced (t # ts) \<Longrightarrow> paced ts"
  unfolding paced_def by (metis Suc_less_eq length_Cons nth_Cons_Suc)

lemma waitReady_returns:
  "paced (map fst obs) \<Longrightarrow> obs \<noteq> [] \<Longrightarrow> deadline \<le> fst (hd obs) + pause * int (length obs - 1) \<Longrightarrow> waitReady env i deadline obs \<noteq> None"
proof (induction obs)
  case (Cons o1 obs)
  obtain t st where o1: "o1 = (t, st)" by (cases o1)
  show ?case
  proof (cases obs)
    case Nil
    then show ?thesis using Cons.prems(3) o1 by simp
  next
    case (Cons o2 rest)
    have "t + pause \<le> fst o2" using Cons.prems(1) o1 Cons unfolding paced_def by (auto dest: spec [of _ 0])
    then have "deadline \<le> fst (hd obs) + pause * int (length obs - 1)"
      using Cons.prems(3) o1 Cons by (simp add: algebra_simps)
    then have "waitReady env i deadline obs \<noteq> None"
      using Cons.IH paced_tail Cons.prems(1) Cons by simp
    then show ?thesis unfolding o1 by (auto split: if_splits)
  qed
qed simp


subsection \<open>Connections at once\<close>

text \<open>
  C21. At no time are more than \<open>MaxConnections\<close> connections handled, in any sequence of accepted
  connections, finished handlers and failures of the listener.
\<close>

theorem connections_bounded:
  assumes "0 \<le> MaxConnections (Runtime cfg)" "int busy \<le> MaxConnections (Runtime cfg)"
  shows "\<forall>b\<in>set (snd (Serve_run cfg busy es)). int b \<le> MaxConnections (Runtime cfg)"
  using assms(2)
proof (induction cfg busy es rule: Serve_run.induct)
  case (3 cfg busy r cd md es)
  show ?case
  proof (cases r)
    case Accepted
    show ?thesis
    proof (cases "int busy < MaxConnections (Runtime cfg)")
      case True
      then have t: "Serve_turn cfg cd md busy r = (Serving (Suc busy), True)" using Accepted by (simp add: Serve_turn_def)
      then show ?thesis using "3.IH" [OF t [symmetric] refl] 3(2) True by (simp add: case_prod_beta Let_def)
    next
      case False
      then have t: "Serve_turn cfg cd md busy r = (Serving busy, False)" using Accepted by (simp add: Serve_turn_def)
      then show ?thesis using "3.IH" [OF t [symmetric] refl] 3(2) by (simp add: case_prod_beta Let_def)
    qed
  qed (use 3(2) in \<open>simp add: Serve_turn_def\<close>)
qed (auto simp: case_prod_beta Let_def)

subsection \<open>A sample login\<close>

definition sample_hs :: handshake where
  "sample_hs = \<lparr>Protocol = 767, Host = ''vanilla.play.example.com'', Port = 25565, NextState = 2,
     Frame = frame (client_handshake 767 ''vanilla.play.example.com'' 25565 2)\<rparr>"

definition sample_client :: conn where
  "sample_client = \<lparr>conn_in = Frame sample_hs @ [1, 2, 3], conn_out = [], conn_writes = 5\<rparr>"

definition sample_visit :: visit where
  "sample_visit = \<lparr>v_remote = ''10.0.0.7:51000'', v_now = 2 * minute, v_start = 0, v_answers = sample_answers, v_wait = 0,
     v_seen = [(0, idle_state), (26 * second, idle_state)], v_reply = 26 * second,
     v_dial = Inr \<lparr>conn_in = [7, 8, 9], conn_out = [], conn_writes = 1\<rparr>, v_up = 3, v_down = 2\<rparr>"

definition sample_manager :: "world manager" where
  "sample_manager = \<lparr>m_state = idle_state, m_process = None, m_expectedStop = False, m_lastActivity = 0, m_loginSeen = False,
     m_done = False, m_cancelled = False, m_disk = empty_disk, m_store = empty_disk\<rparr>"

lemma sample_handshake: "ReadHandshake (conn_in sample_client) = Inr (sample_hs, [1, 2, 3])" "NextState sample_hs \<noteq> 1"
  using ReadHandshake_client [of 767 "''vanilla.play.example.com''" 2 25565 "[1, 2, 3]"]
  by (simp_all add: sample_client_def sample_hs_def)

lemma sample_admitted: "snd (allow (v_now sample_visit) (newIPLimiter 9) (SplitHost (v_remote sample_visit)))"
  by (simp add: allow_def newIPLimiter_def sample_visit_def minute_def duration_sub_def Let_def)

lemma sample_host: "PackForHost (e_unicode sample_env) (e_cfg sample_env) (Host sample_hs) = (''vanilla'', Some sample_pack)"
proof -
  have "PackForHost sample_unicode valid_sample ''vanilla.play.example.com'' = (''vanilla'', Some sample_pack)" by code_simp
  then show ?thesis by (simp add: sample_env_def sample_hs_def)
qed

theorem login_starts_pack_witness:
  "m_state (h_manager (handle sample_env sample_visit (newIPLimiter 9) sample_manager sample_client)) = loading_state sample_env ''vanilla''
     \<and> h_gos (handle sample_env sample_visit (newIPLimiter 9) sample_manager sample_client) = [Start ''vanilla'' False Entry]"
  using login_starts_pack [OF sample_admitted sample_handshake sample_host, of sample_manager]
  by (simp add: sample_manager_def idle_state_def)

theorem login_relayed_witness:
  "\<exists>b'. h_backend (handle sample_env sample_visit (newIPLimiter 9)
       (sample_manager\<lparr>m_state := idle_state\<lparr>Phase := Ready, ActiveID := ''vanilla''\<rparr>\<rparr>) sample_client) = Some b'
     \<and> conn_out b' = Frame sample_hs @ [1, 2, 3]"
  using login_relayed [OF sample_admitted sample_handshake sample_host,
      of "sample_manager\<lparr>m_state := idle_state\<lparr>Phase := Ready, ActiveID := ''vanilla''\<rparr>\<rparr>"]
  by (auto simp: sample_visit_def)

lemma sample_wait:
  "waitReady sample_env ''vanilla'' (v_wait sample_visit + StartupWait (Runtime (e_cfg sample_env))) (v_seen sample_visit)
     = Some (False, ''Vanilla is starting. Please reconnect shortly.'')"
  by (simp add: sample_visit_def sample_env_def valid_sample_def sample_config_def idle_state_def zero_state_def second_def
      cfg_pack_def pack_of_def sample_pack_def)

theorem slow_start_message_lost_witness:
  "conn_out (h_client (handle sample_env sample_visit (newIPLimiter 9) sample_manager sample_client)) = []"
  using slow_start_message_lost [OF sample_handshake, of sample_manager sample_visit sample_env "''Vanilla is starting. Please reconnect shortly.''"]
    sample_wait sample_host
  by (simp add: sample_manager_def idle_state_def sample_client_def) (simp add: sample_visit_def second_def)


theorem connections_bounded_witness:
  "list_all (\<lambda>b. int b \<le> 8) (snd (Serve_run valid_sample 0 [Accept Accepted False False, Accept Accepted False False, Finished]))"
  using connections_bounded [of valid_sample 0 "[Accept Accepted False False, Accept Accepted False False, Finished]"]
  by (simp add: valid_sample_def sample_config_def list_all_iff)

end
