(* ===== verification/Fly_Machine.thy ===== *)
theory Fly_Machine
  imports Launcher
begin

text \<open>
  The client of the Fly Machines API, \<open>internal/flymachine/client.go\<close>: it reads the resources of the machine
  the supervisor runs on and changes them when the pack to start needs others.

  A decoded \<open>map[string]any\<close> is a value of type \<open>any\<close>. Numbers become \<open>float64\<close>: which float a number's text
  denotes, and how a float is printed, are an argument (\<open>strconv\<close>), used through \<open>floats_ok\<close>. \<open>http.Client.Do\<close>
  and \<open>url.Parse\<close> are arguments as well.
\<close>

subsection \<open>Values\<close>

datatype f64 = Integral int | Fraction string

record floats =
  fl_parse :: "string \<Rightarrow> f64 result"
  fl_text :: "f64 \<Rightarrow> string"

text \<open>Integers up to \<open>2 ^ 53\<close> are exact.\<close>

definition floats_ok :: "floats \<Rightarrow> bool" where
  "floats_ok fl = (\<forall>i. \<bar>i\<bar> \<le> 2 ^ 53 \<longrightarrow> fl_parse fl (itoa i) = Inr (Integral i))"

datatype any =
    ANil
  | ABool bool
  | AFloat f64
  | AInt int
  | AStr string
  | AArr "any list"
  | AMap "(string \<times> any) list"

text \<open>Decoding into \<open>any\<close>: a repeated key of an object keeps its last value.\<close>

fun to_any :: "floats \<Rightarrow> json \<Rightarrow> any result"
  and to_anys :: "floats \<Rightarrow> json list \<Rightarrow> any list result"
  and to_members :: "floats \<Rightarrow> (string \<times> json) list \<Rightarrow> (string \<times> any) list \<Rightarrow> (string \<times> any) list result" where
  "to_any fl JNull = Inr ANil"
| "to_any fl (JBool b) = Inr (ABool b)"
| "to_any fl (JNum i) = and_then (fl_parse fl (itoa i)) (\<lambda>f. Inr (AFloat f))"
| "to_any fl (JFrac t) = and_then (fl_parse fl t) (\<lambda>f. Inr (AFloat f))"
| "to_any fl (JStr s) = Inr (AStr s)"
| "to_any fl (JArr vs) = and_then (to_anys fl vs) (\<lambda>xs. Inr (AArr xs))"
| "to_any fl (JObj kvs) = and_then (to_members fl kvs []) (\<lambda>m. Inr (AMap m))"
| "to_anys fl [] = Inr []"
| "to_anys fl (v # vs) = and_then (to_any fl v) (\<lambda>x. and_then (to_anys fl vs) (\<lambda>xs. Inr (x # xs)))"
| "to_members fl [] m = Inr m"
| "to_members fl ((k, v) # kvs) m = and_then (to_any fl v) (\<lambda>x. to_members fl kvs (AList.update k x m))"

text \<open>
  \<open>json.Marshal\<close> of an \<open>any\<close>: the keys of a map are sorted, and an integral float of moderate size is printed as an integer.
\<close>

fun any_json :: "floats \<Rightarrow> any \<Rightarrow> json" where
  "any_json fl ANil = JNull"
| "any_json fl (ABool b) = JBool b"
| "any_json fl (AFloat f) =
     (case f of Integral i \<Rightarrow> if \<bar>i\<bar> \<le> 2 ^ 53 then JNum i else JFrac (fl_text fl f) | Fraction _ \<Rightarrow> JFrac (fl_text fl f))"
| "any_json fl (AInt i) = JNum i"
| "any_json fl (AStr s) = JStr s"
| "any_json fl (AArr xs) = JArr (map (any_json fl) xs)"
| "any_json fl (AMap m) = JObj (sort_key fst (map (\<lambda>(k, x). (k, any_json fl x)) m))"

subsection \<open>The client\<close>

record fly_client =
  fc_baseURL :: string
  fc_app :: string
  fc_machineID :: string
  fc_token :: string

record fly_request =
  rq_method :: string
  rq_url :: string
  rq_headers :: "(string \<times> string) list"
  rq_body :: "string option"

definition New_client :: "unicode \<Rightarrow> (string \<Rightarrow> (string \<times> string) result) \<Rightarrow> string \<Rightarrow> string \<Rightarrow> string \<Rightarrow> string \<Rightarrow> fly_client result" where
  "New_client u parse baseURL app machineID token =
     (let base = TrimRight (TrimSpace u baseURL) ''/'' in
      if base = [] \<or> TrimSpace u app = [] \<or> TrimSpace u machineID = [] \<or> TrimSpace u token = []
      then Inl (Errorf ''Fly resize requires API base, app, Machine ID, and token'')
      else case parse base of
          Inl _ \<Rightarrow> Inl (Errorf (''invalid Fly Machines API base '' @ Quote u base))
        | Inr (scheme, host) \<Rightarrow>
            if scheme = [] \<or> host = [] then Inl (Errorf (''invalid Fly Machines API base '' @ Quote u base))
            else Inr \<lparr>fc_baseURL = base, fc_app = TrimSpace u app, fc_machineID = TrimSpace u machineID, fc_token = TrimSpace u token\<rparr>)"

definition FromEnv :: "unicode \<Rightarrow> (string \<Rightarrow> (string \<times> string) result) \<Rightarrow> string list \<Rightarrow> fly_client option result" where
  "FromEnv u parse environ =
     (let machineID = TrimSpace u (Getenv environ ''FLY_MACHINE_ID'') in
      if machineID = [] then Inr None
      else
        let app0 = TrimSpace u (Getenv environ ''HOSTPACK_FLY_APP'');
            app = (if app0 = [] then TrimSpace u (Getenv environ ''FLY_APP_NAME'') else app0);
            token = TrimSpace u (Getenv environ ''HOSTPACK_FLY_API_TOKEN'')
        in if app = [] \<or> token = []
           then Inl (Errorf ''HOSTPACK_FLY_APP and HOSTPACK_FLY_API_TOKEN are required for per-pack Fly sizing'')
           else
             let base0 = TrimSpace u (Getenv environ ''HOSTPACK_FLY_API_BASE'');
                 base = (if base0 = [] then ''https://api.machines.dev'' else base0)
             in and_then (New_client u parse base app machineID token) (\<lambda>c. Inr (Some c)))"

text \<open>\<open>url.PathEscape\<close>.\<close>

definition hex_upper :: "nat \<Rightarrow> char" where
  "hex_upper d = (if d < 10 then char_of (48 + d) else char_of (55 + d))"

definition path_safe :: "char \<Rightarrow> bool" where
  "path_safe c =
     (let n = code_of c in 48 \<le> n \<and> n \<le> 57 \<or> 65 \<le> n \<and> n \<le> 90 \<or> 97 \<le> n \<and> n \<le> 122 \<or> c \<in> set ''-_.~$&+:=@'')"

definition PathEscape :: "string \<Rightarrow> string" where
  "PathEscape s = concat (map (\<lambda>c. if path_safe c then [c]
     else [CHR 0x25, hex_upper (code_of c div 16), hex_upper (code_of c mod 16)]) s)"

definition request :: "fly_client \<Rightarrow> string \<Rightarrow> string option \<Rightarrow> fly_request" where
  "request c meth body =
     \<lparr>rq_method = meth,
      rq_url = fc_baseURL c @ ''/v1/apps/'' @ PathEscape (fc_app c) @ ''/machines/'' @ PathEscape (fc_machineID c),
      rq_headers = [(''Authorization'', ''Bearer '' @ fc_token c), (''Accept'', ''application/json''), (''User-Agent'', ''hostpackd/1'')]
        @ (if body = None then [] else [(''Content-Type'', ''application/json'')]),
      rq_body = body\<rparr>"

text \<open>\<open>http.NewRequestWithContext\<close> may refuse the URL; \<open>fh_do\<close> answers a request or fails in transport.\<close>

record fly_http =
  fh_refuse :: "fly_request \<Rightarrow> go_error option"
  fh_do :: "fly_request \<Rightarrow> http_response result"

definition responseError :: "unicode \<Rightarrow> string \<Rightarrow> http_response \<Rightarrow> go_error" where
  "responseError u action resp =
     (let detail0 = TrimSpace u (take 4096 (Body resp)); detail = (if detail0 = [] then Status resp else detail0)
      in Errorf (action @ '': '' @ Status resp @ '': '' @ detail))"

definition send :: "fly_http \<Rightarrow> string \<Rightarrow> fly_request \<Rightarrow> http_response result" where
  "send h action rq =
     (case fh_refuse h rq of
        Some e \<Rightarrow> Inl e
      | None \<Rightarrow> (case fh_do h rq of Inl e \<Rightarrow> Inl (Wrap action e) | Inr r \<Rightarrow> Inr r))"

text \<open>The member \<open>config\<close> of the response; a null keeps the map nil.\<close>

definition set_config :: "floats \<Rightarrow> (string \<times> any) list option setter" where
  "set_config fl j x =
     (case j of
        JObj kvs \<Rightarrow> and_then (to_members fl kvs (case x of Some m \<Rightarrow> m | None \<Rightarrow> [])) (\<lambda>m. Inr (Some m))
      | JNull \<Rightarrow> Inr None
      | _ \<Rightarrow> Inl type_error)"

definition get_machine :: "unicode \<Rightarrow> floats \<Rightarrow> fly_http \<Rightarrow> fly_client \<Rightarrow> (string \<times> any) list result" where
  "get_machine u fl h c =
     and_then (send h ''read Fly Machine resources'' (request c ''GET'' None)) (\<lambda>resp.
       if StatusCode resp div 100 \<noteq> 2 then Inl (responseError u ''read Fly Machine resources'' resp)
       else case decode_first (decode_struct [(''config'', set_config fl)]) (take (4 * 2 ^ 20) (Body resp)) None of
           Inl e \<Rightarrow> Inl (Wrap ''decode Fly Machine resources'' e)
         | Inr None \<Rightarrow> Inl (Errorf ''Fly Machine response has no config'')
         | Inr (Some m) \<Rightarrow> Inr m)"

definition Check :: "unicode \<Rightarrow> floats \<Rightarrow> fly_http \<Rightarrow> fly_client \<Rightarrow> go_error option" where
  "Check u fl h c = (case get_machine u fl h c of Inl e \<Rightarrow> Some e | Inr _ \<Rightarrow> None)"

definition integer :: "any option \<Rightarrow> int option" where
  "integer v = (case v of Some (AFloat (Integral i)) \<Rightarrow> if - (2 ^ 63) \<le> i \<and> i < 2 ^ 63 then Some i else None | _ \<Rightarrow> None)"

definition resized :: "(string \<times> any) list \<Rightarrow> (string \<times> any) list \<Rightarrow> pack \<Rightarrow> (string \<times> any) list" where
  "resized config guest p =
     AList.update ''guest'' (AMap (AList.update ''cpu_kind'' (AStr ''shared'')
       (AList.update ''cpus'' (AInt (MachineCPUs p)) (AList.update ''memory_mb'' (AInt (MachineMemoryMB p)) guest)))) config"

definition update_body :: "floats \<Rightarrow> (string \<times> any) list \<Rightarrow> string" where
  "update_body fl config = marshal (JObj [(''config'', any_json fl (AMap config)), (''skip_launch'', JBool False)])"

text \<open>\<open>Ensure\<close>: the requests it sends, and its answer.\<close>

definition Fly_Ensure :: "unicode \<Rightarrow> floats \<Rightarrow> fly_http \<Rightarrow> fly_client \<Rightarrow> pack \<Rightarrow> fly_request list \<times> bool result" where
  "Fly_Ensure u fl h c p =
     (let gr = request c ''GET'' None in
      case get_machine u fl h c of
        Inl e \<Rightarrow> ([gr], Inl e)
      | Inr config \<Rightarrow>
          (case map_of config ''guest'' of
             Some (AMap guest) \<Rightarrow>
               (case (integer (map_of guest ''memory_mb''), integer (map_of guest ''cpus''), map_of guest ''cpu_kind'') of
                  (Some memory, Some cpus, Some (AStr kind)) \<Rightarrow>
                    if memory = MachineMemoryMB p \<and> cpus = MachineCPUs p \<and> kind = ''shared'' then ([gr], Inr False)
                    else
                      let body = update_body fl (resized config guest p);
                          rq = request c ''POST'' (Some body)
                      in (case send h ''update Fly Machine resources'' rq of
                            Inl e \<Rightarrow> ([gr, rq], Inl e)
                          | Inr resp \<Rightarrow>
                              if StatusCode resp div 100 \<noteq> 2 then ([gr, rq], Inl (responseError u ''update Fly Machine resources'' resp))
                              else ([gr, rq], Inr True))
                | _ \<Rightarrow> ([gr], Inl (Errorf ''Fly Machine guest resources are malformed'')))
           | _ \<Rightarrow> ([gr], Inl (Errorf ''Fly Machine config has no guest resources''))))"

subsection \<open>What a resize changes\<close>

lemma Fly_Ensure_cases:
  assumes "Fly_Ensure u fl h c p = (rqs, r)"
  shows "r = Inr False \<and> rqs = [request c ''GET'' None] \<and> (\<exists>config guest. get_machine u fl h c = Inr config \<and> map_of config ''guest'' = Some (AMap guest)
        \<and> integer (map_of guest ''memory_mb'') = Some (MachineMemoryMB p) \<and> integer (map_of guest ''cpus'') = Some (MachineCPUs p)
        \<and> map_of guest ''cpu_kind'' = Some (AStr ''shared''))
    \<or> r \<noteq> Inr False \<and> (rqs = [request c ''GET'' None] \<and> r \<noteq> Inr True \<or> (\<exists>config guest. get_machine u fl h c = Inr config \<and> map_of config ''guest'' = Some (AMap guest)
        \<and> rqs = [request c ''GET'' None, request c ''POST'' (Some (update_body fl (resized config guest p)))]))"
  using assms unfolding Fly_Ensure_def Let_def
  by (simp split: sum.splits option.splits any.splits if_splits prod.splits) blast+

text \<open>
  A machine is changed only when its resources differ from the pack's, and then nothing else of it
  changes: if \<open>Ensure\<close> sends a second request, that request posts the configuration just read with the
  pack's memory, its CPUs and the shared CPU kind in \<open>guest\<close>, every other setting as it was; and if it
  reports no change, it sent none, and the machine has exactly the pack's resources.
\<close>

theorem resize_is_minimal:
  assumes "Fly_Ensure u fl h c p = (rqs, r)"
  shows "(r = Inr False \<longrightarrow> rqs = [request c ''GET'' None] \<and> (\<exists>config guest. get_machine u fl h c = Inr config \<and> map_of config ''guest'' = Some (AMap guest)
        \<and> integer (map_of guest ''memory_mb'') = Some (MachineMemoryMB p) \<and> integer (map_of guest ''cpus'') = Some (MachineCPUs p)
        \<and> map_of guest ''cpu_kind'' = Some (AStr ''shared'')))
    \<and> (rqs \<noteq> [request c ''GET'' None] \<longrightarrow> (\<exists>config guest config' guest'. get_machine u fl h c = Inr config \<and> map_of config ''guest'' = Some (AMap guest)
        \<and> rqs = [request c ''GET'' None,
                 request c ''POST'' (Some (update_body fl config'))]
        \<and> (\<forall>k. k \<noteq> ''guest'' \<longrightarrow> map_of config' k = map_of config k) \<and> map_of config' ''guest'' = Some (AMap guest')
        \<and> (\<forall>k. k \<notin> {''memory_mb'', ''cpus'', ''cpu_kind''} \<longrightarrow> map_of guest' k = map_of guest k)
        \<and> map_of guest' ''memory_mb'' = Some (AInt (MachineMemoryMB p)) \<and> map_of guest' ''cpus'' = Some (AInt (MachineCPUs p))
        \<and> map_of guest' ''cpu_kind'' = Some (AStr ''shared'')))"
proof -
  note Fly_Ensure_cases [OF assms]
  then show ?thesis
  proof (elim disjE conjE exE)
    fix config guest
    assume a: "r \<noteq> Inr False" "get_machine u fl h c = Inr config" "map_of config ''guest'' = Some (AMap guest)"
      "rqs = [request c ''GET'' None, request c ''POST'' (Some (update_body fl (resized config guest p)))]"
    let ?g = "AList.update ''cpu_kind'' (AStr ''shared'') (AList.update ''cpus'' (AInt (MachineCPUs p)) (AList.update ''memory_mb'' (AInt (MachineMemoryMB p)) guest))"
    have "\<forall>k. k \<noteq> ''guest'' \<longrightarrow> map_of (resized config guest p) k = map_of config k"
      "map_of (resized config guest p) ''guest'' = Some (AMap ?g)"
      by (simp_all add: resized_def update_conv)
    moreover have "\<forall>k. k \<notin> {''memory_mb'', ''cpus'', ''cpu_kind''} \<longrightarrow> map_of ?g k = map_of guest k"
      "map_of ?g ''memory_mb'' = Some (AInt (MachineMemoryMB p))" "map_of ?g ''cpus'' = Some (AInt (MachineCPUs p))"
      "map_of ?g ''cpu_kind'' = Some (AStr ''shared'')"
      by (simp_all add: update_conv)
    ultimately show ?thesis using a by blast
  qed auto
qed

subsection \<open>A resize settles\<close>

text \<open>
  A value that survives being printed and read: its strings are valid UTF-8, its numbers integers a
  float holds exactly, the keys of its maps distinct. What is read back is \<open>canon\<close>: integers have
  become floats, and the keys of maps are sorted.
\<close>

fun plain :: "any \<Rightarrow> bool" where
  "plain (AFloat (Integral i)) = (\<bar>i\<bar> \<le> 2 ^ 53)"
| "plain (AFloat (Fraction t)) = False"
| "plain (AInt i) = (\<bar>i\<bar> \<le> 2 ^ 53)"
| "plain (AStr s) = valid_utf8 s"
| "plain (AArr xs) = list_all plain xs"
| "plain (AMap m) = (list_all (\<lambda>(k, x). valid_utf8 k \<and> plain x) m \<and> distinct (map fst m))"
| "plain _ = True"

fun canon :: "any \<Rightarrow> any" where
  "canon (AInt i) = AFloat (Integral i)"
| "canon (AArr xs) = AArr (map canon xs)"
| "canon (AMap m) = AMap (sort_key fst (map (\<lambda>(k, x). (k, canon x)) m))"
| "canon x = x"

lemma ok_any_json: "plain x \<Longrightarrow> ok_json (any_json fl x)"
  by (induction x rule: plain.induct) (auto simp: list_all_iff)

lemma to_members_append:
  assumes "\<And>k v. (k, v) \<in> set kvs \<Longrightarrow> to_any fl v = Inr (f k)" "distinct (map fst kvs)"
    "set (map fst kvs) \<inter> fst ` set m = {}"
  shows "to_members fl kvs m = Inr (m @ map (\<lambda>(k, v). (k, f k)) kvs)"
  using assms
proof (induction kvs arbitrary: m)
  case (Cons kv kvs)
  obtain k v where kv: "kv = (k, v)" by force
  have up: "AList.update k (f k) m = m @ [(k, f k)]"
    using Cons.prems(3) kv by (induction m) auto
  have "to_members fl kvs (m @ [(k, f k)]) = Inr ((m @ [(k, f k)]) @ map (\<lambda>(k, v). (k, f k)) kvs)"
    using Cons.prems kv by (intro Cons.IH) auto
  then show ?case using Cons.prems(1) [of k v] kv up by simp
qed simp

lemma sort_key_map_fst: "(\<And>x. fst (g x) = fst x) \<Longrightarrow> sort_key fst (map g xs) = map g (sort_key fst xs)"
proof (induction xs)
  case (Cons x xs)
  have "insort_key fst (g x) (map g ys) = map g (insort_key fst x ys)" for ys
    using Cons.prems by (induction ys) auto
  then show ?case using Cons by simp
qed simp

lemma any_json_read:
  assumes "floats_ok fl"
  shows "plain x \<Longrightarrow> to_any fl (any_json fl x) = Inr (canon x)"
proof (induction x rule: plain.induct)
  case (5 xs)
  then have "to_anys fl (map (any_json fl) xs) = Inr (map canon xs)"
    by (induction xs) auto
  then show ?case by simp
next
  case (6 m)
  let ?s = "sort_key fst m"
  have d: "distinct (map fst ?s)" using 6 by (simp add: distinct_map inj_on_def)
  have "to_members fl (map (\<lambda>(k, x). (k, any_json fl x)) ?s) []
      = Inr ([] @ map (\<lambda>(k, v). (k, canon (the (map_of ?s k)))) (map (\<lambda>(k, x). (k, any_json fl x)) ?s))"
  proof (rule to_members_append)
    fix k v assume "(k, v) \<in> set (map (\<lambda>(k, x). (k, any_json fl x)) ?s)"
    then obtain x where x: "(k, x) \<in> set ?s" "v = any_json fl x" by auto
    then have "map_of ?s k = Some x" using d by (simp add: map_of_is_SomeI)
    moreover have "to_any fl v = Inr (canon x)" using x 6 by (auto simp: list_all_iff)
    ultimately show "to_any fl v = Inr (canon (the (map_of ?s k)))" by simp
  qed (use d in \<open>auto simp: comp_def case_prod_unfold\<close>)
  also have "map (\<lambda>(k, v). (k, canon (the (map_of ?s k)))) (map (\<lambda>(k, x). (k, any_json fl x)) ?s)
      = map (\<lambda>(k, x). (k, canon x)) ?s"
    using d by (auto simp: map_of_is_SomeI)
  finally have "to_members fl (map (\<lambda>(k, x). (k, any_json fl x)) ?s) [] = Inr (map (\<lambda>(k, x). (k, canon x)) ?s)" by simp
  moreover have "sort_key fst (map (\<lambda>(k, x). (k, any_json fl x)) m) = map (\<lambda>(k, x). (k, any_json fl x)) ?s"
    "sort_key fst (map (\<lambda>(k, x). (k, canon x)) m) = map (\<lambda>(k, x). (k, canon x)) ?s"
    by (rule sort_key_map_fst; force)+
  ultimately show ?case by simp
qed (use assms in \<open>auto simp: floats_ok_def\<close>)

lemma map_of_sort_key: "distinct (map fst m) \<Longrightarrow> map_of (sort_key fst m) = map_of m"
  by (rule map_of_inject_set [THEN iffD2]) (auto simp: distinct_map inj_on_def)

lemma map_of_canon:
  "distinct (map fst m) \<Longrightarrow> map_of (sort_key fst (map (\<lambda>(k, x). (k, canon x)) m)) k = map_option canon (map_of m k)"
  using map_of_sort_key [of "map (\<lambda>(k, x). (k, canon x)) m"] map_of_map [of canon m] by (simp add: comp_def case_prod_unfold)

lemma plain_update: "plain (AMap m) \<Longrightarrow> valid_utf8 k \<Longrightarrow> plain x \<Longrightarrow> plain (AMap (AList.update k x m))"
  by (induction m) (auto simp: distinct_update update_keys)

abbreviation resized_guest :: "(string \<times> any) list \<Rightarrow> pack \<Rightarrow> (string \<times> any) list" where
  "resized_guest guest p \<equiv> AList.update ''cpu_kind'' (AStr ''shared'')
     (AList.update ''cpus'' (AInt (MachineCPUs p)) (AList.update ''memory_mb'' (AInt (MachineMemoryMB p)) guest))"

lemma plain_resized:
  assumes "map_of config ''guest'' = Some (AMap guest)" "plain (AMap config)"
    "\<bar>MachineMemoryMB p\<bar> \<le> 2 ^ 53" "\<bar>MachineCPUs p\<bar> \<le> 2 ^ 53"
  shows "plain (AMap (resized config guest p)) \<and> plain (AMap (resized_guest guest p))"
proof -
  have v: "valid_utf8 ''cpu_kind''" "valid_utf8 ''shared''" "valid_utf8 ''cpus''" "valid_utf8 ''memory_mb''" "valid_utf8 ''guest''"
    by (rule is_ascii_valid_utf8, code_simp)+
  have x: "plain (AStr ''shared'')" "plain (AInt (MachineCPUs p))" "plain (AInt (MachineMemoryMB p))"
    using v assms(3,4) by simp_all
  have "plain (AMap guest)"
  proof -
    have "\<forall>(k, x)\<in>set config. valid_utf8 k \<and> plain x" using assms(2) unfolding plain.simps(6) list_all_iff by (rule conjunct1)
    from bspec [OF this map_of_SomeD [OF assms(1)]] show ?thesis by simp
  qed
  then have g: "plain (AMap (resized_guest guest p))" by (intro plain_update v x)
  moreover have "plain (AMap (resized config guest p))"
    unfolding resized_def by (intro plain_update v g assms(2))
  ultimately show ?thesis by blast
qed

text \<open>What \<open>get\<close> reads of a response that carries a configuration.\<close>

definition machine_json :: "floats \<Rightarrow> (string \<times> any) list \<Rightarrow> (string \<times> json) list \<Rightarrow> json" where
  "machine_json fl config others = JObj ((''config'', any_json fl (AMap config)) # others)"

lemma set_members_others:
  "\<forall>(k, v)\<in>set kvs. find_field fs k = None \<Longrightarrow> set_members fs kvs x = Inr x"
  by (induction kvs) auto

lemma get_machine_reads:
  assumes "floats_ok fl" "plain (AMap config)" "ok_json (JObj others)" "\<forall>(k, v)\<in>set others. fold_name k \<noteq> ''CONFIG''"
    and "fh_refuse h (request c ''GET'' None) = None" "fh_do h (request c ''GET'' None) = Inr resp"
    and "StatusCode resp div 100 = 2" "Body resp = marshal (machine_json fl config others)" "length (Body resp) \<le> 4 * 2 ^ 20"
  shows "get_machine u fl h c = Inr (sort_key fst (map (\<lambda>(k, x). (k, canon x)) config))"
proof -
  let ?j = "machine_json fl config others"
  let ?f = "[(''config'', set_config fl)]"
  have nm: "fold_name ''config'' = ''CONFIG''" by code_simp
  have vc: "valid_utf8 ''config''" by (rule is_ascii_valid_utf8) code_simp
  have ok: "ok_json ?j"
    using assms(3) ok_any_json [OF assms(2), of fl] vc unfolding machine_json_def
    by (simp del: any_json.simps plain.simps valid_utf8.simps)
  have p: "parse_json (marshal ?j) = Some (?j, [])"
    using parse_json_text [OF json_text_marshal [OF ok], of "[]"] by simp
  have "find_field ?f k = None" if "(k, v) \<in> set others" for k v
  proof -
    have "fold_name k \<noteq> ''CONFIG''" using that assms(4) by auto
    moreover from this have "k \<noteq> ''config''" using nm by metis
    ultimately show ?thesis by (simp add: find_field_def nm del: fold_name.simps)
  qed
  then have oth: "set_members ?f others x = Inr x" for x by (intro set_members_others) auto
  have "to_members fl (sort_key fst (map (\<lambda>(k, x). (k, any_json fl x)) config)) []
      = Inr (sort_key fst (map (\<lambda>(k, x). (k, canon x)) config))"
    using any_json_read [OF assms(1,2)] by (auto simp: and_then_eq_Inr)
  then have "decode_struct ?f ?j None = Inr (Some (sort_key fst (map (\<lambda>(k, x). (k, canon x)) config)))"
    by (simp add: decode_struct_def machine_json_def find_field_def set_config_def oth)
  moreover have "skip_ws (marshal ?j) \<noteq> []" by (simp add: machine_json_def skip_ws_def json_ws_def code_of_def)
  ultimately show ?thesis
    using assms by (simp add: get_machine_def send_def decode_first_def p)
qed

text \<open>
  C22. A resize settles, so the machine does not reboot in a loop: when \<open>Ensure\<close> has posted a
  configuration and the API afterwards answers with that configuration, whatever else the answer
  holds, \<open>Ensure\<close> for the same pack reports that nothing has to change and posts nothing.
\<close>

theorem resize_settles:
  assumes "floats_ok fl" "get_machine u fl h c = Inr config" "map_of config ''guest'' = Some (AMap guest)"
    and "plain (AMap config)" "\<bar>MachineMemoryMB p\<bar> \<le> 2 ^ 53" "\<bar>MachineCPUs p\<bar> \<le> 2 ^ 53"
    and "Fly_Ensure u fl h c p = (rqs, Inr True)"
    and "ok_json (JObj others)" "\<forall>(k, v)\<in>set others. fold_name k \<noteq> ''CONFIG''"
    and "fh_refuse h' (request c ''GET'' None) = None" "fh_do h' (request c ''GET'' None) = Inr resp"
    and "StatusCode resp div 100 = 2" "Body resp = marshal (machine_json fl (resized config guest p) others)"
    and "length (Body resp) \<le> 4 * 2 ^ 20"
  shows "rqs = [request c ''GET'' None, request c ''POST'' (Some (update_body fl (resized config guest p)))]
    \<and> Fly_Ensure u fl h' c p = ([request c ''GET'' None], Inr False)"
proof
  show "rqs = [request c ''GET'' None, request c ''POST'' (Some (update_body fl (resized config guest p)))]"
    using Fly_Ensure_cases [OF assms(7)] by (auto simp: assms(2,3))
next
  let ?g = "resized_guest guest p"
  let ?r = "resized config guest p"
  have r: "plain (AMap ?r)" and g: "plain (AMap ?g)"
    using plain_resized [OF assms(3-6)] by simp_all
  have get: "get_machine u fl h' c = Inr (sort_key fst (map (\<lambda>(k, x). (k, canon x)) ?r))"
    by (rule get_machine_reads [OF assms(1) r assms(8-14)])
  have dr: "distinct (map fst ?r)" and dg: "distinct (map fst ?g)" using r g by auto
  have "map_of ?r ''guest'' = Some (AMap ?g)" by (simp add: resized_def update_conv)
  then have 1: "map_of (sort_key fst (map (\<lambda>(k, x). (k, canon x)) ?r)) ''guest''
      = Some (AMap (sort_key fst (map (\<lambda>(k, x). (k, canon x)) ?g)))"
    using map_of_canon [OF dr] by simp
  have 2: "map_of (sort_key fst (map (\<lambda>(k, x). (k, canon x)) ?g)) ''memory_mb'' = Some (AFloat (Integral (MachineMemoryMB p)))"
    "map_of (sort_key fst (map (\<lambda>(k, x). (k, canon x)) ?g)) ''cpus'' = Some (AFloat (Integral (MachineCPUs p)))"
    "map_of (sort_key fst (map (\<lambda>(k, x). (k, canon x)) ?g)) ''cpu_kind'' = Some (AStr ''shared'')"
    by (simp_all add: map_of_canon [OF dg] update_conv)
  have small: "- (2 ^ 63) \<le> MachineMemoryMB p \<and> MachineMemoryMB p < 2 ^ 63 \<and> - (2 ^ 63) \<le> MachineCPUs p \<and> MachineCPUs p < 2 ^ 63"
    using assms(5,6) by (auto simp: abs_le_iff)
  show "Fly_Ensure u fl h' c p = ([request c ''GET'' None], Inr False)"
    using small by (simp add: Fly_Ensure_def get 1 2 integer_def)
qed

subsection \<open>An example\<close>

definition sample_floats :: floats where
  "sample_floats = \<lparr>fl_parse = (\<lambda>s. case pnumber s of Some (JNum i, []) \<Rightarrow> Inr (Integral i) | _ \<Rightarrow> Inr (Fraction s)),
     fl_text = (\<lambda>f. case f of Integral i \<Rightarrow> itoa i | Fraction t \<Rightarrow> t)\<rparr>"

lemma sample_floats_ok: "floats_ok sample_floats"
  using pnumber_itoa [of "[]"] by (simp add: floats_ok_def sample_floats_def delimited_def)

definition sample_fly :: fly_client where
  "sample_fly = \<lparr>fc_baseURL = ''https://api.machines.dev'', fc_app = ''packs'', fc_machineID = ''m1'', fc_token = ''t''\<rparr>"

definition sample_guest :: "(string \<times> any) list" where
  "sample_guest = [(''cpu_kind'', AStr ''shared''), (''cpus'', AFloat (Integral 1)), (''memory_mb'', AFloat (Integral 512))]"

definition sample_machine :: "(string \<times> any) list" where
  "sample_machine = [(''guest'', AMap sample_guest), (''image'', AStr ''hostpack'')]"

definition api_answer :: "(string \<times> any) list \<Rightarrow> http_response" where
  "api_answer m = \<lparr>StatusCode = 200, Status = ''200 OK'', Body = marshal (machine_json sample_floats m [(''id'', JStr ''m1'')])\<rparr>"

definition sample_api :: "(string \<times> any) list \<Rightarrow> fly_http" where
  "sample_api m = \<lparr>fh_refuse = (\<lambda>_. None), fh_do = (\<lambda>_. Inr (api_answer m))\<rparr>"

lemma sample_machine_plain: "plain (AMap sample_machine)"
  by code_simp

lemma sample_others: "ok_json (JObj [(''id'', JStr ''m1'')]) \<and> fold_name ''id'' \<noteq> ''CONFIG''"
  by code_simp

lemma sample_read: "get_machine sample_unicode sample_floats (sample_api sample_machine) sample_fly = Inr sample_machine"
proof -
  have "length (Body (api_answer sample_machine)) \<le> 200" by code_simp
  then have "length (Body (api_answer sample_machine)) \<le> 4 * 2 ^ 20" by simp
  then have "get_machine sample_unicode sample_floats (sample_api sample_machine) sample_fly
      = Inr (sort_key fst (map (\<lambda>(k, x). (k, canon x)) sample_machine))"
    using sample_others by (intro get_machine_reads [OF sample_floats_ok sample_machine_plain, of "[(''id'', JStr ''m1'')]"])
      (auto simp: sample_api_def api_answer_def)
  also have "sort_key fst (map (\<lambda>(k, x). (k, canon x)) sample_machine) = sample_machine" by code_simp
  finally show ?thesis .
qed

lemma sample_guest_read: "map_of sample_machine ''guest'' = Some (AMap sample_guest)"
  by (simp add: sample_machine_def)

lemma sample_resized:
  "Fly_Ensure sample_unicode sample_floats (sample_api sample_machine) sample_fly sample_pack
     = ([request sample_fly ''GET'' None,
         request sample_fly ''POST'' (Some (update_body sample_floats (resized sample_machine sample_guest sample_pack)))], Inr True)"
  unfolding Fly_Ensure_def Let_def sample_read
  by (simp add: sample_guest_read integer_def sample_guest_def sample_pack_def send_def sample_api_def api_answer_def)

theorem resize_is_minimal_witness:
  "\<exists>config guest config' guest'. get_machine sample_unicode sample_floats (sample_api sample_machine) sample_fly = Inr config
     \<and> map_of config ''guest'' = Some (AMap guest) \<and> (\<forall>k. k \<noteq> ''guest'' \<longrightarrow> map_of config' k = map_of config k)
     \<and> map_of config' ''guest'' = Some (AMap guest') \<and> map_of guest' ''memory_mb'' = Some (AInt (MachineMemoryMB sample_pack))"
proof -
  have ne: "[request sample_fly ''GET'' None,
      request sample_fly ''POST'' (Some (update_body sample_floats (resized sample_machine sample_guest sample_pack)))]
      \<noteq> [request sample_fly ''GET'' None]" by simp
  show ?thesis using mp [OF conjunct2 [OF resize_is_minimal [OF sample_resized]] ne] by (elim exE conjE) (intro exI conjI)
qed

theorem resize_settles_witness:
  "Fly_Ensure sample_unicode sample_floats (sample_api (resized sample_machine sample_guest sample_pack)) sample_fly sample_pack
     = ([request sample_fly ''GET'' None], Inr False)"
proof -
  let ?m = "resized sample_machine sample_guest sample_pack"
  have "length (Body (api_answer ?m)) \<le> 200" by code_simp
  then have len: "length (Body (api_answer ?m)) \<le> 4 * 2 ^ 20" by simp
  show ?thesis
    by (rule resize_settles [OF sample_floats_ok sample_read sample_guest_read sample_machine_plain _ _ sample_resized, of "[(''id'', JStr ''m1'')]", THEN conjunct2])
      (use sample_others len in \<open>auto simp: sample_api_def api_answer_def sample_pack_def\<close>)
qed

end
