(* ===== verification/Web_UI.thy ===== *)
theory Web_UI
  imports Manager Log_Buffer
begin

text \<open>
  The dashboard of the supervisor, \<open>internal/webui/server.go\<close>, and the data it shows guests,
  \<open>internal/webui/guest.go\<close>: the handler chain \<open>securityHeaders(authenticate(mux))\<close> with what it uses of
  \<open>net/http\<close> (the routing of \<open>ServeMux\<close>, \<open>Request.BasicAuth\<close>, \<open>http.Error\<close>, query parsing).

  A handler takes the response headers set so far and gives the response; the manager is threaded
  because \<open>Touch\<close> changes it. The static page, style sheet and script of \<open>assets.go\<close> are fields of the
  server. \<open>HEAD\<close> responses are what the handler writes; the transport drops the body.
\<close>

subsection \<open>Requests\<close>

text \<open>
  \<open>wr_path\<close> is \<open>URL.EscapedPath()\<close>, \<open>wr_query\<close> is \<open>URL.RawQuery\<close>, and \<open>wr_auth\<close> the Authorization header
  (empty when there is none).
\<close>

record web_request =
  wr_method :: string
  wr_path :: string
  wr_query :: string
  wr_auth :: string
  wr_http11 :: bool

text \<open>Percent decoding, for a path segment and, with \<open>+\<close> for a space, for a query component.\<close>

fun url_unescape :: "bool \<Rightarrow> string \<Rightarrow> string option" where
  "url_unescape q [] = Some []"
| "url_unescape q (c # r) =
     (if c = CHR 0x25 then
        (case r of
           a # b # r' \<Rightarrow>
             (case (hex_val a, hex_val b) of
                (Some x, Some y) \<Rightarrow> map_option ((#) (char_of (16 * x + y))) (url_unescape q r')
              | _ \<Rightarrow> None)
         | _ \<Rightarrow> None)
      else map_option ((#) (if q \<and> c = CHR ''+'' then CHR '' '' else c)) (url_unescape q r))"

definition path_unescape :: "string \<Rightarrow> string" where
  "path_unescape s = (case url_unescape False s of Some t \<Rightarrow> t | None \<Rightarrow> s)"

text \<open>\<open>URL.Path\<close>.\<close>

abbreviation url_path :: "web_request \<Rightarrow> string" where
  "url_path rq \<equiv> path_unescape (wr_path rq)"

text \<open>\<open>URL.Query().Get(key)\<close>.\<close>

definition query_pair :: "string \<Rightarrow> (string \<times> string) option" where
  "query_pair piece =
     (if piece = [] \<or> CHR '';'' \<in> set piece then None
      else case (url_unescape True (takeWhile (\<lambda>c. c \<noteq> CHR ''='') piece), url_unescape True (drop 1 (dropWhile (\<lambda>c. c \<noteq> CHR ''='') piece))) of
          (Some k, Some v) \<Rightarrow> Some (k, v)
        | _ \<Rightarrow> None)"

definition query_get :: "string \<Rightarrow> string \<Rightarrow> string" where
  "query_get raw key =
     (case map_of (List.map_filter query_pair (split_on (CHR ''&'') raw)) key of Some v \<Rightarrow> v | None \<Rightarrow> [])"

text \<open>\<open>strconv.Atoi\<close>.\<close>

definition Atoi :: "string \<Rightarrow> int option" where
  "Atoi s =
     (let neg = (s \<noteq> [] \<and> hd s = CHR ''-''); ds = (if s \<noteq> [] \<and> (hd s = CHR ''-'' \<or> hd s = CHR ''+'') then tl s else s)
      in if ds = [] then None
         else case parse_digits 0 ds of
             None \<Rightarrow> None
           | Some n \<Rightarrow> let i = (if neg then - int n else int n) in if - (2 ^ 63) \<le> i \<and> i < 2 ^ 63 then Some i else None)"

subsection \<open>Basic authentication\<close>

definition b64_value :: "char \<Rightarrow> nat option" where
  "b64_value c =
     (let n = code_of c in
      if 65 \<le> n \<and> n \<le> 90 then Some (n - 65)
      else if 97 \<le> n \<and> n \<le> 122 then Some (n - 71)
      else if 48 \<le> n \<and> n \<le> 57 then Some (n + 4)
      else if n = 43 then Some 62
      else if n = 47 then Some 63
      else None)"

fun b64_quanta :: "string \<Rightarrow> string option" where
  "b64_quanta [] = Some []"
| "b64_quanta (a # b # c # d # r) =
     (case (b64_value a, b64_value b) of
        (Some x, Some y) \<Rightarrow>
          if d = CHR ''='' then
            (if r \<noteq> [] then None
             else if c = CHR ''='' then Some [char_of (4 * x + y div 16)]
             else (case b64_value c of
                     None \<Rightarrow> None
                   | Some z \<Rightarrow> Some [char_of (4 * x + y div 16), char_of (16 * (y mod 16) + z div 4)]))
          else
            (case (b64_value c, b64_value d) of
               (Some z, Some w) \<Rightarrow>
                 map_option (\<lambda>t. char_of (4 * x + y div 16) # char_of (16 * (y mod 16) + z div 4) # char_of (64 * (z mod 4) + w) # t)
                   (b64_quanta r)
             | _ \<Rightarrow> None)
      | _ \<Rightarrow> None)"
| "b64_quanta _ = None"

text \<open>\<open>base64.StdEncoding.DecodeString\<close> skips line breaks.\<close>

definition b64_decode :: "string \<Rightarrow> string option" where
  "b64_decode s = b64_quanta (filter (\<lambda>c. c \<noteq> CHR 0x0A \<and> c \<noteq> CHR 0x0D) s)"

definition BasicAuth :: "string \<Rightarrow> (string \<times> string) option" where
  "BasicAuth auth =
     (if map lower_char (take 6 auth) \<noteq> ''basic '' then None
      else case b64_decode (drop 6 auth) of
          None \<Rightarrow> None
        | Some cs \<Rightarrow>
            if CHR '':'' \<notin> set cs then None
            else Some (takeWhile (\<lambda>c. c \<noteq> CHR '':'') cs, drop 1 (dropWhile (\<lambda>c. c \<noteq> CHR '':'') cs)))"

definition ConstantTimeCompare :: "byte list \<Rightarrow> byte list \<Rightarrow> int" where
  "ConstantTimeCompare x y =
     (if length x \<noteq> length y then 0
      else if fold (\<lambda>(a, b) v. or v (xor a b)) (zip x y) 0 = 0 then 1 else 0)"

subsection \<open>Responses\<close>

type_synonym headers = "(string \<times> string) list"

text \<open>\<open>Moved p q\<close> is the redirect to the path \<open>p\<close> with the query \<open>q\<close> (its Location header and link).\<close>

datatype web_body = Text string | Moved string string

record web_response =
  wp_code :: nat
  wp_headers :: headers
  wp_body :: web_body

definition http_error :: "headers \<Rightarrow> string \<Rightarrow> nat \<Rightarrow> web_response" where
  "http_error h msg code =
     \<lparr>wp_code = code,
      wp_headers = AList.update ''X-Content-Type-Options'' ''nosniff''
        (AList.update ''Content-Type'' ''text/plain; charset=utf-8'' (AList.delete ''Content-Length'' h)),
      wp_body = Text (msg @ [newline])\<rparr>"

definition typed :: "headers \<Rightarrow> string \<Rightarrow> string \<Rightarrow> web_response" where
  "typed h type body = \<lparr>wp_code = 200, wp_headers = AList.update ''Content-Type'' type h, wp_body = Text body\<rparr>"

text \<open>No value written here fails to encode.\<close>

definition writeJSON :: "headers \<Rightarrow> json \<Rightarrow> web_response" where
  "writeJSON h j = typed h ''application/json; charset=utf-8'' (marshal j @ [newline])"

subsection \<open>What guests see\<close>

record guest_pack =
  gp_ID :: string
  gp_DisplayName :: string
  gp_PackURL :: string
  gp_Hostname :: string
  gp_Provider :: string
  gp_Java :: int

record guest_status =
  gs_Phase :: string
  gs_ActiveID :: string
  gs_ActiveName :: string
  gs_StateChange :: string

definition Catalog :: "config \<Rightarrow> guest_pack list" where
  "Catalog cfg =
     map (\<lambda>i. let p = the (pack_of cfg i) in
        \<lparr>gp_ID = i, gp_DisplayName = DisplayName p, gp_PackURL = PackURL p, gp_Hostname = i @ ''.'' @ Domain cfg,
         gp_Provider = Provider p, gp_Java = Java p\<rparr>) (sorted_ids (Packs cfg))"

definition catalog_json :: "guest_pack list \<Rightarrow> json" where
  "catalog_json gs =
     JObj [(''packs'', JArr (map (\<lambda>g. JObj ([(''id'', JStr (gp_ID g)), (''displayName'', JStr (gp_DisplayName g))]
       @ omit_string ''packUrl'' (gp_PackURL g)
       @ [(''hostname'', JStr (gp_Hostname g)), (''provider'', JStr (gp_Provider g)), (''java'', JNum (gp_Java g))])) gs))]"

definition PublicStatus :: "config \<Rightarrow> state \<Rightarrow> guest_status" where
  "PublicStatus cfg st =
     \<lparr>gs_Phase = Phase st, gs_ActiveID = ActiveID st,
      gs_ActiveName = (case pack_of cfg (ActiveID st) of Some p \<Rightarrow> DisplayName p | None \<Rightarrow> []),
      gs_StateChange = UpdatedAt st\<rparr>"

definition guest_json :: "guest_status \<Rightarrow> json" where
  "guest_json g =
     JObj ([(''phase'', JStr (gs_Phase g))] @ omit_string ''activeId'' (gs_ActiveID g) @ omit_string ''activeName'' (gs_ActiveName g)
       @ [(''stateChange'', JStr (gs_StateChange g))])"

subsection \<open>The server\<close>

record web_server =
  ws_cfg :: config
  ws_logs :: log_buffer
  ws_username :: string
  ws_password :: string
  ws_pageHTML :: string
  ws_appCSS :: string
  ws_appJS :: string

definition guestStatus :: "web_server \<Rightarrow> state \<Rightarrow> headers \<Rightarrow> web_response" where
  "guestStatus srv st h = writeJSON (AList.update ''Access-Control-Allow-Origin'' ''*'' h) (guest_json (PublicStatus (ws_cfg srv) st))"

definition pack_status_json :: "string \<Rightarrow> pack \<Rightarrow> json" where
  "pack_status_json i p =
     JObj [(''id'', JStr i), (''displayName'', JStr (DisplayName p)), (''provider'', JStr (Provider p)), (''java'', JNum (Java p)),
       (''heapMb'', JNum (MemoryMB p)), (''machineMemoryMb'', JNum (MachineMemoryMB p)), (''machineCpus'', JNum (MachineCPUs p))]"

definition web_status :: "web_server \<Rightarrow> string \<Rightarrow> state \<Rightarrow> headers \<Rightarrow> web_response" where
  "web_status srv now st h =
     writeJSON h (JObj [(''state'', state_json st),
       (''packs'', JArr (map (\<lambda>i. pack_status_json i (the (pack_of (ws_cfg srv) i))) (sorted_ids (Packs (ws_cfg srv))))),
       (''domain'', JStr (Domain (ws_cfg srv))), (''now'', JStr now)])"

definition log_limit :: "string \<Rightarrow> int" where
  "log_limit v =
     (let limit = (if v = [] then 200 else case Atoi v of Some n \<Rightarrow> n | None \<Rightarrow> 200);
          limit = (if limit < 1 then 1 else limit)
      in if limit > 500 then 500 else limit)"

definition recentLogs :: "web_server \<Rightarrow> web_request \<Rightarrow> headers \<Rightarrow> web_response" where
  "recentLogs srv rq h =
     writeJSON h (JObj [(''logs'', JArr (map JStr (Recent (ws_logs srv) (log_limit (query_get (wr_query rq) ''limit'')))))])"

text \<open>
  The routing of \<open>ServeMux\<close> for the seven patterns of \<open>Handler\<close>: all are for GET (and so HEAD), and
  \<open>GET /\<close> matches every path the others do not. Segments are compared after decoding.
\<close>

definition cleanPath :: "string \<Rightarrow> string" where
  "cleanPath p0 =
     (if p0 = [] then ''/''
      else let p = (if hd p0 = slash then p0 else slash # p0); np = Clean p
        in if last p = slash \<and> np \<noteq> ''/'' then np @ ''/'' else np)"

definition segments :: "string \<Rightarrow> string list" where
  "segments p = map path_unescape (split_on slash (tl p))"

definition route :: "web_server \<Rightarrow> string \<Rightarrow> state \<Rightarrow> web_request \<Rightarrow> headers \<Rightarrow> web_response" where
  "route srv now st rq h =
     (let segs = segments (wr_path rq) in
      if segs = [''healthz''] then typed h ''text/plain; charset=utf-8'' (''ok'' @ [newline])
      else if segs = [''api'', ''guest-status''] then guestStatus srv st h
      else if segs = [''assets'', ''app.css''] then typed h ''text/css; charset=utf-8'' (ws_appCSS srv)
      else if segs = [''assets'', ''app.js''] then typed h ''text/javascript; charset=utf-8'' (ws_appJS srv)
      else if segs = [''api'', ''status''] then web_status srv now st h
      else if segs = [''api'', ''logs''] then recentLogs srv rq h
      else typed h ''text/html; charset=utf-8'' (ws_pageHTML srv))"

definition mux :: "web_server \<Rightarrow> string \<Rightarrow> state \<Rightarrow> web_request \<Rightarrow> headers \<Rightarrow> web_response" where
  "mux srv now st rq h =
     (let get = (wr_method rq = ''GET'' \<or> wr_method rq = ''HEAD'') in
      if wr_path rq = ''*'' then
        \<lparr>wp_code = 400, wp_headers = (if wr_http11 rq then AList.update ''Connection'' ''close'' h else h), wp_body = Text []\<rparr>
      else if wr_method rq \<noteq> ''CONNECT'' \<and> cleanPath (wr_path rq) \<noteq> wr_path rq then
        \<lparr>wp_code = 301, wp_headers = (if get then AList.update ''Content-Type'' ''text/html; charset=utf-8'' h else h),
         wp_body = Moved (cleanPath (wr_path rq)) (wr_query rq)\<rparr>
      else if get then route srv now st rq h
      else http_error (AList.update ''Allow'' ''GET, HEAD'' h) ''Method Not Allowed'' 405)"

definition securityHeaders :: headers where
  "securityHeaders =
     [(''Cache-Control'', ''no-store''),
      (''Content-Security-Policy'', Join (map (\<lambda>(d, s). d @ '' '' @ [CHR 0x27] @ s @ [CHR 0x27])
         [(''default-src'', ''self''), (''connect-src'', ''self''), (''img-src'', ''self''), (''style-src'', ''self''), (''script-src'', ''self''),
          (''base-uri'', ''none''), (''form-action'', ''none''), (''frame-ancestors'', ''none'')]) ''; ''),
      (''Referrer-Policy'', ''no-referrer''), (''X-Content-Type-Options'', ''nosniff''), (''X-Frame-Options'', ''DENY'')]"

definition credentials_ok :: "web_server \<Rightarrow> web_request \<Rightarrow> bool" where
  "credentials_ok srv rq =
     (case BasicAuth (wr_auth rq) of
        None \<Rightarrow> False
      | Some (u, p) \<Rightarrow>
          ConstantTimeCompare (bytes_of u) (bytes_of (ws_username srv)) = 1
          \<and> ConstantTimeCompare (bytes_of p) (bytes_of (ws_password srv)) = 1)"

definition authenticate :: "web_server \<Rightarrow> answers \<Rightarrow> 's manager \<Rightarrow> web_request \<Rightarrow> headers \<Rightarrow> 's manager \<times> web_response" where
  "authenticate srv a m rq h =
     (if url_path rq = ''/healthz'' \<or> url_path rq = ''/api/guest-status'' then (m, mux srv (a_now a) (m_state m) rq h)
      else if \<not> credentials_ok srv rq then
        (m, http_error (AList.update ''WWW-Authenticate'' (''Basic realm='' @ [dquote] @ ''Hostpack'' @ [dquote] @ '', charset='' @ [dquote] @ ''UTF-8'' @ [dquote]) h)
              ''authentication required'' 401)
      else let m' = Touch a m in (m', mux srv (a_now a) (m_state m') rq h))"

definition Web_Handler :: "web_server \<Rightarrow> answers \<Rightarrow> 's manager \<Rightarrow> web_request \<Rightarrow> 's manager \<times> web_response" where
  "Web_Handler srv a m rq = authenticate srv a m rq securityHeaders"

subsection \<open>Credentials\<close>

lemma or_eq_0: "or (a :: byte) b = 0 \<longleftrightarrow> a = 0 \<and> b = 0"
  by (auto simp: bit_eq_iff bit_or_iff)

lemma xor_eq_0: "xor (a :: byte) b = 0 \<longleftrightarrow> a = b"
  by (auto simp: bit_eq_iff bit_xor_iff)

lemma fold_or: "fold (\<lambda>(a, b) v. or v (xor a b)) ps (v :: byte) = 0 \<longleftrightarrow> v = 0 \<and> (\<forall>(a, b)\<in>set ps. a = b)"
  by (induction ps arbitrary: v) (auto simp: or_eq_0 xor_eq_0)

lemma ConstantTimeCompare_eq: "ConstantTimeCompare x y = 1 \<longleftrightarrow> x = y"
proof -
  have "length x = length y \<Longrightarrow> (\<forall>(a, b)\<in>set (zip x y). a = b) \<longleftrightarrow> x = y"
    by (induction x y rule: list_induct2) auto
  then show ?thesis by (auto simp: ConstantTimeCompare_def fold_or)
qed

lemma credentials_ok_iff: "credentials_ok srv rq \<longleftrightarrow> BasicAuth (wr_auth rq) = Some (ws_username srv, ws_password srv)"
  by (auto simp: credentials_ok_def ConstantTimeCompare_eq split: option.splits)

text \<open>The encoding of RFC 4648, as a client sends its credentials.\<close>

definition b64_char :: "nat \<Rightarrow> char" where
  "b64_char n = (if n < 26 then char_of (n + 65) else if n < 52 then char_of (n + 71) else if n < 62 then char_of (n - 4)
     else if n = 62 then CHR ''+'' else CHR ''/'')"

fun b64_encode :: "string \<Rightarrow> string" where
  "b64_encode [] = []"
| "b64_encode [a] = [b64_char (code_of a div 4), b64_char (16 * (code_of a mod 4)), CHR ''='', CHR ''='']"
| "b64_encode [a, b] =
     [b64_char (code_of a div 4), b64_char (16 * (code_of a mod 4) + code_of b div 16), b64_char (4 * (code_of b mod 16)), CHR ''='']"
| "b64_encode (a # b # c # r) =
     [b64_char (code_of a div 4), b64_char (16 * (code_of a mod 4) + code_of b div 16),
      b64_char (4 * (code_of b mod 16) + code_of c div 64), b64_char (code_of c mod 64)] @ b64_encode r"

lemma b64_value_char: "n < 64 \<Longrightarrow> b64_value (b64_char n) = Some n"
  by (auto simp: b64_value_def b64_char_def code_of_def Let_def of_char_of)

lemma b64_char_plain: "n < 64 \<Longrightarrow> b64_char n \<notin> {CHR ''='', CHR 0x0A, CHR 0x0D}"
proof -
  assume "n < 64"
  then have "b64_value (b64_char n) = Some n" by (rule b64_value_char)
  moreover have "b64_value (CHR ''='') = None" "b64_value (CHR 0x0A) = None" "b64_value (CHR 0x0D) = None"
    by code_simp+
  ultimately show ?thesis by auto
qed

lemma code_of_less: "code_of c < 256"
  by (simp add: code_of_def)

lemma b64_parts:
  "code_of a div 4 < 64" "code_of a mod 4 \<le> 3" "code_of a div 16 \<le> 15" "code_of a mod 16 \<le> 15" "code_of a div 64 \<le> 3" "code_of a mod 64 < 64"
  using code_of_less [of a] by (simp_all add: less_Suc_eq_le [symmetric] less_mult_imp_div_less)

lemma b64_bounds:
  "code_of a div 4 < 64" "16 * (code_of a mod 4) < 64" "16 * (code_of a mod 4) + code_of b div 16 < 64"
  "4 * (code_of b mod 16) < 64" "4 * (code_of b mod 16) + code_of c div 64 < 64" "code_of c mod 64 < 64"
  using b64_parts(1,2) [of a] b64_parts(3,4) [of b] b64_parts(5,6) [of c] by linarith+

lemma char_ofI: "n = code_of c \<Longrightarrow> char_of n = c"
  by simp

lemma b64_bytes:
  "char_of (code_of a + code_of b div 16 div 16) = a"
  "char_of (16 * (code_of b div 16 mod 16) + code_of b mod 16) = b"
  "char_of (16 * (code_of b div 16 mod 16) + (code_of b mod 16 + code_of c div 64 div 4)) = b"
  "char_of (64 * (code_of c div 64 mod 4) + code_of c mod 64) = c"
proof -
  have 0: "code_of b div 16 div 16 = 0" "code_of c div 64 div 4 = 0" "code_of b div 16 mod 16 = code_of b div 16" "code_of c div 64 mod 4 = code_of c div 64"
    using b64_parts(3) [of b] b64_parts(5) [of c] by simp_all
  show "char_of (code_of a + code_of b div 16 div 16) = a"
    "char_of (16 * (code_of b div 16 mod 16) + code_of b mod 16) = b"
    "char_of (16 * (code_of b div 16 mod 16) + (code_of b mod 16 + code_of c div 64 div 4)) = b"
    "char_of (64 * (code_of c div 64 mod 4) + code_of c mod 64) = c"
    unfolding 0 by (rule char_ofI; simp)+
qed

lemma b64_char_neq:
  assumes "n < 64"
  shows "b64_char n \<noteq> CHR ''=''" "b64_char n \<noteq> CHR 0x0A" "b64_char n \<noteq> CHR 0x0D"
    "CHR 0x0A \<noteq> b64_char n" "CHR 0x0D \<noteq> b64_char n"
  using b64_char_plain [OF assms] by auto

lemma b64_encode_chars: "CHR 0x0A \<notin> set (b64_encode s) \<and> CHR 0x0D \<notin> set (b64_encode s)"
  by (induction s rule: b64_encode.induct) (simp_all add: b64_char_neq b64_bounds)

lemma b64_round_trip: "b64_decode (b64_encode s) = Some s"
proof -
  have "b64_quanta (b64_encode s) = Some s"
    by (induction s rule: b64_encode.induct) (simp_all add: b64_value_char b64_bounds b64_char_neq b64_bytes)
  moreover have "filter (\<lambda>c. c \<noteq> CHR 0x0A \<and> c \<noteq> CHR 0x0D) (b64_encode s) = b64_encode s"
    using b64_encode_chars [of s] by (intro filter_True) auto
  ultimately show ?thesis by (simp add: b64_decode_def)
qed

lemma BasicAuth_encoded: "CHR '':'' \<notin> set u \<Longrightarrow> BasicAuth (''Basic '' @ b64_encode (u @ '':'' @ p)) = Some (u, p)"
proof -
  assume u: "CHR '':'' \<notin> set u"
  have "map lower_char ''Basic '' = ''basic ''" by code_simp
  moreover have "takeWhile (\<lambda>c. c \<noteq> CHR '':'') (u @ '':'' @ p) = u" "dropWhile (\<lambda>c. c \<noteq> CHR '':'') (u @ '':'' @ p) = '':'' @ p"
    using u by (auto simp: takeWhile_tail dropWhile_append)
  ultimately show ?thesis by (simp add: BasicAuth_def b64_round_trip)
qed

text \<open>
  C31. The dashboard's credentials are exact: a client that sends the user name \<open>u\<close> (which by RFC 7617 has no
  colon) and the password \<open>p\<close> in a Basic Authorization header passes \<open>authenticate\<close> if and only if they are
  the configured ones, byte for byte.
\<close>

theorem basic_auth_exact:
  assumes "CHR '':'' \<notin> set u" "wr_auth rq = ''Basic '' @ b64_encode (u @ '':'' @ p)"
  shows "credentials_ok srv rq \<longleftrightarrow> u = ws_username srv \<and> p = ws_password srv"
  unfolding credentials_ok_iff assms(2) BasicAuth_encoded [OF assms(1)] by simp

subsection \<open>What is shown without credentials\<close>

lemma url_unescape_append:
  "url_unescape q a = Some x \<Longrightarrow> url_unescape q b = Some y \<Longrightarrow> url_unescape q (a @ b) = Some (x @ y)"
proof (induction q a arbitrary: x rule: url_unescape.induct)
  case (2 q c r)
  show ?case
  proof (cases "c = CHR 0x25")
    case True
    then obtain h l r' m n t where *: "r = h # l # r'" "hex_val h = Some m" "hex_val l = Some n" "url_unescape q r' = Some t"
        "x = char_of (16 * m + n) # t"
      using 2(3) by (auto split: list.splits option.splits)
    then have "url_unescape q (r' @ b) = Some (t @ y)"
      using 2(1) [OF True *(1)] *(2-4) 2(4) by auto
    then show ?thesis using True * by simp
  next
    case False
    then obtain t where "url_unescape q r = Some t" "x = (if q \<and> c = CHR ''+'' then CHR '' '' else c) # t"
      using 2(3) by auto
    then show ?thesis using False 2(2) [OF False _ 2(4), of t] by simp
  qed
qed simp

lemma url_unescape_None: "url_unescape q s = None \<Longrightarrow> CHR 0x25 \<in> set s"
  by (induction q s rule: url_unescape.induct) (auto split: if_splits)

lemma path_unescape_Some: "path_unescape s = t \<Longrightarrow> CHR 0x25 \<notin> set t \<Longrightarrow> url_unescape False s = Some t"
  using url_unescape_None [of False s] by (auto simp: path_unescape_def split: option.splits)

lemma url_unescape_slash: "url_unescape False s = Some t \<Longrightarrow> url_unescape False (slash # s) = Some (slash # t)"
  by simp

lemma cleanPath_hd:
  assumes "cleanPath p = p"
  shows "\<exists>t. p = slash # t"
proof -
  have clean: "\<exists>t. Clean (slash # q) = slash # t" for q
    by (simp add: Clean_def path_text_def IsAbs_def HasPrefix_def)
  have "\<exists>t. cleanPath p = slash # t"
  proof (cases "p = []")
    case False
    have "\<exists>q. (if hd p = slash then p else slash # p) = slash # q" using False by (cases p) simp_all
    then obtain q where "(if hd p = slash then p else slash # p) = slash # q" by blast
    moreover obtain t where "Clean (slash # q) = slash # t" using clean by blast
    ultimately show ?thesis using False unfolding cleanPath_def Let_def by simp
  qed (simp add: cleanPath_def)
  then show ?thesis using assms by simp
qed

text \<open>A path whose decoded segments are \<open>a\<close> and \<open>b\<close> decodes to \<open>/a/b\<close>.\<close>

lemma segments_url_path:
  assumes "cleanPath p = p" "segments p = [a, b]" "CHR 0x25 \<notin> set a" "CHR 0x25 \<notin> set b"
  shows "path_unescape p = slash # a @ slash # b"
proof -
  obtain t where p: "p = slash # t" using cleanPath_hd [OF assms(1)] by blast
  obtain x y where xy: "split_on slash t = [x, y]" "path_unescape x = a" "path_unescape y = b"
    using assms(2) p by (auto simp: segments_def)
  have t: "t = x @ slash # y" using Join_split_on [of slash t] xy(1) by simp
  have "url_unescape False x = Some a" "url_unescape False (slash # y) = Some (slash # b)"
    using path_unescape_Some [OF xy(2) assms(3)] url_unescape_slash [OF path_unescape_Some [OF xy(3) assms(4)]] by blast+
  then have "url_unescape False p = Some (slash # a @ slash # b)"
    unfolding p t by (rule url_unescape_slash [OF url_unescape_append])
  then show ?thesis by (simp add: path_unescape_def)
qed

lemma protected_paths:
  assumes "cleanPath p = p" "path_unescape p = ''/healthz'' \<or> path_unescape p = ''/api/guest-status''"
  shows "segments p \<noteq> [''api'', ''status'']" "segments p \<noteq> [''api'', ''logs'']"
  using assms segments_url_path [OF assms(1), of "''api''" "''status''"] segments_url_path [OF assms(1), of "''api''" "''logs''"]
  by auto

text \<open>Two servers that show the same static files.\<close>

definition same_assets :: "web_server \<Rightarrow> web_server \<Rightarrow> bool" where
  "same_assets s1 s2 = (ws_pageHTML s1 = ws_pageHTML s2 \<and> ws_appCSS s1 = ws_appCSS s2 \<and> ws_appJS s1 = ws_appJS s2)"

lemma mux_public:
  assumes "same_assets s1 s2" "PublicStatus (ws_cfg s1) st1 = PublicStatus (ws_cfg s2) st2"
    and "url_path rq = ''/healthz'' \<or> url_path rq = ''/api/guest-status''" "wr_method rq \<noteq> ''CONNECT''"
  shows "mux s1 now1 st1 rq h = mux s2 now2 st2 rq h"
proof (cases "cleanPath (wr_path rq) = wr_path rq")
  case True
  have "route s1 now1 st1 rq h = route s2 now2 st2 rq h"
    using protected_paths [OF True assms(3)] assms(1,2) unfolding same_assets_def route_def Let_def guestStatus_def by presburger
  then show ?thesis unfolding mux_def Let_def by presburger
qed (use assms(4) in \<open>simp add: mux_def Let_def\<close>)

text \<open>
  C9. Without the credentials nothing about the server is shown but the public status. Take two servers with
  the same static files whose public status (phase, active pack and its name, time of the state) is the same,
  whatever else differs: packs, hosts, logs, errors, passwords. A request without valid credentials gets the
  same response from both; and it never counts as activity, so it cannot keep the machine from stopping.
\<close>

theorem public_view:
  fixes m1 m2 :: "'s manager"
  assumes "same_assets s1 s2" "PublicStatus (ws_cfg s1) (m_state m1) = PublicStatus (ws_cfg s2) (m_state m2)"
    and "\<not> credentials_ok s1 rq" "\<not> credentials_ok s2 rq"
  shows "snd (Web_Handler s1 a1 m1 rq) = snd (Web_Handler s2 a2 m2 rq)
    \<and> fst (Web_Handler s1 a1 m1 rq) = m1"
proof (cases "wr_method rq = ''CONNECT''")
  case True
  then have "mux s1 n1 st1 rq h = mux s2 n2 st2 rq h" for n1 n2 st1 st2 h
    by (simp add: mux_def)
  then show ?thesis using assms by (simp add: Web_Handler_def authenticate_def)
next
  case False
  then show ?thesis
    using assms mux_public [OF assms(1,2) _ False] by (simp add: Web_Handler_def authenticate_def)
qed

subsection \<open>Headers\<close>

lemma keep_update:
  "map_of s \<subseteq>\<^sub>m map_of h \<Longrightarrow> map_of s k = None \<or> map_of s k = Some v \<Longrightarrow> map_of s \<subseteq>\<^sub>m map_of (AList.update k v h)"
  by (auto simp: map_le_def update_conv) (metis domI)

lemma keep_delete: "map_of s \<subseteq>\<^sub>m map_of h \<Longrightarrow> map_of s k = None \<Longrightarrow> map_of s \<subseteq>\<^sub>m map_of (AList.delete k h)"
  by (auto simp: map_le_def delete_conv)

lemma security_keys:
  "map_of securityHeaders ''Content-Type'' = None" "map_of securityHeaders ''Content-Length'' = None"
  "map_of securityHeaders ''Allow'' = None" "map_of securityHeaders ''Connection'' = None"
  "map_of securityHeaders ''WWW-Authenticate'' = None" "map_of securityHeaders ''Access-Control-Allow-Origin'' = None"
  "map_of securityHeaders ''X-Content-Type-Options'' = Some ''nosniff''"
  by (simp_all add: securityHeaders_def)

abbreviation secured :: "headers \<Rightarrow> bool" where
  "secured h \<equiv> map_of securityHeaders \<subseteq>\<^sub>m map_of h"

lemma secured_update [intro]: "secured h \<Longrightarrow> map_of securityHeaders k = None \<or> map_of securityHeaders k = Some v \<Longrightarrow> secured (AList.update k v h)"
  by (rule keep_update)

lemma secured_http_error: "secured h \<Longrightarrow> secured (wp_headers (http_error h msg code))"
  by (simp add: http_error_def security_keys secured_update keep_delete)

lemma secured_typed: "secured h \<Longrightarrow> secured (wp_headers (typed h t b))"
  by (simp add: typed_def security_keys secured_update)

lemma secured_route: "secured h \<Longrightarrow> secured (wp_headers (route srv now st rq h))"
  unfolding route_def Let_def guestStatus_def web_status_def recentLogs_def writeJSON_def
  by (simp add: secured_typed security_keys secured_update)

lemma secured_mux: "secured h \<Longrightarrow> secured (wp_headers (mux srv now st rq h))"
  unfolding mux_def Let_def by (simp add: secured_route secured_http_error security_keys secured_update)

text \<open>
  Every response of the dashboard carries the security headers with their values: errors,
  redirects and refused requests as well as pages, whatever the handlers set or delete.
\<close>

theorem security_headers_always: "map_of securityHeaders \<subseteq>\<^sub>m map_of (wp_headers (snd (Web_Handler srv a m rq)))"
  unfolding Web_Handler_def authenticate_def Let_def
  by (simp add: secured_mux secured_http_error security_keys secured_update)

subsection \<open>A path that is not what it seems\<close>

definition disguised :: web_request where
  "disguised = \<lparr>wr_method = ''GET'', wr_path = ''/api'' @ [CHR 0x25] @ ''2Fguest-status'', wr_query = [], wr_auth = [], wr_http11 = True\<rparr>"

text \<open>
  C37. The exemption from authentication looks at the decoded path and the router at the escaped one, so the
  page of the dashboard is served without credentials to a request for the guest status whose second slash is
  percent-encoded.
\<close>

theorem page_without_credentials:
  "\<not> credentials_ok srv disguised
     \<and> Web_Handler srv a m disguised = (m, typed securityHeaders ''text/html; charset=utf-8'' (ws_pageHTML srv))"
proof
  have "BasicAuth [] = None" by code_simp
  then show "\<not> credentials_ok srv disguised" by (simp add: credentials_ok_def disguised_def)
  have 1: "url_path disguised = ''/api/guest-status''" "cleanPath (wr_path disguised) = wr_path disguised"
    "segments (wr_path disguised) = [''api/guest-status'']" "wr_method disguised = ''GET''" "wr_path disguised \<noteq> ''*''"
    by code_simp+
  show "Web_Handler srv a m disguised = (m, typed securityHeaders ''text/html; charset=utf-8'' (ws_pageHTML srv))"
    unfolding Web_Handler_def authenticate_def mux_def route_def Let_def 1 using 1(5) by simp
qed

subsection \<open>Examples\<close>

definition sample_web :: "string \<Rightarrow> web_server" where
  "sample_web password = \<lparr>ws_cfg = valid_sample, ws_logs = sample_log, ws_username = ''hostpack'', ws_password = password,
     ws_pageHTML = ''page'', ws_appCSS = ''css'', ws_appJS = ''js''\<rparr>"

definition sample_request :: web_request where
  "sample_request = \<lparr>wr_method = ''GET'', wr_path = ''/api/status'', wr_query = [], wr_auth = ''Basic '' @ b64_encode ''hostpack:guess'', wr_http11 = True\<rparr>"

lemma sample_auth: "BasicAuth (wr_auth sample_request) = Some (''hostpack'', ''guess'')"
  using BasicAuth_encoded [of "''hostpack''" "''guess''"] by (simp add: sample_request_def)

theorem basic_auth_exact_witness:
  "credentials_ok (sample_web ''guess'') sample_request \<and> \<not> credentials_ok (sample_web ''correct horse'') sample_request"
  using basic_auth_exact [of "''hostpack''" sample_request "''guess''" "sample_web ''guess''"]
    basic_auth_exact [of "''hostpack''" sample_request "''guess''" "sample_web ''correct horse''"]
  by (simp add: sample_request_def sample_web_def)

definition sample_state :: "state \<Rightarrow> unit manager" where
  "sample_state st = \<lparr>m_state = st, m_process = None, m_expectedStop = False, m_lastActivity = 0, m_loginSeen = False,
     m_done = False, m_cancelled = False, m_disk = empty_disk, m_store = ()\<rparr>"

definition sample_time :: answers where
  "sample_time = \<lparr>a_now = sample_now, a_sizer = Inr False, a_dial = Inl EOF, a_pid = 1, a_exit = None, a_timeout = False\<rparr>"

theorem public_view_witness:
  "snd (Web_Handler (sample_web ''correct horse'') sample_time (sample_state idle_state) sample_request)
     = snd (Web_Handler (sample_web ''battery staple'') sample_time (sample_state (idle_state\<lparr>LastError := ''secret''\<rparr>)) sample_request)"
  using public_view [of "sample_web ''correct horse''" "sample_web ''battery staple''" "sample_state idle_state"
      "sample_state (idle_state\<lparr>LastError := ''secret''\<rparr>)" sample_request sample_time sample_time] sample_auth
  by (simp add: credentials_ok_iff same_assets_def sample_web_def PublicStatus_def sample_state_def)

end
