(* ===== verification/Hostpackd.thy ===== *)
theory Hostpackd
  imports Router Fly_Machine Web_UI
begin

text \<open>
  The program itself, \<open>cmd/hostpackd/main.go\<close>: the command line, the commands that validate the
  configuration, write the lock, export the guest catalog, list and restore backups and examine the
  installation, and \<open>serve\<close>, which puts the components together. Also \<open>config.Load\<close> of
  \<open>internal/config/config.go\<close> and \<open>FromConfig\<close> of \<open>internal/store/store.go\<close>.

  What lies outside the program is a record \<open>host\<close>: the environment variables, the YAML decoder, the HTTP
  services, the object store and rclone, the network listeners. A command is a function of the disk to the
  disk, the lines it prints and its error.
\<close>

subsection \<open>The flag package\<close>

text \<open>\<open>flag.FlagSet.Parse\<close> for string and boolean flags: a flag set names its flags and says which are boolean.\<close>

type_synonym flag_set = "(string \<times> bool) list"
type_synonym flag_values = "(string \<times> string) list"

definition ErrHelp :: go_error where
  "ErrHelp = Errorf ''flag: help requested''"

definition ParseBool :: "string \<Rightarrow> bool option" where
  "ParseBool s =
     (if s \<in> set [''1'', ''t'', ''T'', ''TRUE'', ''true'', ''True''] then Some True
      else if s \<in> set [''0'', ''f'', ''F'', ''FALSE'', ''false'', ''False''] then Some False
      else None)"

definition flag_value :: "string \<Rightarrow> string option" where
  "flag_value name = (if CHR ''='' \<in> set name then Some (drop 1 (dropWhile (\<lambda>c. c \<noteq> CHR ''='') name)) else None)"

fun Parse :: "unicode \<Rightarrow> flag_set \<Rightarrow> string list \<Rightarrow> flag_values \<Rightarrow> (flag_values \<times> string list) result" where
  "Parse u fs [] vs = Inr (vs, [])"
| "Parse u fs (s # args) vs =
     (if length s < 2 \<or> hd s \<noteq> CHR ''-'' then Inr (vs, s # args)
      else if s = ''--'' then Inr (vs, args)
      else
        let name = (if s ! 1 = CHR ''-'' then drop 2 s else drop 1 s); key = takeWhile (\<lambda>c. c \<noteq> CHR ''='') name in
        if name = [] \<or> hd name = CHR ''-'' \<or> hd name = CHR ''='' then Inl (Errorf (''bad flag syntax: '' @ s))
        else case map_of fs key of
            None \<Rightarrow> Inl (if key = ''help'' \<or> key = ''h'' then ErrHelp else Errorf (''flag provided but not defined: -'' @ key))
          | Some True \<Rightarrow>
              (case flag_value name of
                 None \<Rightarrow> Parse u fs args (AList.update key ''true'' vs)
               | Some v \<Rightarrow>
                   (case ParseBool v of
                      None \<Rightarrow> Inl (Errorf (''invalid boolean value '' @ Quote u v @ '' for -'' @ key @ '': parse error''))
                    | Some b \<Rightarrow> Parse u fs args (AList.update key (if b then ''true'' else ''false'') vs)))
          | Some False \<Rightarrow>
              (case flag_value name of
                 Some v \<Rightarrow> Parse u fs args (AList.update key v vs)
               | None \<Rightarrow>
                   (case args of
                      [] \<Rightarrow> Inl (Errorf (''flag needs an argument: -'' @ key))
                    | v # rest \<Rightarrow> Parse u fs rest (AList.update key v vs))))"

definition flag_of :: "flag_values \<Rightarrow> string \<Rightarrow> string \<Rightarrow> string" where
  "flag_of vs name def = (case map_of vs name of Some v \<Rightarrow> v | None \<Rightarrow> def)"

subsection \<open>The world around the program\<close>

text \<open>
  The three kinds of backup backends work on a common state \<open>'s\<close>: \<open>ho_fs\<close>, \<open>ho_s3\<close> and \<open>ho_rclone\<close> are
  \<open>NewFilesystem\<close>, \<open>NewS3_backend\<close> and \<open>NewRclone_backend\<close> on it.
\<close>

record 's host =
  ho_environ :: "string list"
  ho_unicode :: unicode
  ho_yaml :: "string \<Rightarrow> config result"
  ho_codec :: codec
  ho_http :: http_client
  ho_url :: "string \<Rightarrow> (string \<times> string) result"
  ho_minio :: "string \<Rightarrow> bool \<Rightarrow> string \<Rightarrow> go_error option"
  ho_fs :: "string \<Rightarrow> 's backend"
  ho_s3 :: "s3 \<Rightarrow> 's backend"
  ho_rclone :: "string \<Rightarrow> 's backend"
  ho_floats :: floats
  ho_fly :: fly_http
  ho_lookpath :: "string \<Rightarrow> go_error option"
  ho_listen :: "string \<Rightarrow> go_error option"
  ho_owners :: owners
  ho_exec :: "command \<Rightarrow> go_error option"

type_synonym outcome = "world \<times> string list \<times> go_error option"

definition envDefault :: "string list \<Rightarrow> string \<Rightarrow> string \<Rightarrow> string" where
  "envDefault environ key v = (let x = Getenv environ key in if x \<noteq> [] then x else v)"

definition read_text :: "world \<Rightarrow> string \<Rightarrow> string result" where
  "read_text w path = (case os_ReadFile w path of Inl e \<Rightarrow> Inl e | Inr b \<Rightarrow> Inr (string_of b))"

definition Config_Load :: "'s host \<Rightarrow> world \<Rightarrow> string \<Rightarrow> config result" where
  "Config_Load ho w path =
     (case read_text w path of
        Inl e \<Rightarrow> Inl e
      | Inr t \<Rightarrow>
          (case ho_yaml ho t of
             Inl e \<Rightarrow> Inl (Wrap ''decode config'' e)
           | Inr c \<Rightarrow> (case Validate (ho_unicode ho) c of (_, Some e) \<Rightarrow> Inl e | (c', None) \<Rightarrow> Inr c')))"

text \<open>\<open>LoadLock\<close> returns a lock, an error or both; the callers look at the error first.\<close>

definition lock_at :: "'s host \<Rightarrow> world \<Rightarrow> string \<Rightarrow> lock_file result" where
  "lock_at ho w path =
     (case LoadLock (ho_unicode ho) (read_text w path) of
        (_, Some e) \<Rightarrow> Inl e
      | (Some l, None) \<Rightarrow> Inr l
      | (None, None) \<Rightarrow> Inl (Errorf ''no lock''))"

subsection \<open>Backup stores\<close>

text \<open>\<open>New\<close> ignores the directory for temporary files it is given.\<close>

record 's archive_store =
  as_backend :: "'s backend"
  as_lockDigest :: "string \<Rightarrow> string"

definition FromConfig :: "'s host \<Rightarrow> storage_config \<Rightarrow> string \<Rightarrow> (string \<Rightarrow> string) \<Rightarrow> 's archive_store result" where
  "FromConfig ho c tempRoot digest =
     (let new = (\<lambda>b. \<lparr>as_backend = b, as_lockDigest = digest\<rparr>) in
      if Driver c = ''filesystem'' then Inr (new (ho_fs ho (FilesystemRoot c)))
      else if Driver c = ''s3'' then
        and_then (NewS3 (ho_url ho) (ho_minio ho) (Endpoint (S3 c)) (Bucket (S3 c)) (S3Prefix (S3 c)) (Region (S3 c)) (Secure (S3 c)))
          (\<lambda>b. Inr (new (ho_s3 ho b)))
      else if Driver c = ''rclone'' then Inr (new (ho_rclone ho (NewRclone (RcloneRemote c))))
      else Inl (Errorf (''unsupported store '' @ Quote (ho_unicode ho) (Driver c))))"

definition makeStore :: "'s host \<Rightarrow> config \<Rightarrow> lock_file \<Rightarrow> string \<Rightarrow> 's archive_store result" where
  "makeStore ho cfg lock root =
     FromConfig ho (Storage cfg) (path_join [root, ''runtime'', ''tmp''])
       (\<lambda>i. case map_of (lf_Packs lock) i of Some p \<Rightarrow> lp_IdentityDigest p | None \<Rightarrow> [])"

text \<open>Go ranges over the map in an order it does not fix; here it is the order of the list of packs.\<close>

definition firstPack :: "config \<Rightarrow> string" where
  "firstPack c = (case Packs c of (i, _) # _ \<Rightarrow> i | [] \<Rightarrow> ''doctor'')"

subsection \<open>Files\<close>

text \<open>What happens between \<open>CreateTemp\<close> and \<open>Rename\<close>: \<open>Chmod\<close>, \<open>Write\<close>, \<open>Sync\<close> and \<open>Close\<close>.\<close>

definition fill_temp :: "world \<Rightarrow> string \<Rightarrow> byte list \<Rightarrow> mode \<Rightarrow> world \<times> go_error option" where
  "fill_temp w tmp b m =
     (case os_Chmod w tmp m of
        Inl e \<Rightarrow> (w, Some e)
      | Inr w1 \<Rightarrow> let (w2, e, _) = write_temp w1 tmp (Inr b) in (w2, e))"

definition atomicWrite :: "world \<Rightarrow> string \<Rightarrow> byte list \<Rightarrow> mode \<Rightarrow> world \<times> go_error option" where
  "atomicWrite w path b m =
     (case os_MkdirAll w (path_dir path) 0x1E8 of
        Inl e \<Rightarrow> (w, Some e)
      | Inr w1 \<Rightarrow>
          (case os_CreateTemp w1 (path_dir path) ''.write-'' of
             Inl e \<Rightarrow> (w1, Some e)
           | Inr (w2, tmp) \<Rightarrow>
               (case fill_temp w2 tmp b m of
                  (w3, Some e) \<Rightarrow> (remove_temp w3 tmp, Some e)
                | (w3, None) \<Rightarrow>
                    (case os_Rename w3 tmp path of
                       Inl e \<Rightarrow> (remove_temp w3 tmp, Some e)
                     | Inr w4 \<Rightarrow> (remove_temp w4 tmp, None)))))"

definition writable :: "world \<Rightarrow> string \<Rightarrow> world \<times> go_error option" where
  "writable w path =
     (case os_MkdirAll w path 0x1E8 of
        Inl e \<Rightarrow> (w, Some e)
      | Inr w1 \<Rightarrow>
          (case os_CreateTemp w1 path ''.doctor-'' of
             Inl e \<Rightarrow> (w1, Some e)
           | Inr (w2, name) \<Rightarrow>
               (case w_fault w2 ''close'' name of
                  Some e \<Rightarrow> (w2, Some e)
                | None \<Rightarrow> attempt w2 (os_Remove w2 name))))"

text \<open>A symbolic link has every permission.\<close>

definition mode_of :: "node \<Rightarrow> mode" where
  "mode_of n = (case n of File m _ \<Rightarrow> m | Dir m _ \<Rightarrow> m | Symlink _ \<Rightarrow> 0x1FF)"

definition executable :: "'s host \<Rightarrow> world \<Rightarrow> string \<Rightarrow> go_error option" where
  "executable ho w path =
     (if slash \<in> set path then
        (case os_Stat w path of
           Inl e \<Rightarrow> Some e
         | Inr n \<Rightarrow> if and (mode_of n) 0x49 = 0 then Some (Errorf ''not executable'') else None)
      else ho_lookpath ho path)"

definition minimumEnvironmentLength :: "string list \<Rightarrow> string \<Rightarrow> nat \<Rightarrow> go_error option" where
  "minimumEnvironmentLength environ name minimum =
     (if length (Getenv environ name) < minimum
      then Some (Errorf (name @ '' must contain at least '' @ nat_to_string minimum @ '' characters'')) else None)"

subsection \<open>Commands\<close>

record common_flags =
  configPath :: string
  lockPath :: string
  stateRoot :: string

definition common :: flag_set where
  "common = [(''config'', False), (''lock'', False), (''state'', False)]"

definition config_default :: "string list \<Rightarrow> string" where
  "config_default environ = envDefault environ ''HOSTPACK_CONFIG'' ''/app/config/packs.yaml''"

definition addCommon :: "string list \<Rightarrow> flag_values \<Rightarrow> common_flags" where
  "addCommon environ vs =
     \<lparr>configPath = flag_of vs ''config'' (config_default environ),
      lockPath = flag_of vs ''lock'' (envDefault environ ''HOSTPACK_LOCK'' ''/app/config/packs.lock.json''),
      stateRoot = flag_of vs ''state'' (envDefault environ ''HOSTPACK_STATE'' ''/state'')\<rparr>"

definition load :: "'s host \<Rightarrow> world \<Rightarrow> common_flags \<Rightarrow> (config \<times> lock_file) result" where
  "load ho w c =
     and_then (Config_Load ho w (configPath c)) (\<lambda>cfg.
     and_then (lock_at ho w (lockPath c)) (\<lambda>lock.
       case Matches (ho_unicode ho) lock cfg of Some e \<Rightarrow> Inl e | None \<Rightarrow> Inr (cfg, lock)))"

definition validate :: "'s host \<Rightarrow> world \<Rightarrow> string list \<Rightarrow> outcome" where
  "validate ho w args =
     (case Parse (ho_unicode ho) common args [] of
        Inl e \<Rightarrow> (w, [], Some e)
      | Inr (vs, _) \<Rightarrow>
          (case load ho w (addCommon (ho_environ ho) vs) of
             Inl e \<Rightarrow> (w, [], Some e)
           | Inr (cfg, lock) \<Rightarrow>
               (w, [''valid: '' @ nat_to_string (length (Packs cfg)) @ '' packs, domain '' @ Domain cfg @ '', lock '' @ lf_ConfigDigest lock], None)))"

definition guestCommand :: "'s host \<Rightarrow> world \<Rightarrow> string list \<Rightarrow> outcome" where
  "guestCommand ho w args =
     (if args = [] \<or> hd args \<noteq> ''export'' then (w, [], Some (Errorf ''guest requires export''))
      else case Parse (ho_unicode ho) [(''config'', False), (''output'', False)] (tl args) [] of
          Inl e \<Rightarrow> (w, [], Some e)
        | Inr (vs, _) \<Rightarrow>
            (case Config_Load ho w (flag_of vs ''config'' (config_default (ho_environ ho))) of
               Inl e \<Rightarrow> (w, [], Some e)
             | Inr cfg \<Rightarrow>
                 let (w1, e) = atomicWrite w (flag_of vs ''output'' ''guest/catalog.json'')
                       (bytes_of (MarshalIndent (catalog_json (Catalog cfg)) @ [newline])) 0x1A4
                 in (w1, [], e)))"

text \<open>\<open>lock --check\<close>.\<close>

definition check_lock :: "'s host \<Rightarrow> world \<Rightarrow> config \<Rightarrow> string \<Rightarrow> string \<Rightarrow> outcome" where
  "check_lock ho w cfg path previousPath =
     (case lock_at ho w path of
        Inl e \<Rightarrow> (w, [], Some e)
      | Inr l \<Rightarrow>
          (case Matches (ho_unicode ho) l cfg of
             Some e \<Rightarrow> (w, [], Some e)
           | None \<Rightarrow>
               if previousPath = [] then (w, [''lock matches config''], None)
               else (case lock_at ho w previousPath of
                   Inl e \<Rightarrow> (w, [], Some e)
                 | Inr previous \<Rightarrow>
                     (case CheckImmutable (ho_unicode ho) previous l of
                        Some e \<Rightarrow> (w, [], Some e)
                      | None \<Rightarrow> (w, [''lock matches config''], None)))))"

text \<open>\<open>lock\<close> without \<open>--check\<close>, from the resolver on.\<close>

definition write_lock :: "'s host \<Rightarrow> world \<Rightarrow> config \<Rightarrow> string \<Rightarrow> world \<times> go_error option" where
  "write_lock ho w cfg path =
     (case Generate (ho_unicode ho) (ho_http ho) \<lparr>ModrinthBase = [], CurseForgeBase = [], CurseForgeKey = Getenv (ho_environ ho) ''CF_API_KEY''\<rparr> cfg of
        Inl e \<Rightarrow> (w, Some e)
      | Inr l \<Rightarrow>
          (case (case lock_at ho w path of
                   Inr previous \<Rightarrow> CheckImmutable (ho_unicode ho) previous l
                 | Inl e \<Rightarrow> if is_not_exist e then None else Some e) of
             Some e \<Rightarrow> (w, Some e)
           | None \<Rightarrow> atomicWrite w path (bytes_of (LockFile_Marshal l @ [newline])) 0x1A4))"

definition lockCommand :: "'s host \<Rightarrow> world \<Rightarrow> string list \<Rightarrow> outcome" where
  "lockCommand ho w args =
     (case Parse (ho_unicode ho) (common @ [(''check'', True), (''previous'', False)]) args [] of
        Inl e \<Rightarrow> (w, [], Some e)
      | Inr (vs, _) \<Rightarrow>
          let c = addCommon (ho_environ ho) vs in
          (case Config_Load ho w (configPath c) of
             Inl e \<Rightarrow> (w, [], Some e)
           | Inr cfg \<Rightarrow>
               if flag_of vs ''check'' ''false'' = ''true'' then check_lock ho w cfg (lockPath c) (flag_of vs ''previous'' [])
               else let (w1, e) = write_lock ho w cfg (lockPath c) in (w1, [], e)))"

text \<open>\<open>CreatedAt.Format(time.RFC3339)\<close>: without the fraction of the second.\<close>

definition format_seconds :: "string \<Rightarrow> string" where
  "format_seconds t =
     (let rest = drop 19 t; zone = (if rest \<noteq> [] \<and> hd rest = CHR ''.'' then dropWhile is_digit (tl rest) else rest)
      in take 19 t @ (if zone = ''+00:00'' \<or> zone = ''-00:00'' then ''Z'' else zone))"

fun backup_list :: "'s backend \<Rightarrow> 's \<Rightarrow> string list \<Rightarrow> string list \<times> go_error option" where
  "backup_list be s [] = ([], None)"
| "backup_list be s (i # ids) =
     (case Head be s i of
        Inl e \<Rightarrow> ([], Some e)
      | Inr h \<Rightarrow>
          let line = (case h of
                None \<Rightarrow> i @ '': no backup''
              | Some m \<Rightarrow> i @ '': generation='' @ nat_to_string (unat (Generation m)) @ '' created='' @ format_seconds (CreatedAt m) @ '' sha256='' @ SHA256 m);
              (out, e) = backup_list be s ids
          in (line # out, e))"

definition backup_restore :: "'s host \<Rightarrow> 's backend \<Rightarrow> 's \<Rightarrow> world \<Rightarrow> config \<Rightarrow> string \<Rightarrow> string list \<Rightarrow> outcome" where
  "backup_restore ho be s w cfg root rest =
     (if length rest \<noteq> 1 then (w, [], Some (Errorf ''backup restore requires one pack ID''))
      else let i = hd rest in
        if pack_of cfg i = None then (w, [], Some (Errorf (''unknown pack '' @ Quote (ho_unicode ho) i)))
        else let dest = path_join [root, ''instances'', i, ''server''] in
          (case Restore be (ho_unicode ho) (ho_codec ho) s w i dest of
             (w1, Inl e) \<Rightarrow> (w1, [], Some e)
           | (w1, Inr m) \<Rightarrow> (w1, [''restored '' @ i @ '' generation '' @ nat_to_string (unat (Generation m)) @ '' to '' @ dest], None)))"

definition backupCommand :: "'s host \<Rightarrow> 's \<Rightarrow> world \<Rightarrow> string list \<Rightarrow> outcome" where
  "backupCommand ho s w args =
     (if args = [] then (w, [], Some (Errorf ''backup requires list or restore''))
      else case Parse (ho_unicode ho) common (tl args) [] of
          Inl e \<Rightarrow> (w, [], Some e)
        | Inr (vs, rest) \<Rightarrow>
            let c = addCommon (ho_environ ho) vs in
            (case load ho w c of
               Inl e \<Rightarrow> (w, [], Some e)
             | Inr (cfg, lock) \<Rightarrow>
                 (case makeStore ho cfg lock (stateRoot c) of
                    Inl e \<Rightarrow> (w, [], Some e)
                  | Inr st \<Rightarrow>
                      if hd args = ''list'' then (let (out, e) = backup_list (as_backend st) s (sorted_ids (Packs cfg)) in (w, out, e))
                      else if hd args = ''restore'' then backup_restore ho (as_backend st) s w cfg (stateRoot c) rest
                      else (w, [], Some (Errorf (''unknown backup action '' @ Quote (ho_unicode ho) (hd args)))))))"

definition doctor_line :: "string \<times> go_error option \<Rightarrow> string" where
  "doctor_line c =
     (case c of
        (name, Some e) \<Rightarrow> ''FAIL '' @ name @ replicate (16 - length name) (CHR '' '') @ '' '' @ error_text e
      | (name, None) \<Rightarrow> ''OK   '' @ name)"

definition store_check :: "'s host \<Rightarrow> 's \<Rightarrow> config \<Rightarrow> lock_file \<Rightarrow> string \<Rightarrow> go_error option" where
  "store_check ho s cfg lock root =
     (case makeStore ho cfg lock root of
        Inl e \<Rightarrow> Some e
      | Inr st \<Rightarrow> (case Head (as_backend st) s (firstPack cfg) of Inl e \<Rightarrow> Some e | Inr _ \<Rightarrow> None))"

definition fly_check :: "'s host \<Rightarrow> go_error option" where
  "fly_check ho =
     (case FromEnv (ho_unicode ho) (ho_url ho) (ho_environ ho) of
        Inl e \<Rightarrow> Some e
      | Inr None \<Rightarrow> None
      | Inr (Some c) \<Rightarrow> Check (ho_unicode ho) (ho_floats ho) (ho_fly ho) c)"

definition doctor :: "'s host \<Rightarrow> 's \<Rightarrow> world \<Rightarrow> string list \<Rightarrow> outcome" where
  "doctor ho s w args =
     (case Parse (ho_unicode ho) common args [] of
        Inl e \<Rightarrow> (w, [], Some e)
      | Inr (vs, _) \<Rightarrow>
          let c = addCommon (ho_environ ho) vs in
          (case load ho w c of
             Inl e \<Rightarrow> (w, [], Some e)
           | Inr (cfg, lock) \<Rightarrow>
               let (w1, we) = writable w (path_join [stateRoot c, ''runtime'']);
                   checks = [(''state runtime'', we), (''Java 17'', executable ho w1 ''/opt/java17/bin/java''),
                     (''Java 21'', executable ho w1 ''/opt/java21/bin/java''),
                     (''start command'', executable ho w1 (envDefault (ho_environ ho) ''HOSTPACK_START_COMMAND'' ''/start'')),
                     (''dashboard password'', minimumEnvironmentLength (ho_environ ho) ''HOSTPACK_WEB_PASSWORD'' 16),
                     (''backup store'', store_check ho s cfg lock (stateRoot c)), (''Fly resize API'', fly_check ho)]
               in (w1, map doctor_line checks,
                   if list_ex (\<lambda>(_, e). e \<noteq> None) checks then Some (Errorf ''one or more doctor checks failed'') else None)))"

subsection \<open>Serving\<close>

text \<open>
  What \<open>serve\<close> has put together before it listens: the supervisor with its first goroutines, the dashboard,
  and the Fly client. \<open>FromEnv\<close> returns a \<open>*flymachine.Client\<close>, which becomes a \<open>ResourceSizer\<close> interface
  value when it is passed to \<open>NewManager\<close>: also a nil pointer is a sizer that is not nil.
\<close>

record 's service =
  sv_env :: "'s env"
  sv_manager :: "'s manager"
  sv_gos :: "goroutine list"
  sv_web :: web_server
  sv_log_os :: log_os
  sv_sizer :: "fly_client option"

definition serve_launcher :: "'s host \<Rightarrow> string \<Rightarrow> itzg_launcher" where
  "serve_launcher ho root =
     \<lparr>StateRoot = root, DataLink = ''/data'', StartCommand = envDefault (ho_environ ho) ''HOSTPACK_START_COMMAND'' ''/start'',
      RCONPassword = Getenv (ho_environ ho) ''RCON_PASSWORD''\<rparr>"

definition serve_env :: "'s host \<Rightarrow> config \<Rightarrow> lock_file \<Rightarrow> 's archive_store \<Rightarrow> string \<Rightarrow> 's env" where
  "serve_env ho cfg lock st root =
     \<lparr>e_cfg = cfg, e_lock = lock, e_store = as_backend st, e_codec = ho_codec ho, e_unicode = ho_unicode ho,
      e_digest = Some (as_lockDigest st),
      e_launch = launcher_of (serve_launcher ho root) (ho_unicode ho) (ho_environ ho) (ho_owners ho) (ho_exec ho),
      e_sizer = True, e_root = root,
      e_rcon = \<lparr>Address = ''127.0.0.1:25575'', Password = Getenv (ho_environ ho) ''RCON_PASSWORD''\<rparr>\<rparr>"

definition serve_setup ::
    "'s host \<Rightarrow> web_server \<Rightarrow> answers \<Rightarrow> log_os \<Rightarrow> world \<Rightarrow> 's \<Rightarrow> string list \<Rightarrow> 's service result" where
  "serve_setup ho assets a los w s args =
     and_then (Parse (ho_unicode ho) common args []) (\<lambda>(vs, _).
       let c = addCommon (ho_environ ho) vs in
       and_then (load ho w c) (\<lambda>(cfg, lock).
         let webPassword = Getenv (ho_environ ho) ''HOSTPACK_WEB_PASSWORD'' in
         if length webPassword < 16 then Inl (Errorf ''HOSTPACK_WEB_PASSWORD must contain at least 16 characters'')
         else case NewLogBuffer los (path_join [stateRoot c, ''runtime'', ''dashboard.log'']) 500 (4 * 2 ^ 20) of
             Inl e \<Rightarrow> Inl (Wrap ''open dashboard log'' e)
           | Inr (los1, logs) \<Rightarrow>
               and_then (makeStore ho cfg lock (stateRoot c)) (\<lambda>st.
               and_then (FromEnv (ho_unicode ho) (ho_url ho) (ho_environ ho)) (\<lambda>sizer.
                 let env = serve_env ho cfg lock st (stateRoot c); (m, gs) = NewManager env a w s
                 in Inr \<lparr>sv_env = env, sv_manager = m, sv_gos = gs,
                      sv_web = assets\<lparr>ws_cfg := cfg, ws_logs := logs,
                        ws_username := envDefault (ho_environ ho) ''HOSTPACK_WEB_USERNAME'' ''hostpack'', ws_password := webPassword\<rparr>,
                      sv_log_os = los1, sv_sizer = sizer\<rparr>))))"

text \<open>The two listeners are opened after that; the first that fails ends \<open>serve\<close>.\<close>

definition serve_listen :: "'s host \<Rightarrow> config \<Rightarrow> go_error option" where
  "serve_listen ho cfg =
     (case ho_listen ho (ListenAddress (Runtime cfg)) of
        Some e \<Rightarrow> Some e
      | None \<Rightarrow> ho_listen ho (WebListenAddress (Runtime cfg)))"

definition ErrServerClosed :: go_error where
  "ErrServerClosed = Errorf ''http: Server closed''"

definition errors_Join :: "go_error option list \<Rightarrow> go_error option" where
  "errors_Join es =
     (let xs = List.map_filter id es in if xs = [] then None else Some (Errorf (Join (map error_text xs) [newline])))"

definition serve_end :: "go_error option \<Rightarrow> go_error option \<Rightarrow> go_error option \<Rightarrow> go_error option \<Rightarrow> go_error option" where
  "serve_end serveErr webServeErr webShutdownErr shutdownErr =
     errors_Join [serveErr, if webServeErr = Some ErrServerClosed then None else webServeErr, webShutdownErr, shutdownErr]"

text \<open>The call \<open>m.sizer.Ensure\<close> on the client of \<open>serve\<close>; \<open>None\<close> is the panic of a nil dereference.\<close>

definition sizer_Ensure :: "'s host \<Rightarrow> fly_client option \<Rightarrow> pack \<Rightarrow> bool result option" where
  "sizer_Ensure ho c p =
     (case c of None \<Rightarrow> None | Some c \<Rightarrow> Some (snd (Fly_Ensure (ho_unicode ho) (ho_floats ho) (ho_fly ho) c p)))"

subsection \<open>Dispatch\<close>

definition usage :: "string list" where
  "usage =
     [''hostpackd <command>'', [], ''Commands:'',
      ''  serve              Run the Minecraft router and supervisor'',
      ''  config validate    Validate packs.yaml and packs.lock.json'',
      ''  lock [--check]     Generate or verify packs.lock.json'',
      ''  backup list        List the newest backup for each configured pack'',
      ''  backup restore ID  Restore a pack into an absent instance directory'',
      ''  guest export       Generate the sanitized GitHub Pages pack catalog'',
      ''  doctor             Check runtime prerequisites and storage connectivity'']"

text \<open>\<open>run\<close>; \<open>serve\<close>, which runs until the supervisor is done, is an argument.\<close>

definition run :: "'s host \<Rightarrow> (string list \<Rightarrow> outcome) \<Rightarrow> 's \<Rightarrow> world \<Rightarrow> string list \<Rightarrow> outcome" where
  "run ho serve s w args =
     (case args of
        [] \<Rightarrow> (w, [], Some (Errorf (Join usage [newline] @ [newline])))
      | cmd # rest \<Rightarrow>
          if cmd = ''serve'' then serve rest
          else if cmd = ''config'' \<and> rest \<noteq> [] \<and> hd rest = ''validate'' then validate ho w (tl rest)
          else if cmd = ''lock'' then lockCommand ho w rest
          else if cmd = ''backup'' then backupCommand ho s w rest
          else if cmd = ''guest'' then guestCommand ho w rest
          else if cmd = ''doctor'' then doctor ho s w rest
          else if cmd = ''help'' \<or> cmd = ''--help'' \<or> cmd = ''-h'' then (w, usage, None)
          else (w, [], Some (Errorf (''unknown command'' @ [newline] @ Join usage [newline] @ [newline]))))"

subsection \<open>Writing files\<close>

lemma fill_temp_file:
  assumes "lookup (comps tmp) (w_root w) = Some (File m c)" "fill_temp w tmp b md = (w', e)" "names (comps tmp)"
  shows "elsewhere {comps tmp} w w' \<and> (e = None \<longrightarrow> (\<exists>m. lookup (comps tmp) (w_root w') = Some (File m b)))"
proof (cases "os_Chmod w tmp md")
  case (Inl x)
  then show ?thesis using assms(2) by (auto simp: fill_temp_def elsewhere_refl)
next
  case (Inr w1)
  have c: "parent_ok (comps tmp) (w_root w)" "w1 = w\<lparr>w_root := change (comps tmp) (\<lambda>_. Some (File md c)) (w_root w)\<rparr>"
    using Inr assms(1) by (auto simp: os_Chmod_def on_tree_def and_then_eq_Inr place_Inr find_node_lookup split: option.splits)
  have e1: "elsewhere {comps tmp} w w1" unfolding c(2) by (rule elsewhere_change [OF c(1) assms(3)]) simp
  have l1: "lookup (comps tmp) (w_root w1) = Some (File md c)" using c by (simp add: lookup_change_same)
  obtain w2 e' d where wr: "write_temp w1 tmp (Inr b) = (w2, e', d)" by (cases "write_temp w1 tmp (Inr b)")
  have "write_temp w1 tmp (Inr b) = (w', e, d)" using assms(2) Inr wr by (simp add: fill_temp_def)
  from write_temp_file [OF l1 this assms(3)] elsewhere_trans [OF e1] show ?thesis by blast
qed

text \<open>The temporary names \<open>atomicWrite\<close> may use are ordinary, and not the file's.\<close>

definition write_ok :: "world \<Rightarrow> string \<Rightarrow> bool" where
  "write_ok w path =
     (clean_path path \<and> (\<forall>r\<in>set (w_rand w). r \<noteq> [] \<and> all_digits r \<and> ''.write-'' @ r \<noteq> last (comps path)))"

definition write_area :: "world \<Rightarrow> string \<Rightarrow> string list set" where
  "write_area w path = insert (comps path) (temps w ''.write-'' path)"

text \<open>
  What \<open>atomicWrite\<close> does, whatever fails: nothing else that existed is touched, and the file has its old
  content or, exactly when it reports success, the new one.
\<close>

lemma atomicWrite_any:
  assumes ok: "write_ok w path" and run: "atomicWrite w path b md = (w', e)"
  shows "w_fault w' = w_fault w \<and> w_rand w' = w_rand w \<and> w_umask w' = w_umask w
    \<and> (node_wf (w_root w) \<longrightarrow> node_wf (w_root w'))
    \<and> (\<forall>ds s. stat_at ds (w_root w) = Some s \<longrightarrow> (\<forall>T\<in>write_area w path. take (length T) ds \<noteq> T) \<longrightarrow> stat_at ds (w_root w') = Some s)
    \<and> (if e = None then \<exists>m. lookup (comps path) (w_root w') = Some (File m b)
       else stat_at (comps path) (w_root w') = stat_at (comps path) (w_root w))"
proof (cases "os_MkdirAll w (path_dir path) 0x1E8")
  case (Inl x)
  then show ?thesis using run by (auto simp: atomicWrite_def)
next
  case mk: (Inr w1)
  have cl: "clean_path path" and pre: "\<forall>r\<in>set (w_rand w). ''.write-'' @ r \<noteq> last (comps path)"
    using ok by (simp_all add: write_ok_def)
  have r1: "w_rand w1 = w_rand w" by (subst MkdirAll_Inr(2) [OF mk]) simp
  have "name_ok (''.write-'' @ r)" if "r \<in> set (w_rand w)" for r
    by (rule temp_name_ok) (use ok that in \<open>auto simp: write_ok_def\<close>)
  then have t: "target_ok w1 (path_dir path) ''.write-'' path"
    using dir_of_clean [OF cl] pre cl r1 by (auto simp: target_ok_def clean_path_def)
  have "case e of
      None \<Rightarrow> elsewhere (insert (comps path) (temps w1 ''.write-'' path)) w1 w' \<and> (\<exists>m. lookup (comps path) (w_root w') = Some (File m b))
    | Some _ \<Rightarrow> elsewhere (temps w1 ''.write-'' path) w1 w'"
  proof (cases "os_CreateTemp w1 (path_dir path) ''.write-''")
    case (Inl x)
    then show ?thesis using run mk by (auto simp: atomicWrite_def elsewhere_refl)
  next
    case (Inr wt)
    obtain w2 tmp where wt: "wt = (w2, tmp)" by (cases wt)
    obtain w3 err where w3: "fill_temp w2 tmp b md = (w3, err)" by (cases "fill_temp w2 tmp b md")
    show ?thesis
      by (rule finish_temp_any [OF t Inr [unfolded wt] fill_temp_file [OF _ w3]])
        (use run mk Inr wt w3 in \<open>simp_all add: atomicWrite_def split: option.splits\<close>)
  qed
  from mkdir_replace [OF cl pre mk this] show ?thesis by (simp add: write_area_def)
qed

subsection \<open>The lock command\<close>

text \<open>Decoding YAML into a Go map gives distinct keys.\<close>

definition yaml_maps :: "'s host \<Rightarrow> bool" where
  "yaml_maps ho = (\<forall>t c. ho_yaml ho t = Inr c \<longrightarrow> distinct (map fst (Packs c)))"

lemma Config_Load_valid:
  assumes "Config_Load ho w path = Inr cfg"
  shows "\<exists>c. Validate (ho_unicode ho) c = (cfg, None) \<and> (yaml_maps ho \<longrightarrow> distinct (map fst (Packs cfg)))"
proof -
  obtain t c where c: "ho_yaml ho t = Inr c" "Validate (ho_unicode ho) c = (cfg, None)"
    using assms by (auto simp: Config_Load_def split: sum.splits prod.splits option.splits)
  then have "Packs cfg = Packs c" by (auto simp: Validate_def Let_def split: if_splits)
  then show ?thesis using c unfolding yaml_maps_def by metis
qed

lemma lock_at_eq: "lock_at ho w path = Inr l \<longleftrightarrow> LoadLock (ho_unicode ho) (read_text w path) = (Some l, None)"
  by (auto simp: lock_at_def split: prod.splits option.splits)

definition generated :: "'s host \<Rightarrow> config \<Rightarrow> lock_file result" where
  "generated ho cfg =
     Generate (ho_unicode ho) (ho_http ho) \<lparr>ModrinthBase = [], CurseForgeBase = [], CurseForgeKey = Getenv (ho_environ ho) ''CF_API_KEY''\<rparr> cfg"

lemma write_lock_cases:
  assumes "write_lock ho w cfg path = (w', e)"
  shows "w' = w \<and> e \<noteq> None \<or> (\<exists>l. generated ho cfg = Inr l
    \<and> (\<forall>previous. lock_at ho w path = Inr previous \<longrightarrow> CheckImmutable (ho_unicode ho) previous l = None)
    \<and> atomicWrite w path (bytes_of (LockFile_Marshal l @ [newline])) 0x1A4 = (w', e))"
  using assms unfolding write_lock_def generated_def by (auto split: sum.splits option.splits if_splits)

text \<open>
  C12. The lock command keeps its promises. Whatever fails, the lock file is left as it was, or it is replaced
  by a complete new lock, which is valid, matches the registry it was made for, and keeps the identity of
  every pack of the lock that was there. Nothing else that existed is touched.
\<close>

theorem lock_command_safe:
  assumes run: "lockCommand ho w args = (w', out, e)"
    and parsed: "Parse (ho_unicode ho) (common @ [(''check'', True), (''previous'', False)]) args [] = Inr (vs, rest)"
    and ok: "write_ok w (lockPath (addCommon (ho_environ ho) vs))" and "yaml_maps ho"
  shows "(stat_at (comps (lockPath (addCommon (ho_environ ho) vs))) (w_root w') = stat_at (comps (lockPath (addCommon (ho_environ ho) vs))) (w_root w)
      \<or> e = None \<and> (\<exists>cfg l m. Config_Load ho w (configPath (addCommon (ho_environ ho) vs)) = Inr cfg
          \<and> stat_at (comps (lockPath (addCommon (ho_environ ho) vs))) (w_root w') = Some (SFile m (bytes_of (LockFile_Marshal l @ [newline])))
          \<and> LockFile_Validate (ho_unicode ho) l = None \<and> Matches (ho_unicode ho) l cfg = None
          \<and> (\<forall>previous. lock_at ho w (lockPath (addCommon (ho_environ ho) vs)) = Inr previous \<longrightarrow> CheckImmutable (ho_unicode ho) previous l = None)))
    \<and> (\<forall>ds s. stat_at ds (w_root w) = Some s \<longrightarrow> (\<forall>T\<in>write_area w (lockPath (addCommon (ho_environ ho) vs)). take (length T) ds \<noteq> T)
          \<longrightarrow> stat_at ds (w_root w') = Some s)"
proof -
  let ?c = "addCommon (ho_environ ho) vs"
  have "w' = w \<or> (\<exists>cfg. Config_Load ho w (configPath ?c) = Inr cfg \<and> write_lock ho w cfg (lockPath ?c) = (w', e))"
    using run parsed unfolding lockCommand_def check_lock_def Let_def
    by (auto split: sum.splits option.splits if_splits prod.splits)
  then consider "w' = w"
    | cfg l where "Config_Load ho w (configPath ?c) = Inr cfg" "generated ho cfg = Inr l"
      "\<forall>previous. lock_at ho w (lockPath ?c) = Inr previous \<longrightarrow> CheckImmutable (ho_unicode ho) previous l = None"
      "atomicWrite w (lockPath ?c) (bytes_of (LockFile_Marshal l @ [newline])) 0x1A4 = (w', e)"
    using write_lock_cases by metis
  then show ?thesis
  proof cases
    case (2 cfg l)
    obtain c where c: "Validate (ho_unicode ho) c = (cfg, None)" "distinct (map fst (Packs cfg))"
      using Config_Load_valid [OF 2(1)] assms(4) by blast
    have g: "LockFile_Validate (ho_unicode ho) l = None \<and> Matches (ho_unicode ho) l cfg = None"
      using Generate_valid [OF c 2(2) [unfolded generated_def]] by blast
    note a = atomicWrite_any [OF ok 2(4)]
    show ?thesis
    proof (cases "e = None")
      case True
      then obtain m where "lookup (comps (lockPath ?c)) (w_root w') = Some (File m (bytes_of (LockFile_Marshal l @ [newline])))"
        using a by auto
      then have "stat_at (comps (lockPath ?c)) (w_root w') = Some (SFile m (bytes_of (LockFile_Marshal l @ [newline])))"
        by (simp add: stat_at_def)
      then show ?thesis using a True 2(1,3) g by blast
    next
      case False
      then show ?thesis using a by simp
    qed
  qed simp
qed

lemma relisted_lock:
  assumes "distinct (map fst (lf_Packs l))" "lf_Schema l' = lf_Schema l" "lf_ConfigDigest l' = lf_ConfigDigest l"
    "map fst (lf_Packs l') = sorted_ids (lf_Packs l)" "map_of (lf_Packs l') = map_of (lf_Packs l)"
  shows "LockFile_Validate u l = None \<Longrightarrow> LockFile_Validate u l' = None" "Matches u l' c = Matches u l c"
proof -
  have d: "distinct (map fst (lf_Packs l'))" using assms(1,4) by simp
  then have "set (lf_Packs l') = set (lf_Packs l)" using map_of_inject_set [OF d assms(1)] assms(5) by simp
  then show "LockFile_Validate u l = None \<Longrightarrow> LockFile_Validate u l' = None"
    using assms(2,3) by (auto simp: LockFile_Validate_def split: if_splits)
  have "length (lf_Packs l') = length (lf_Packs l)" using arg_cong [OF assms(4), of length] by simp
  then show "Matches u l' c = Matches u l c" using assms(3,5) by (simp add: Matches_def)
qed

lemma read_text_lookup:
  assumes "w_fault w ''open'' path = None" "lookup (comps path) (w_root w) = Some (File m (bytes_of t))"
  shows "read_text w path = Inr t"
proof -
  have "find_node (comps path) (w_root w) = Inr (File m (bytes_of t))" using assms(2) by (simp add: find_node_lookup)
  then show ?thesis using assms(1) by (simp add: read_text_def os_ReadFile_def)
qed

lemma read_text_file:
  assumes "read_text w path = Inr t" "w_fault w' = w_fault w"
    "\<And>s. stat_at (comps path) (w_root w) = Some s \<Longrightarrow> stat_at (comps path) (w_root w') = Some s"
  shows "read_text w' path = Inr t"
proof -
  obtain n where n: "find_node (comps path) (w_root w) = Inr n" "w_fault w ''open'' path = None"
    "(case n of File _ c \<Rightarrow> Inr c | Dir _ _ \<Rightarrow> Inl EISDIR | Symlink _ \<Rightarrow> Inl (Errorf ''too many levels of symbolic links'')) = Inr (bytes_of t)"
    using assms(1) by (auto simp: read_text_def os_ReadFile_def and_then_eq_Inr split: sum.splits option.splits)
  then obtain m where m: "find_node (comps path) (w_root w) = Inr (File m (bytes_of t))" "w_fault w ''open'' path = None"
    by (cases n) auto
  then have "stat_at (comps path) (w_root w) = Some (SFile m (bytes_of t))" by (simp add: stat_at_def find_node_lookup)
  then obtain k where k: "lookup (comps path) (w_root w') = Some k" "shape_of k = SFile m (bytes_of t)"
    using assms(3) by (auto simp: stat_at_def)
  then have "k = File m (bytes_of t)" by (cases k) auto
  then show ?thesis using read_text_lookup [OF _ k(1) [unfolded \<open>k = File m (bytes_of t)\<close>]] m(2) assms(2) by simp
qed

text \<open>
  C38. The lock that \<open>hostpackd lock\<close> has written is accepted: when the command succeeds, the registry and
  the new lock load and match, so every other command and \<open>serve\<close> start from them.
\<close>

theorem lock_is_accepted:
  assumes run: "lockCommand ho w args = (w', out, None)"
    and parsed: "Parse (ho_unicode ho) (common @ [(''check'', True), (''previous'', False)]) args [] = Inr (vs, rest)"
    and gen: "flag_of vs ''check'' ''false'' \<noteq> ''true''"
    and ok: "write_ok w (lockPath (addCommon (ho_environ ho) vs))" and "yaml_maps ho" "w_fault w = (\<lambda>_ _. None)"
    and apart: "\<forall>T\<in>write_area w (lockPath (addCommon (ho_environ ho) vs)). take (length T) (comps (configPath (addCommon (ho_environ ho) vs))) \<noteq> T"
    and wf: "\<And>cfg l. Config_Load ho w (configPath (addCommon (ho_environ ho) vs)) = Inr cfg \<Longrightarrow> generated ho cfg = Inr l \<Longrightarrow> lock_wf l"
  shows "\<exists>cfg lock. load ho w' (addCommon (ho_environ ho) vs) = Inr (cfg, lock)
    \<and> Config_Load ho w (configPath (addCommon (ho_environ ho) vs)) = Inr cfg"
proof -
  let ?c = "addCommon (ho_environ ho) vs" and ?u = "ho_unicode ho"
  obtain cfg where cfg: "Config_Load ho w (configPath ?c) = Inr cfg" "write_lock ho w cfg (lockPath ?c) = (w', None)"
    using run parsed gen unfolding lockCommand_def Let_def by (auto split: sum.splits prod.splits)
  obtain l where l: "generated ho cfg = Inr l" "atomicWrite w (lockPath ?c) (bytes_of (LockFile_Marshal l @ [newline])) 0x1A4 = (w', None)"
    using write_lock_cases [OF cfg(2)] by blast
  note a = atomicWrite_any [OF ok l(2)]
  obtain c where c: "Validate ?u c = (cfg, None)" "distinct (map fst (Packs cfg))"
    using Config_Load_valid [OF cfg(1)] assms(5) by blast
  note g = Generate_valid [OF c l(1) [unfolded generated_def]]
  obtain t where t: "read_text w (configPath ?c) = Inr t" using cfg(1) by (auto simp: Config_Load_def split: sum.splits)
  have "read_text w' (configPath ?c) = Inr t"
    by (rule read_text_file [OF t]) (use a apart in auto)
  then have conf: "Config_Load ho w' (configPath ?c) = Inr cfg" using cfg(1) t by (simp add: Config_Load_def)
  obtain m where "lookup (comps (lockPath ?c)) (w_root w') = Some (File m (bytes_of (LockFile_Marshal l @ [newline])))"
    using a by auto
  then have "read_text w' (lockPath ?c) = Inr (LockFile_Marshal l @ [newline])"
    using a assms(6) by (intro read_text_lookup) auto
  moreover have "all_ws [newline]" by (simp add: all_ws_def json_ws_def code_of_def)
  ultimately obtain l' where l': "LoadLock ?u (read_text w' (lockPath ?c)) = (Some l', LockFile_Validate ?u l')"
    "lf_Schema l' = lf_Schema l" "lf_ConfigDigest l' = lf_ConfigDigest l" "map fst (lf_Packs l') = sorted_ids (lf_Packs l)"
    "map_of (lf_Packs l') = map_of (lf_Packs l)"
    using LoadLock_Marshal [OF wf [OF cfg(1) l(1)], of "[newline]" ?u] by auto
  have d: "distinct (map fst (lf_Packs l))" using wf [OF cfg(1) l(1)] by (simp add: lock_wf_def)
  have "LockFile_Validate ?u l' = None" "Matches ?u l' cfg = None"
    using relisted_lock [OF d l'(2-5)] g by auto
  then have "load ho w' ?c = Inr (cfg, l')" using conf l'(1) by (simp add: load_def lock_at_def)
  then show ?thesis using cfg(1) by blast
qed

subsection \<open>What serve starts\<close>

lemma serve_setup_Inr:
  assumes "serve_setup ho assets a los w s args = Inr sv"
  obtains vs rest cfg lock logs st where
    "Parse (ho_unicode ho) common args [] = Inr (vs, rest)" "load ho w (addCommon (ho_environ ho) vs) = Inr (cfg, lock)"
    "16 \<le> length (Getenv (ho_environ ho) ''HOSTPACK_WEB_PASSWORD'')"
    "makeStore ho cfg lock (stateRoot (addCommon (ho_environ ho) vs)) = Inr st"
    "FromEnv (ho_unicode ho) (ho_url ho) (ho_environ ho) = Inr (sv_sizer sv)"
    "sv_env sv = serve_env ho cfg lock st (stateRoot (addCommon (ho_environ ho) vs))"
    "NewManager (sv_env sv) a w s = (sv_manager sv, sv_gos sv)"
    "sv_web sv = assets\<lparr>ws_cfg := cfg, ws_logs := logs,
       ws_username := envDefault (ho_environ ho) ''HOSTPACK_WEB_USERNAME'' ''hostpack'',
       ws_password := Getenv (ho_environ ho) ''HOSTPACK_WEB_PASSWORD''\<rparr>"
  using assms unfolding serve_setup_def
  by (auto simp: and_then_eq_Inr Let_def case_prod_beta split: prod.splits if_splits sum.splits)

lemma load_Inr:
  assumes "load ho w c = Inr (cfg, lock)"
  shows "Config_Load ho w (configPath c) = Inr cfg" "Matches (ho_unicode ho) lock cfg = None"
  using assms by (auto simp: load_def and_then_eq_Inr split: option.splits)


lemma serve_setup_runs:
  assumes "Parse (ho_unicode ho) common args [] = Inr (vs, rest)" "load ho w (addCommon (ho_environ ho) vs) = Inr (cfg, lock)"
    and "minimumEnvironmentLength (ho_environ ho) ''HOSTPACK_WEB_PASSWORD'' 16 = None"
    and "store_check ho s cfg lock (stateRoot (addCommon (ho_environ ho) vs)) = None" "fly_check ho = None"
    and log: "\<exists>r. NewLogBuffer los (path_join [stateRoot (addCommon (ho_environ ho) vs), ''runtime'', ''dashboard.log'']) 500 (4 * 2 ^ 20) = Inr r"
  shows "\<exists>sv st. serve_setup ho assets a los w s args = Inr sv \<and> e_cfg (sv_env sv) = cfg
    \<and> e_root (sv_env sv) = stateRoot (addCommon (ho_environ ho) vs)
    \<and> makeStore ho cfg lock (stateRoot (addCommon (ho_environ ho) vs)) = Inr st \<and> e_store (sv_env sv) = as_backend st"
proof -
  let ?c = "addCommon (ho_environ ho) vs"
  have p: "\<not> length (Getenv (ho_environ ho) ''HOSTPACK_WEB_PASSWORD'') < 16"
    and "\<exists>st. makeStore ho cfg lock (stateRoot ?c) = Inr st" and "\<exists>sz. FromEnv (ho_unicode ho) (ho_url ho) (ho_environ ho) = Inr sz"
    using assms(3-5) by (auto simp: minimumEnvironmentLength_def store_check_def fly_check_def split: if_splits sum.splits)
  then obtain st sz where st: "makeStore ho cfg lock (stateRoot ?c) = Inr st" "FromEnv (ho_unicode ho) (ho_url ho) (ho_environ ho) = Inr sz" by blast
  obtain los1 logs where "NewLogBuffer los (path_join [stateRoot ?c, ''runtime'', ''dashboard.log'']) 500 (4 * 2 ^ 20) = Inr (los1, logs)"
    using log by (metis surj_pair)
  then show ?thesis using assms(1,2) p st unfolding serve_setup_def Let_def by (simp add: case_prod_beta serve_env_def)
qed



subsection \<open>A sample installation\<close>

definition local_config :: config where
  "local_config = sample_config\<lparr>Storage := (Storage sample_config)\<lparr>Driver := ''filesystem'', EvictAfterBackup := False, FilesystemRoot := ''/backups''\<rparr>\<rparr>"

definition local_valid :: config where
  "local_valid = local_config\<lparr>Domain := ''play.example.com''\<rparr>"

lemma local_config_valid: "Validate sample_unicode local_config = (local_valid, None)"
  by code_simp

lemma local_identity: "IdentityDigest local_valid = IdentityDigest valid_sample" "Packs local_valid = Packs valid_sample"
  by (simp_all add: IdentityDigest_def local_valid_def local_config_def valid_sample_def)

definition sample_host :: "world host" where
  "sample_host = \<lparr>ho_environ = [''HOSTPACK_WEB_PASSWORD=correct horse battery staple''], ho_unicode = sample_unicode, ho_yaml = (\<lambda>_. Inr local_config),
     ho_codec = sample_codec, ho_http = sample_http, ho_url = (\<lambda>_. Inr (''https'', ''objects'')), ho_minio = (\<lambda>_ _ _. None),
     ho_fs = NewFilesystem, ho_s3 = (\<lambda>_. NewFilesystem ''/s3''), ho_rclone = NewFilesystem, ho_floats = sample_floats,
     ho_fly = sample_api sample_machine, ho_lookpath = (\<lambda>_. None), ho_listen = (\<lambda>_. None), ho_owners = (\<lambda>_. (1000, 1000)), ho_exec = (\<lambda>_. None)\<rparr>"

text \<open>The image, with what is in the directory of the configuration.\<close>

definition install :: "(string \<times> node) list \<Rightarrow> world" where
  "install conf = \<lparr>w_root = Dir 0x1ED
       [(''app'', Dir 0x1ED [(''config'', Dir 0x1ED conf)]),
        (''opt'', Dir 0x1ED [(''java17'', Dir 0x1ED [(''bin'', Dir 0x1ED [(''java'', File 0x1ED [])])]),
                             (''java21'', Dir 0x1ED [(''bin'', Dir 0x1ED [(''java'', File 0x1ED [])])])]),
        (''start'', File 0x1ED [])],
     w_fault = (\<lambda>_ _. None), w_rand = [''5''], w_umask = 0x12\<rparr>"

definition unlocked_disk :: world where
  "unlocked_disk = install [(''packs.yaml'', File 0x1A4 [])]"

definition locked_disk :: "byte list \<Rightarrow> world" where
  "locked_disk b = install [(''packs.lock.json'', File 0x1A4 b), (''packs.yaml'', File 0x1A4 [])]"

lemma sample_flags: "addCommon (ho_environ sample_host) [] =
    \<lparr>configPath = ''/app/config/packs.yaml'', lockPath = ''/app/config/packs.lock.json'', stateRoot = ''/state''\<rparr>"
  by code_simp

lemma sample_paths: "comps ''/app/config/packs.yaml'' = [''app'', ''config'', ''packs.yaml'']"
  "comps ''/app/config/packs.lock.json'' = [''app'', ''config'', ''packs.lock.json'']"
  by code_simp+

lemma sample_written: "snd (atomicWrite unlocked_disk ''/app/config/packs.lock.json'' b 0x1A4) = None"
  by code_simp

lemma sample_writable: "snd (writable (locked_disk b) ''/state/runtime'') = None"
  by code_simp

lemma sample_executable:
  "executable sample_host (fst (writable (locked_disk b) ''/state/runtime'')) ''/opt/java17/bin/java'' = None"
  "executable sample_host (fst (writable (locked_disk b) ''/state/runtime'')) ''/opt/java21/bin/java'' = None"
  "executable sample_host (fst (writable (locked_disk b) ''/state/runtime'')) ''/start'' = None"
  by code_simp+

lemma sample_reads:
  "read_text unlocked_disk ''/app/config/packs.yaml'' = Inr []" "read_text (locked_disk b) ''/app/config/packs.yaml'' = Inr []"
  by code_simp+

lemma sample_reads_lock: "read_text (locked_disk (bytes_of t)) ''/app/config/packs.lock.json'' = Inr t"
  by (rule read_text_lookup) (simp_all add: locked_disk_def install_def sample_paths)

lemma sample_no_lock: "\<exists>e. lock_at sample_host unlocked_disk ''/app/config/packs.lock.json'' = Inl e \<and> is_not_exist e"
proof -
  have "case read_text unlocked_disk ''/app/config/packs.lock.json'' of Inl e \<Rightarrow> is_not_exist e | Inr _ \<Rightarrow> False" by code_simp
  then show ?thesis by (auto simp: lock_at_def LoadLock_def split: sum.splits)
qed

lemma sample_conf:
  "Config_Load sample_host unlocked_disk ''/app/config/packs.yaml'' = Inr local_valid"
  "Config_Load sample_host (locked_disk b) ''/app/config/packs.yaml'' = Inr local_valid"
  using local_config_valid by (simp_all add: Config_Load_def sample_reads sample_host_def)

lemma local_generate: "Generate sample_unicode sample_http sample_resolver local_valid = Inr sample_lock"
proof -
  have "sorted_ids (Packs local_valid) = [''vanilla'']" "pack_of local_valid ''vanilla'' = Some sample_pack"
    "Provider sample_pack = ''modrinth''" "Java sample_pack = 21"
    by code_simp+
  then show ?thesis
    by (simp add: Generate_def resolve_pack_def sample_resolve sample_lock_def local_identity)
qed

lemma sample_generated: "generated sample_host local_valid = Inr sample_lock"
proof -
  have "Getenv (ho_environ sample_host) ''CF_API_KEY'' = []" by code_simp
  then have "generated sample_host local_valid = Generate sample_unicode sample_http sample_resolver local_valid"
    unfolding generated_def sample_resolver_def by (simp add: sample_host_def)
  then show ?thesis by (simp add: local_generate)
qed

definition sample_lock_bytes :: "byte list" where
  "sample_lock_bytes = bytes_of (LockFile_Marshal sample_lock @ [newline])"

lemma sample_load: "\<exists>l. load sample_host (locked_disk sample_lock_bytes) (addCommon (ho_environ sample_host) []) = Inr (local_valid, l)"
proof -
  have "all_ws [newline]" by (simp add: all_ws_def json_ws_def code_of_def)
  from LoadLock_Marshal [OF sample_lock_wf this, of sample_unicode] obtain l where
    l: "LoadLock sample_unicode (Inr (LockFile_Marshal sample_lock @ [newline])) = (Some l, LockFile_Validate sample_unicode l)"
      "lf_Schema l = lf_Schema sample_lock" "lf_ConfigDigest l = lf_ConfigDigest sample_lock"
      "map fst (lf_Packs l) = sorted_ids (lf_Packs sample_lock)" "map_of (lf_Packs l) = map_of (lf_Packs sample_lock)" by blast
  have g: "LockFile_Validate sample_unicode sample_lock = None \<and> Matches sample_unicode sample_lock local_valid = None"
    using Generate_valid [OF local_config_valid _ local_generate] sample_distinct(2) by (simp add: local_identity(2))
  have "LockFile_Validate sample_unicode l = None" "Matches sample_unicode l local_valid = None"
    using relisted_lock [OF sample_distinct(1) l(2-5)] g by simp_all
  then have "lock_at sample_host (locked_disk sample_lock_bytes) ''/app/config/packs.lock.json'' = Inr l"
    using l(1) by (simp only: lock_at_eq sample_lock_bytes_def sample_reads_lock) (simp add: sample_host_def)
  moreover have "ho_unicode sample_host = sample_unicode" by (simp add: sample_host_def)
  ultimately show ?thesis
    using \<open>Matches sample_unicode l local_valid = None\<close> unfolding load_def sample_flags by (simp add: sample_conf)
qed

lemma sample_yaml: "yaml_maps sample_host"
  using sample_distinct(2) by (simp add: yaml_maps_def sample_host_def local_config_def valid_sample_def)

lemma sample_write_ok: "write_ok unlocked_disk ''/app/config/packs.lock.json''"
proof -
  have "clean_path ''/app/config/packs.lock.json''"
    unfolding clean_path_def sample_paths by (simp add: name_ok_def) code_simp
  then show ?thesis by (simp add: write_ok_def unlocked_disk_def install_def sample_paths all_digits_def code_of_def)
qed

lemma sample_lock_run: "\<exists>w'. lockCommand sample_host unlocked_disk [] = (w', [], None)"
proof -
  obtain w' where w': "atomicWrite unlocked_disk ''/app/config/packs.lock.json'' sample_lock_bytes 0x1A4 = (w', None)"
    using sample_written [of sample_lock_bytes] by (metis prod.collapse)
  obtain e where "lock_at sample_host unlocked_disk ''/app/config/packs.lock.json'' = Inl e" "is_not_exist e" using sample_no_lock by blast
  then have "write_lock sample_host unlocked_disk local_valid ''/app/config/packs.lock.json'' = (w', None)"
    using w' sample_generated unfolding write_lock_def generated_def sample_lock_bytes_def by simp
  then show ?thesis by (simp add: lockCommand_def sample_flags sample_conf flag_of_def)
qed

lemma sample_parsed: "Parse (ho_unicode sample_host) fs [] [] = Inr ([], [])"
  by simp

theorem lock_command_safe_witness:
  "\<exists>w'. lockCommand sample_host unlocked_disk [] = (w', [], None)
     \<and> (stat_at [''app'', ''config'', ''packs.lock.json''] (w_root w') = None
        \<or> (\<exists>l m. stat_at [''app'', ''config'', ''packs.lock.json''] (w_root w') = Some (SFile m (bytes_of (LockFile_Marshal l @ [newline])))
              \<and> Matches sample_unicode l local_valid = None))"
proof -
  obtain w' where run: "lockCommand sample_host unlocked_disk [] = (w', [], None)" using sample_lock_run by blast
  have "stat_at [''app'', ''config'', ''packs.lock.json''] (w_root unlocked_disk) = None" by (simp add: unlocked_disk_def install_def stat_at_def)
  then show ?thesis
    using lock_command_safe [OF run sample_parsed _ sample_yaml] run sample_write_ok sample_conf(1)
    unfolding sample_flags by (auto simp: sample_paths sample_host_def)
qed

theorem lock_is_accepted_witness:
  "\<exists>w' cfg lock. lockCommand sample_host unlocked_disk [] = (w', [], None)
     \<and> load sample_host w' (addCommon (ho_environ sample_host) []) = Inr (cfg, lock)"
proof -
  obtain w' where run: "lockCommand sample_host unlocked_disk [] = (w', [], None)" using sample_lock_run by blast
  have "\<exists>cfg lock. load sample_host w' (addCommon (ho_environ sample_host) []) = Inr (cfg, lock)
      \<and> Config_Load sample_host unlocked_disk (configPath (addCommon (ho_environ sample_host) [])) = Inr cfg"
  proof (rule lock_is_accepted [OF run sample_parsed])
    show "\<forall>T\<in>write_area unlocked_disk (lockPath (addCommon (ho_environ sample_host) [])).
        take (length T) (comps (configPath (addCommon (ho_environ sample_host) []))) \<noteq> T"
      unfolding sample_flags by (simp add: write_area_def temps_def unlocked_disk_def install_def sample_paths)
    show "lock_wf l" if "Config_Load sample_host unlocked_disk (configPath (addCommon (ho_environ sample_host) [])) = Inr cfg" "generated sample_host cfg = Inr l" for cfg l
      using that sample_conf(1) sample_generated sample_lock_wf unfolding sample_flags by simp
  qed (use sample_write_ok sample_yaml in \<open>simp_all add: flag_of_def sample_flags unlocked_disk_def install_def\<close>)
  then show ?thesis using run by blast
qed

lemma sample_log: "\<exists>r. NewLogBuffer empty_os path 500 (4 * 2 ^ 20) = Inr r"
  using NewLogBuffer_rel [of 500 "4 * 2 ^ 20" empty_os path "[]" "[]"]
  by (auto simp: backup_holds_def empty_os_def)

lemma sample_checks:
  "minimumEnvironmentLength (ho_environ sample_host) ''HOSTPACK_WEB_PASSWORD'' 16 = None" "fly_check sample_host = None"
  "TrimSpace (ho_unicode sample_host) (Getenv (ho_environ sample_host) ''FLY_MACHINE_ID'') = []"
  by code_simp+

lemma sample_store_check: "store_check sample_host empty_disk local_valid l ''/state'' = None"
proof -
  have "firstPack local_valid = ''vanilla''" by code_simp
  moreover obtain h where "Head (NewFilesystem ''/backups'') empty_disk ''vanilla'' = Inr h"
    using fs.head_newest [OF empty_disk_good sample_id empty_filed] by blast
  ultimately show ?thesis
    by (simp add: store_check_def makeStore_def FromConfig_def sample_host_def local_valid_def local_config_def)
qed

lemma sample_stores: "makeStore sample_host local_valid l ''/state'' = Inr st \<Longrightarrow> as_backend st = NewFilesystem ''/backups''"
  by (auto simp: makeStore_def FromConfig_def sample_host_def local_valid_def local_config_def)

lemma sample_serves:
  "\<exists>sv. serve_setup sample_host assets a empty_os (locked_disk sample_lock_bytes) empty_disk [] = Inr sv
     \<and> e_cfg (sv_env sv) = local_valid \<and> e_root (sv_env sv) = ''/state'' \<and> e_store (sv_env sv) = NewFilesystem ''/backups''"
proof -
  obtain l where l: "load sample_host (locked_disk sample_lock_bytes) (addCommon (ho_environ sample_host) []) = Inr (local_valid, l)"
    using sample_load by blast
  show ?thesis
    using serve_setup_runs [OF sample_parsed l sample_checks(1) _ sample_checks(2) sample_log, of empty_disk] sample_store_check [of l] sample_stores [of l]
    unfolding sample_flags by fastforce
qed

lemma sample_disk: "root_ok ''/state''" "disk_ok (locked_disk b)"
  by (rule sample_root) (simp add: disk_ok_def locked_disk_def install_def weather_ok_def name_ok_def all_digits_def code_of_def)




end
