(* ===== verification/Spec2Isabelle.thy ===== *)
theory Spec2Isabelle
  imports Mcproto Config Lock Rcon Log_Buffer Ip_Limiter World_Safety Object_Store Hostpackd
begin

text \<open>
  A verification of hostpack, a daemon that runs one modded Minecraft server at a time.

  \<^bold>\<open>The program.\<close> A client connects under \<open>id.domain\<close>; the router (\<open>internal/router\<close>) reads the handshake
  (\<open>internal/mcproto\<close>), finds the pack in the registry (\<open>internal/config\<close>) and, on a login, asks the
  supervisor (\<open>internal/runtime/manager.go\<close>) for that pack. The supervisor resizes the Fly machine
  (\<open>internal/flymachine\<close>), restores the pack's world from the backup store (\<open>internal/store\<close>) when it is not
  on the disk, and has the launcher (\<open>internal/runtime/launcher.go\<close>) start the server process. When nobody
  plays, another pack is asked for or the daemon ends, it stops the server through RCON (\<open>internal/rcon\<close>), commits
  the world as a new generation to the store and, with remote storage, deletes the local copy. Its phase
  is kept in a state file (\<open>internal/runtime/state.go\<close>). A dashboard (\<open>internal/webui\<close>) shows the state and
  the log. \<open>cmd/hostpackd\<close> holds the commands and puts the parts together.

  \<^bold>\<open>The theories\<close>, and what of \<open>src/\<close> they model:

  \<^item> \<open>Prelude\<close>, \<open>Go_Strings\<close>, \<open>Go_Path\<close>, \<open>Go_Json\<close>, \<open>Json_Parse\<close>, \<open>Sha256\<close>, \<open>File_System\<close>: what the program uses of Go and
    its standard library. Errors are a datatype \<open>go_error\<close>, fallible functions return \<open>go_error + 'a\<close>; bytes,
    frames and sequence numbers are words of their width. JSON is printed and parsed the way \<open>encoding/json\<close> does it,
    and what is printed is parsed back. The file system is a tree in a record \<open>world\<close> with a fault function
    that may make any operation on any path fail.
  \<^item> \<open>Mcproto\<close> (\<open>mcproto/protocol.go\<close>), \<open>Rcon\<close> (\<open>rcon/client.go\<close>): VarInts, frames, handshake, status, packets;
    round trips and the exchange of \<open>Command\<close> over a scripted connection.
  \<^item> \<open>Config\<close> (\<open>config/config.go\<close>), \<open>Lock\<close> (\<open>config/lock.go\<close>): the registry, its validation and host routing; the lock,
    its generation from Modrinth and CurseForge, matching, immutability, and its JSON form.
  \<^item> \<open>Ip_Limiter\<close> and \<open>Router\<close> (\<open>router/server.go\<close>): the rate limiter, refined to one window per address; the
    handler of a connection and the accept loop with its semaphore.
  \<^item> \<open>Archive_Store\<close>, \<open>Archive_Restore\<close> (\<open>store/store.go\<close>): \<open>Head\<close>, \<open>Commit\<close> and \<open>Restore\<close> over an abstract backend.
    \<open>Backends\<close> (\<open>store/filesystem.go\<close>, \<open>s3.go\<close>, \<open>rclone.go\<close>): the three backends; \<open>Object_Store\<close>: S3 keys, and the contract for S3.
  \<^item> \<open>Atomic_File\<close>, \<open>State_File\<close> (\<open>runtime/state.go\<close>): replacing a file through a temporary one; the state, \<open>Load\<close> and \<open>Save\<close>.
  \<^item> \<open>Launcher\<close> (\<open>runtime/launcher.go\<close>): the preparation of the instance directory, the environment and command
    of the server process.
  \<^item> \<open>Manager\<close>, \<open>Supervisor\<close>, \<open>World_Safety\<close> (\<open>runtime/manager.go\<close>): each function is cut at its critical
    sections and blocking calls into steps of a goroutine (\<open>start_step\<close>, \<open>stop_step\<close>, \<open>tick\<close>, \<open>Ensure\<close>, \<open>Shutdown\<close>). The relation
    \<open>step\<close> lets any goroutine of a multiset run next, logins and signals arrive, the disk start or stop failing, the game write
    to its directory, and the daemon be killed and restarted, also between the two uploads of a commit.
  \<^item> \<open>Fly_Machine\<close> (\<open>flymachine/client.go\<close>), \<open>Log_Buffer\<close> and \<open>Web_UI\<close> (\<open>webui/\<close>): the sizing client, the bounded
    log, the handler chain of the dashboard with its authentication, and the guest catalog.
  \<^item> \<open>Hostpackd\<close> (\<open>cmd/hostpackd/main.go\<close>, \<open>config.Load\<close>, \<open>store.FromConfig\<close>): flags, every command, and \<open>serve\<close> up to
    the listeners.

  \<^bold>\<open>Interfaces.\<close> The locale \<open>backend_laws\<close> says what \<open>Commit\<close>, \<open>Head\<close> and \<open>Restore\<close> rely on in a backend: objects
  a \<open>Put\<close> publishes a whole object or nothing and touches no other object, listing and opening agree with the abstract view.
  Its lemmas are proved once; \<open>Backends\<close> interprets it on \<open>NewFilesystem\<close>, and \<open>Object_Store\<close> shows it of \<open>NewS3_backend\<close> over
  every object store that behaves as documented. The theorems on the supervisor hold for every store with this contract. A backend
  over rclone does not have it as it stands: opening a missing object succeeds and only closing it fails. The locale \<open>launcher\<close> says what the
  supervisor relies on in a launcher (it leaves every world that is on the disk); \<open>World_Safety\<close> interprets it on
  \<open>ItzgLauncher_Start\<close>.

  \<^bold>\<open>What is shown.\<close> Over all interleavings and crashes, as long as the store itself works: backups are permanent, a world is deleted only
  when its backup is in the store, a backup that was reported stays there. Of the store: a committed
  directory is restored to the same tree, a restore overwrites nothing whatever the archive holds, success of a commit is durable,
  \<open>Head\<close> finds the newest intact generation. Of the files: saving the state and writing the lock are
  atomic under every fault, and both read back. Of the router and dashboard: only admitted logins reach the supervisor, connections and
  their rate are bounded, a request without credentials learns the public status only. Of the daemon: what
  \<open>serve\<close> builds is the supervisor of the safety theorems, and a passing \<open>doctor\<close> predicts that \<open>serve\<close> starts.
  Some theorems show defects: a pack named \<open>server\<close> may be evicted in the place of the empty id, a world with a symbolic link is backed up but cannot be restored, the
  message of a slow start is never written, one escaped path shows the dashboard page to anybody, and outside Fly the sizer is a nil client.

  \<^bold>\<open>Bounds and fuel.\<close> The JSON parser takes fuel, which is twice the length of its input plus two at every
  use; \<open>Json_Parse\<close> shows that more fuel never changes the result. Every other
  loop is structural or has a termination proof. \<open>waitReady\<close> runs on the list of states it observes, one per pause of its
  poll, and returns by its deadline. Go's 64-bit arithmetic is written out where it can wrap (the heap check of \<open>Validate\<close>,
  generations, the VarInts); file sizes and times are unbounded integers.

  \<^bold>\<open>Parameters.\<close> Code that is not part of the repository is an argument: the YAML decoder, the tar and zstd
  codecs, HTTP services, the object store and the rclone process, \<open>strconv\<close> on floats, Unicode tables beyond ASCII, the
  clock, the random names of temporary files, the processes that are started.

  \<^bold>\<open>Not modelled\<close>: the text of log messages, process groups and their signals, the lifecycle of \<open>http.Server\<close> and
  \<open>signal.NotifyContext\<close>, the static pages of the dashboard (\<open>webui/assets.go\<close>), owners of files, and the following of symbolic
  links inside a path: an operation on a path that leads through a link fails.
\<close>

end
